(* ===== verification/Js_Prelude.thy ===== *)
theory Js_Prelude
  imports Complex_Main "HOL-Library.Word"
begin

text \<open>
  The fragment of JavaScript the sources use, and the lemmas the component theories share.

  A string is the list of its UTF-16 code units (\<open>16 word list\<close>), as \<open>length\<close>,
  \<open>charCodeAt\<close> and \<open>fromCharCode\<close> see it. \<open>js ''abc''\<close> is an ASCII literal; a
  literal with other characters is written as the list of its code units.
  A number is \<open>Fin r\<close> with an exact rational \<open>r\<close>, one of the two infinities, or
  \<open>NaN\<close>; the rounding of IEEE doubles is not modelled. A bitwise operator works on
  integers after the conversion \<open>to_int32\<close> (or \<open>to_uint32\<close>), as in ECMAScript.
  \<open>jsval\<close> is the type of dynamically typed values: objects are association lists in
  creation order, a function value is opaque.
\<close>

unbundle bit_operations_syntax

named_theorems js_ops \<open>definitions of the JavaScript operators\<close>

section \<open>Strings\<close>

type_synonym jchar = "16 word"
type_synonym jstr = "jchar list"

definition js :: "string \<Rightarrow> jstr" where
  "js s = map of_char s"

lemma length_js [simp]: "length (js s) = length s"
  by (simp add: js_def)

lemma js_Nil [simp]: "js [] = []"
  by (simp add: js_def)

lemma js_append: "js (s @ t) = js s @ js t"
  by (simp add: js_def)

text \<open>\<open>starts_with p s\<close>: \<open>p\<close> is a prefix of \<open>s\<close>; \<open>js_contains\<close> is \<open>s.indexOf(p) != -1\<close>.\<close>

fun starts_with :: "'a list \<Rightarrow> 'a list \<Rightarrow> bool" where
  "starts_with [] s = True"
| "starts_with (p # ps) [] = False"
| "starts_with (p # ps) (c # s) = (p = c \<and> starts_with ps s)"

fun index_of :: "'a list \<Rightarrow> 'a list \<Rightarrow> nat option" where
  "index_of p [] = (if p = [] then Some 0 else None)"
| "index_of p (c # s) =
     (if starts_with p (c # s) then Some 0 else map_option Suc (index_of p s))"

definition js_contains :: "'a list \<Rightarrow> 'a list \<Rightarrow> bool" where
  "js_contains p s = (index_of p s \<noteq> None)"

text \<open>\<open>s.replace(p, r)\<close> with a string pattern replaces the first occurrence only.\<close>

definition replace_first :: "'a list \<Rightarrow> 'a list \<Rightarrow> 'a list \<Rightarrow> 'a list" where
  "replace_first p r s =
     (case index_of p s of None \<Rightarrow> s | Some i \<Rightarrow> take i s @ r @ drop (i + length p) s)"

text \<open>\<open>s.replace(/p/g, r)\<close> for a literal, non-empty pattern: leftmost, non-overlapping.\<close>

function replace_all :: "'a list \<Rightarrow> 'a list \<Rightarrow> 'a list \<Rightarrow> 'a list" where
  "replace_all p r [] = []"
| "replace_all p r (c # s) =
     (if p \<noteq> [] \<and> starts_with p (c # s) then r @ replace_all p r (drop (length p) (c # s))
      else c # replace_all p r s)"
  by pat_completeness auto
termination
  by (relation "measure (\<lambda>(p, r, s). length s)") auto

text \<open>\<open>s.split(sep)\<close> for a one-character separator; the result is never empty.\<close>

fun split_on :: "'a \<Rightarrow> 'a list \<Rightarrow> 'a list list" where
  "split_on d [] = [[]]"
| "split_on d (c # s) =
     (if c = d then [] # split_on d s
      else (case split_on d s of [] \<Rightarrow> [[c]] | w # ws \<Rightarrow> (c # w) # ws))"

fun join_with :: "'a list \<Rightarrow> 'a list list \<Rightarrow> 'a list" where
  "join_with d [] = []"
| "join_with d [w] = w"
| "join_with d (w # v # ws) = w @ d @ join_with d (v # ws)"

lemma starts_with_iff: "starts_with p s \<longleftrightarrow> (\<exists>t. s = p @ t)"
  by (induction p s rule: starts_with.induct) auto

lemma split_on_not_Nil [simp]: "split_on d s \<noteq> []"
  by (induction d s rule: split_on.induct) (auto split: list.splits)

lemma join_with_Cons: "ws \<noteq> [] \<Longrightarrow> join_with d (w # ws) = w @ d @ join_with d ws"
  by (cases ws) auto

lemma join_split_on [simp]: "join_with [d] (split_on d s) = s"
proof (induction d s rule: split_on.induct)
  case (2 d c s)
  then show ?case
    by (cases "split_on d s"; cases "tl (split_on d s)") (auto simp: join_with_Cons)
qed simp

lemma split_on_no_sep: "d \<notin> set s \<Longrightarrow> split_on d s = [s]"
  by (induction d s rule: split_on.induct) auto

lemma split_on_append: "d \<notin> set s \<Longrightarrow> split_on d (s @ d # t) = s # split_on d t"
  by (induction s) auto

lemma split_on_join:
  "ws \<noteq> [] \<Longrightarrow> (\<And>w. w \<in> set ws \<Longrightarrow> d \<notin> set w) \<Longrightarrow> split_on d (join_with [d] ws) = ws"
  by (induction "[d]" ws rule: join_with.induct) (auto simp: split_on_no_sep split_on_append)

section \<open>Numbers and values\<close>

datatype jnum = Fin rat | PosInf | NegInf | NaN

datatype jsval =
    Undefined
  | Null
  | Bool bool
  | Num jnum
  | Str jstr
  | Arr "jsval list"
  | Obj "(jstr \<times> jsval) list"
  | Fun

abbreviation NumI :: "int \<Rightarrow> jsval" where
  "NumI i \<equiv> Num (Fin (of_int i))"

fun js_add :: "jnum \<Rightarrow> jnum \<Rightarrow> jnum" where
  "js_add (Fin a) (Fin b) = Fin (a + b)"
| "js_add (Fin a) y = y"
| "js_add x (Fin b) = x"
| "js_add PosInf PosInf = PosInf"
| "js_add NegInf NegInf = NegInf"
| "js_add _ _ = NaN"

text \<open>\<open>x <= 0\<close>; a comparison with \<open>NaN\<close> is false.\<close>

fun js_le_zero :: "jnum \<Rightarrow> bool" where
  "js_le_zero (Fin a) = (a \<le> 0)"
| "js_le_zero NegInf = True"
| "js_le_zero _ = False"

text \<open>\<open>x === y\<close> on numbers: \<open>NaN\<close> differs from everything, itself included.\<close>

definition js_num_eq :: "jnum \<Rightarrow> jnum \<Rightarrow> bool" where
  "js_num_eq x y = (x \<noteq> NaN \<and> x = y)"

fun js_is_number :: "jsval \<Rightarrow> bool" where
  "js_is_number (Num _) = True"
| "js_is_number _ = False"

fun js_is_string :: "jsval \<Rightarrow> bool" where
  "js_is_string (Str _) = True"
| "js_is_string _ = False"

subsection \<open>Printing integers\<close>

fun nat_digits :: "nat \<Rightarrow> jstr" where
  "nat_digits n =
     (if n < 10 then [of_nat (48 + n)]
      else nat_digits (n div 10) @ [of_nat (48 + n mod 10)])"

declare nat_digits.simps [simp del]

definition int_str :: "int \<Rightarrow> jstr" where
  "int_str i = (if i < 0 then js ''-'' @ nat_digits (nat (- i)) else nat_digits (nat i))"

text \<open>
  The decimal digits after the point of a fraction in \<open>[0, 1)\<close>, at most \<open>k\<close> of them; a
  number whose decimal expansion is longer than 17 places is cut there.
\<close>

fun frac_digits :: "nat \<Rightarrow> rat \<Rightarrow> jstr" where
  "frac_digits 0 r = []"
| "frac_digits (Suc k) r =
     (if r = 0 then []
      else of_nat (48 + nat \<lfloor>10 * r\<rfloor>) # frac_digits k (10 * r - of_int \<lfloor>10 * r\<rfloor>))"

text \<open>
  \<open>String(n)\<close> for numbers that print without an exponent: magnitudes below 1e21, and not between 0 and 1e-6.
\<close>

definition num_str :: "jnum \<Rightarrow> jstr" where
  "num_str x =
     (case x of
        Fin r \<Rightarrow>
          (let a = \<bar>r\<bar>; i = \<lfloor>a\<rfloor>; f = frac_digits 17 (a - of_int i)
           in (if r < 0 then js ''-'' else []) @ nat_digits (nat i)
              @ (if f = [] then [] else js ''.'' @ f))
      | PosInf \<Rightarrow> js ''Infinity''
      | NegInf \<Rightarrow> js ''-Infinity''
      | NaN \<Rightarrow> js ''NaN'')"

lemma num_str_of_int: "num_str (Fin (of_int i)) = int_str i"
  by (auto simp: num_str_def int_str_def numeral_eq_Suc Let_def)

subsection \<open>Reading numbers and loose equality\<close>

definition js_ws :: "jchar \<Rightarrow> bool" where
  "js_ws c = (c \<in> {9, 10, 11, 12, 13, 32, 0xA0, 0x1680, 0x2028, 0x2029, 0x202F, 0x205F, 0x3000, 0xFEFF}
     \<or> 0x2000 \<le> c \<and> c \<le> 0x200A)"

definition js_trim :: "jstr \<Rightarrow> jstr" where
  "js_trim s = rev (dropWhile js_ws (rev (dropWhile js_ws s)))"

definition is_digit :: "jchar \<Rightarrow> bool" where
  "is_digit c = (48 \<le> c \<and> c \<le> 57)"

text \<open>The value of a digit in a base up to 16; 16 for a character that is no digit.\<close>

definition digit_val :: "jchar \<Rightarrow> nat" where
  "digit_val c =
     (if 48 \<le> c \<and> c \<le> 57 then unat (c - 48)
      else if 97 \<le> c \<and> c \<le> 102 then unat (c - 87)
      else if 65 \<le> c \<and> c \<le> 70 then unat (c - 55)
      else 16)"

definition digits_val :: "nat \<Rightarrow> jstr \<Rightarrow> nat" where
  "digits_val b ds = foldl (\<lambda>n c. n * b + digit_val c) 0 ds"

definition radix_num :: "nat \<Rightarrow> jstr \<Rightarrow> jnum" where
  "radix_num b ds =
     (if ds \<noteq> [] \<and> (\<forall>c \<in> set ds. digit_val c < b) then Fin (of_nat (digits_val b ds)) else NaN)"

text \<open>An exponent part that reaches the end of the string: empty, or \<open>e\<close>, a sign and digits.\<close>

definition exponent :: "jstr \<Rightarrow> int option" where
  "exponent s =
     (case s of [] \<Rightarrow> Some 0
      | e # r \<Rightarrow>
          (let neg = (r \<noteq> [] \<and> hd r = 45);
               ds = (if r \<noteq> [] \<and> hd r \<in> {43, 45} then tl r else r)
           in if e \<in> {69, 101} \<and> ds \<noteq> [] \<and> (\<forall>c \<in> set ds. is_digit c)
              then Some (if neg then - int (digits_val 10 ds) else int (digits_val 10 ds))
              else None))"

definition scale10 :: "nat \<Rightarrow> int \<Rightarrow> rat" where
  "scale10 n e = (if 0 \<le> e then of_nat n * 10 ^ nat e else of_nat n / 10 ^ nat (- e))"

definition decimal_num :: "jstr \<Rightarrow> jnum" where
  "decimal_num s =
     (let i = takeWhile is_digit s; r = dropWhile is_digit s;
          f = (if r \<noteq> [] \<and> hd r = 46 then takeWhile is_digit (tl r) else []);
          r' = (if r \<noteq> [] \<and> hd r = 46 then dropWhile is_digit (tl r) else r)
      in if i @ f = [] then NaN
         else (case exponent r' of None \<Rightarrow> NaN
               | Some e \<Rightarrow> Fin (scale10 (digits_val 10 (i @ f)) (e - int (length f)))))"

fun neg_num :: "jnum \<Rightarrow> jnum" where
  "neg_num (Fin r) = Fin (- r)"
| "neg_num PosInf = NegInf"
| "neg_num NegInf = PosInf"
| "neg_num NaN = NaN"

text \<open>\<open>Number(s)\<close> of a string.\<close>

definition str_num :: "jstr \<Rightarrow> jnum" where
  "str_num s0 =
     (let s = js_trim s0;
          t = (if s \<noteq> [] \<and> hd s \<in> {43, 45} then tl s else s);
          v = (if t = js ''Infinity'' then PosInf else decimal_num t)
      in if s = [] then Fin 0
         else if starts_with (js ''0x'') s \<or> starts_with (js ''0X'') s then radix_num 16 (drop 2 s)
         else if starts_with (js ''0b'') s \<or> starts_with (js ''0B'') s then radix_num 2 (drop 2 s)
         else if starts_with (js ''0o'') s \<or> starts_with (js ''0O'') s then radix_num 8 (drop 2 s)
         else if hd s = 45 then neg_num v else v)"

fun prim_num :: "jsval \<Rightarrow> jnum option" where
  "prim_num (Num n) = Some n"
| "prim_num (Str s) = Some (str_num s)"
| "prim_num (Bool b) = Some (Fin (if b then 1 else 0))"
| "prim_num _ = None"

text \<open>
  \<open>x == y\<close> on primitive values. Objects, arrays and functions compare by identity, which
  the model does not carry; they are equal to nothing.
\<close>

definition js_eq :: "jsval \<Rightarrow> jsval \<Rightarrow> bool" where
  "js_eq x y =
     (case (x, y) of
        (Str a, Str b) \<Rightarrow> a = b
      | _ \<Rightarrow>
          if x \<in> {Undefined, Null} \<or> y \<in> {Undefined, Null}
          then x \<in> {Undefined, Null} \<and> y \<in> {Undefined, Null}
          else (case (prim_num x, prim_num y) of (Some a, Some b) \<Rightarrow> js_num_eq a b | _ \<Rightarrow> False))"

lemma js_eq_Fin [simp]: "js_eq (Num (Fin a)) (Num (Fin b)) = (a = b)"
  by (simp add: js_num_eq_def js_eq_def)

lemma js_eq_NaN [simp]: "\<not> js_eq (Num NaN) (Num b)"
  by (simp add: js_num_eq_def js_eq_def)

text \<open>\<open>n.toString(16)\<close>.\<close>

definition hex_digit :: "nat \<Rightarrow> jchar" where
  "hex_digit d = (if d < 10 then of_nat (48 + d) else of_nat (87 + d))"

fun nat_hex :: "nat \<Rightarrow> jstr" where
  "nat_hex n = (if n < 16 then [hex_digit n] else nat_hex (n div 16) @ [hex_digit (n mod 16)])"

declare nat_hex.simps [simp del]

section \<open>Shared list lemmas\<close>

lemma those_map_Some:
  "(\<And>x. x \<in> set xs \<Longrightarrow> f x = Some (g x)) \<Longrightarrow> those (map f xs) = Some (map g xs)"
  by (induction xs) auto

lemma size_list_member: "x \<in> set xs \<Longrightarrow> f x < size_list f xs"
  by (induction xs) auto

lemma foldl_digits: "foldl (\<lambda>n c. n * b + f c) k ds = k * b ^ length ds + foldl (\<lambda>n c. n * b + f c) 0 ds"
  for b :: nat
proof (induction ds arbitrary: k)
  case (Cons d ds)
  have "foldl (\<lambda>n c. n * b + f c) k (d # ds) =
      (k * b + f d) * b ^ length ds + foldl (\<lambda>n c. n * b + f c) 0 ds"
    using Cons.IH [of "k * b + f d"] by simp
  moreover have "foldl (\<lambda>n c. n * b + f c) 0 (d # ds) =
      f d * b ^ length ds + foldl (\<lambda>n c. n * b + f c) 0 ds"
    using Cons.IH [of "f d"] by simp
  ultimately show ?case
    by (simp add: distrib_right)
qed simp

lemma digits_val_append: "digits_val b (xs @ ys) = digits_val b xs * b ^ length ys + digits_val b ys"
  by (simp add: digits_val_def foldl_digits [of b digit_val "foldl _ 0 xs"])

lemma digits_val_Nil [simp]: "digits_val b [] = 0"
  by (simp add: digits_val_def)

lemma digits_val_single [simp]: "digits_val b [c] = digit_val c"
  by (simp add: digits_val_def)

lemma unat_of_nat16: "n < 65536 \<Longrightarrow> unat (of_nat n :: jchar) = n"
  by (simp add: unat_of_nat take_bit_nat_eq_self)

lemma nat_less_10: "(d::nat) < 10 \<Longrightarrow> d \<in> {0, 1, 2, 3, 4, 5, 6, 7, 8, 9}"
  by auto

lemma digit_val_dec: "d < 10 \<Longrightarrow> digit_val (of_nat (48 + d)) = d"
  by (drule nat_less_10) (auto simp: digit_val_def)

lemma is_digit_dec [simp]: "d < 10 \<Longrightarrow> is_digit (of_nat (48 + d))"
  by (drule nat_less_10) (auto simp: is_digit_def)

lemma digits_val_nat_digits [simp]: "digits_val 10 (nat_digits n) = n"
proof (induction n rule: nat_digits.induct)
  case (1 n)
  show ?case
  proof (cases "n < 10")
    case True
    then show ?thesis
      by (subst nat_digits.simps) (simp add: digit_val_dec del: of_nat_add)
  next
    case False
    with 1 show ?thesis
      by (subst nat_digits.simps) (simp add: digits_val_append digit_val_dec del: of_nat_add)
  qed
qed

lemma nat_digits_all_digits: "c \<in> set (nat_digits n) \<Longrightarrow> is_digit c"
proof (induction n rule: nat_digits.induct)
  case (1 n)
  then show ?case
    by (subst (asm) nat_digits.simps) (auto split: if_splits simp del: of_nat_add)
qed

lemma nat_digits_not_Nil [simp]: "nat_digits n \<noteq> []"
  by (subst nat_digits.simps) simp

lemma map_enumerate_snd: "map (\<lambda>(i, x). f x) (enumerate n xs) = map f xs"
  by (induction xs arbitrary: n) auto

lemma unat16_less: "unat (c :: jchar) < 65536"
  using unsigned_less [of c] by simp

section \<open>Objects as association lists\<close>

text \<open>\<open>obj[k] = v\<close>: an existing member keeps its place, a new one comes last.\<close>

fun put_entry :: "'a \<Rightarrow> 'b \<Rightarrow> ('a \<times> 'b) list \<Rightarrow> ('a \<times> 'b) list" where
  "put_entry k v [] = [(k, v)]"
| "put_entry k v ((k', v') # xs) = (if k' = k then (k, v) # xs else (k', v') # put_entry k v xs)"

lemma keys_put_entry: "set (map fst (put_entry k v xs)) = insert k (set (map fst xs))"
  by (induction k v xs rule: put_entry.induct) auto

lemma distinct_put_entry: "distinct (map fst xs) \<Longrightarrow> distinct (map fst (put_entry k v xs))"
proof (induction k v xs rule: put_entry.induct)
  case (2 k v k' v' xs)
  then show ?case using keys_put_entry [of k v xs] by auto
qed simp

lemma set_put_entry: "(k', v') \<in> set (put_entry k v xs) \<Longrightarrow> (k', v') = (k, v) \<or> (k', v') \<in> set xs"
  by (induction k v xs rule: put_entry.induct) (auto split: if_splits)

lemma map_of_put_entry: "map_of (put_entry k v xs) = (map_of xs)(k \<mapsto> v)"
  by (induction k v xs rule: put_entry.induct) (auto simp: fun_eq_iff)

end
