(* ===== verification/Json2.thy ===== *)
theory Json2
  imports Js_Prelude
begin

text \<open>
  The JSON serialiser and parser of \<open>src/language/javascript/dmt_json2.js\<close>, which the
  reporting script loads into browsers that have no \<open>JSON\<close> object.

  The functions keep the names of the source. A recursive call of \<open>str\<close> may be on a value
  that a replacer function made up, so \<open>str\<close> takes fuel, and \<open>None\<close> is the value
  of a call that did not return; \<open>Some None\<close> is JavaScript's \<open>undefined\<close>.
  \<open>json_render\<close> is the reference: the compact text of a value by structural recursion.
\<close>

section \<open>Characters and strings\<close>

definition rx_escapable :: "jchar \<Rightarrow> bool" where
  "rx_escapable c =
     (c = 0x5C \<or> c = 0x22 \<or> c \<le> 0x1F \<or> (0x7F \<le> c \<and> c \<le> 0x9F) \<or> c = 0xAD
      \<or> (0x600 \<le> c \<and> c \<le> 0x604) \<or> c = 0x70F \<or> c = 0x17B4 \<or> c = 0x17B5
      \<or> (0x200C \<le> c \<and> c \<le> 0x200F) \<or> (0x2028 \<le> c \<and> c \<le> 0x202F)
      \<or> (0x2060 \<le> c \<and> c \<le> 0x206F) \<or> c = 0xFEFF \<or> 0xFFF0 \<le> c)"

definition rx_dangerous :: "jchar \<Rightarrow> bool" where
  "rx_dangerous c =
     (c = 0 \<or> c = 0xAD \<or> (0x600 \<le> c \<and> c \<le> 0x604) \<or> c = 0x70F \<or> c = 0x17B4 \<or> c = 0x17B5
      \<or> (0x200C \<le> c \<and> c \<le> 0x200F) \<or> (0x2028 \<le> c \<and> c \<le> 0x202F)
      \<or> (0x2060 \<le> c \<and> c \<le> 0x206F) \<or> c = 0xFEFF \<or> 0xFFF0 \<le> c)"

text \<open>The table \<open>meta\<close> of short escapes.\<close>

definition meta :: "jchar \<Rightarrow> jstr option" where
  "meta c =
     (if c = 8 then Some [0x5C, 0x62]
      else if c = 9 then Some [0x5C, 0x74]
      else if c = 10 then Some [0x5C, 0x6E]
      else if c = 12 then Some [0x5C, 0x66]
      else if c = 13 then Some [0x5C, 0x72]
      else if c = 0x22 then Some [0x5C, 0x22]
      else if c = 0x5C then Some [0x5C, 0x5C]
      else None)"

text \<open>\<open>"\\u" + ("0000" + a.charCodeAt(0).toString(16)).slice(-4)\<close>.\<close>

definition u_escape :: "jchar \<Rightarrow> jstr" where
  "u_escape c =
     (let t = js ''0000'' @ nat_hex (unat c) in [0x5C, 0x75] @ drop (length t - 4) t)"

definition escape_char :: "jchar \<Rightarrow> jstr" where
  "escape_char c =
     (if rx_escapable c then (case meta c of Some e \<Rightarrow> e | None \<Rightarrow> u_escape c) else [c])"

definition quote :: "jstr \<Rightarrow> jstr" where
  "quote s =
     (if list_ex rx_escapable s then [0x22] @ concat (map escape_char s) @ [0x22]
      else [0x22] @ s @ [0x22])"

section \<open>Serialising\<close>

text \<open>
  The third argument of \<open>JSON.stringify\<close> is a number, a string or absent. The second is
  absent (or falsy), a function of holder, key and value, an object with a numeric
  \<open>length\<close> whose string elements select members, or something else, which is an error.
\<close>

datatype replacer =
    NoRep
  | RepFun "jsval \<Rightarrow> jsval \<Rightarrow> jsval \<Rightarrow> jsval"
  | RepArr "jsval list"
  | RepOther

datatype space = NoSpace | SpaceNum int | SpaceStr jstr

datatype json_error = JsonError | JsonSyntaxError

definition obj_get :: "(jstr \<times> jsval) list \<Rightarrow> jstr \<Rightarrow> jsval" where
  "obj_get kvs k = (case map_of kvs k of Some v \<Rightarrow> v | None \<Rightarrow> Undefined)"

definition wrap_items :: "jchar \<Rightarrow> jchar \<Rightarrow> jstr \<Rightarrow> jstr \<Rightarrow> jstr list \<Rightarrow> jstr" where
  "wrap_items lb rb mind gap partial =
     (if partial = [] then [lb, rb]
      else if gap \<noteq> [] then
        [lb, 10] @ gap @ join_with ([44, 10] @ gap) partial @ [10] @ mind @ [rb]
      else [lb] @ join_with [44] partial @ [rb])"

definition member_text :: "jstr \<Rightarrow> jstr \<Rightarrow> jstr option \<Rightarrow> jstr option" where
  "member_text gap k t =
     (case t of
        Some v \<Rightarrow>
          if v = [] then None
          else Some (quote k @ (if gap \<noteq> [] then js '': '' else js '':'') @ v)
      | None \<Rightarrow> None)"

definition item_text :: "jstr option \<Rightarrow> jstr" where
  "item_text t = (case t of Some v \<Rightarrow> if v = [] then js ''null'' else v | None \<Rightarrow> js ''null'')"

definition rep_keys :: "jsval list \<Rightarrow> jstr list" where
  "rep_keys rs = List.map_filter (\<lambda>r. case r of Str k \<Rightarrow> Some k | _ \<Rightarrow> None) rs"

text \<open>
  \<open>str tj rep indent fuel gap holder key v\<close> is \<open>str(key, holder)\<close> with \<open>v = holder[key]\<close>
  and the values of the closure variables \<open>rep\<close>, \<open>indent\<close> and \<open>gap\<close>;
  \<open>tj v\<close> is the result of the \<open>toJSON\<close> method of the object \<open>v\<close>, if it has one.
\<close>

fun str :: "(jsval \<Rightarrow> jsval option) \<Rightarrow> replacer \<Rightarrow> jstr \<Rightarrow> nat \<Rightarrow> jstr \<Rightarrow> jsval \<Rightarrow> jsval \<Rightarrow> jsval
    \<Rightarrow> jstr option option" where
  "str tj rep indent 0 gap holder key v = None"
| "str tj rep indent (Suc n) gap holder key v =
     (let v1 = (case v of
                  Arr _ \<Rightarrow> (case tj v of Some w \<Rightarrow> w | None \<Rightarrow> v)
                | Obj _ \<Rightarrow> (case tj v of Some w \<Rightarrow> w | None \<Rightarrow> v)
                | _ \<Rightarrow> v);
          value = (case rep of RepFun f \<Rightarrow> f holder key v1 | _ \<Rightarrow> v1);
          gap' = gap @ indent
      in case value of
           Str s \<Rightarrow> Some (Some (quote s))
         | Num x \<Rightarrow> Some (Some (case x of Fin r \<Rightarrow> num_str x | _ \<Rightarrow> js ''null''))
         | Bool b \<Rightarrow> Some (Some (if b then js ''true'' else js ''false''))
         | Null \<Rightarrow> Some (Some (js ''null''))
         | Undefined \<Rightarrow> Some None
         | Fun \<Rightarrow> Some None
         | Arr xs \<Rightarrow>
             map_option (\<lambda>partial. Some (wrap_items 0x5B 0x5D gap gap' partial))
               (those (map (\<lambda>(i, x). map_option item_text
                               (str tj rep indent n gap' value (NumI (int i)) x))
                  (enumerate 0 xs)))
         | Obj kvs \<Rightarrow>
             (let ks = (case rep of
                          RepArr rs \<Rightarrow> map (\<lambda>k. (k, obj_get kvs k)) (rep_keys rs)
                        | _ \<Rightarrow> kvs)
              in map_option (\<lambda>ts. Some (wrap_items 0x7B 0x7D gap gap' (List.map_filter id ts)))
                   (those (map (\<lambda>(k, x). map_option (member_text gap' k)
                                  (str tj rep indent n gap' value (Str k) x)) ks))))"

definition stringify :: "(jsval \<Rightarrow> jsval option) \<Rightarrow> nat \<Rightarrow> jsval \<Rightarrow> replacer \<Rightarrow> space
    \<Rightarrow> json_error + jstr option option" where
  "stringify tj fuel value rep space =
     (let indent = (case space of
                      SpaceNum k \<Rightarrow> replicate (nat k) 32
                    | SpaceStr s \<Rightarrow> s
                    | NoSpace \<Rightarrow> [])
      in case rep of
           RepOther \<Rightarrow> Inl JsonError
         | _ \<Rightarrow> Inr (str tj rep indent fuel [] (Obj [([], value)]) (Str []) value))"

text \<open>The reference: the compact text of a plain value, \<open>None\<close> where it has none.\<close>

fun json_render :: "jsval \<Rightarrow> jstr option" where
  "json_render (Str s) = Some (quote s)"
| "json_render (Num x) = Some (case x of Fin r \<Rightarrow> num_str x | _ \<Rightarrow> js ''null'')"
| "json_render (Bool b) = Some (if b then js ''true'' else js ''false'')"
| "json_render Null = Some (js ''null'')"
| "json_render Undefined = None"
| "json_render Fun = None"
| "json_render (Arr xs) =
     Some ([0x5B] @ join_with [44] (map (\<lambda>x. item_text (json_render x)) xs) @ [0x5D])"
| "json_render (Obj kvs) =
     Some ([0x7B] @ join_with [44]
       (List.map_filter id (map (\<lambda>(k, x). member_text [] k (json_render x)) kvs)) @ [0x7D])"

text \<open>The text \<open>JSON.stringify(v)\<close> has for a plain value that is not \<open>undefined\<close>.\<close>

definition json_text :: "jsval \<Rightarrow> jstr" where
  "json_text v =
     (case stringify (\<lambda>_. None) (Suc (size v)) v NoRep NoSpace of
        Inr (Some (Some t)) \<Rightarrow> t
      | _ \<Rightarrow> [])"

section \<open>The serialiser and its reference\<close>

lemma escape_char_plain: "\<not> rx_escapable c \<Longrightarrow> escape_char c = [c]"
  by (simp add: escape_char_def)

lemma concat_escape_plain: "\<not> list_ex rx_escapable s \<Longrightarrow> concat (map escape_char s) = s"
  by (induction s) (auto simp: escape_char_plain)

lemma quote_eq: "quote s = [0x22] @ concat (map escape_char s) @ [0x22]"
  by (simp add: quote_def concat_escape_plain)

lemma wrap_items_compact: "wrap_items lb rb mind [] ps = [lb] @ join_with [44] ps @ [rb]"
  by (simp add: wrap_items_def)

lemma size_pair_list: "(k, x) \<in> set kvs \<Longrightarrow> size x < size_list (size_prod (\<lambda>_. 0) size) kvs"
  using size_list_member [of "(k, x)" kvs "size_prod (\<lambda>_. 0) size"] by simp

lemma str_compact:
  "size v < n \<Longrightarrow> str (\<lambda>_. None) NoRep [] n [] holder key v = Some (json_render v)"
proof (induction n arbitrary: v holder key)
  case (Suc n)
  show ?case
  proof (cases v)
    case (Arr xs)
    have "str (\<lambda>_. None) NoRep [] n [] v (NumI (int i)) x = Some (json_render x)"
      if "(i, x) \<in> set (enumerate 0 xs)" for i x
    proof (rule Suc.IH)
      from that have "x \<in> set xs" by (auto simp: in_set_enumerate_eq)
      then show "size x < n" using Suc.prems Arr size_list_member [of x xs size] by simp
    qed
    then have "those (map (\<lambda>(i, x). map_option item_text
          (str (\<lambda>_. None) NoRep [] n [] v (NumI (int i)) x)) (enumerate 0 xs))
        = Some (map (\<lambda>(i, x). item_text (json_render x)) (enumerate 0 xs))"
      by (intro those_map_Some) auto
    then show ?thesis using Arr by (simp add: wrap_items_compact map_enumerate_snd)
  next
    case (Obj kvs)
    have "str (\<lambda>_. None) NoRep [] n [] v (Str k) x = Some (json_render x)"
      if "(k, x) \<in> set kvs" for k x
      using Suc.prems Obj size_pair_list [OF that] by (intro Suc.IH) simp
    then have "those (map (\<lambda>(k, x). map_option (member_text [] k)
          (str (\<lambda>_. None) NoRep [] n [] v (Str k) x)) kvs)
        = Some (map (\<lambda>(k, x). member_text [] k (json_render x)) kvs)"
      by (intro those_map_Some) auto
    then show ?thesis using Obj by (simp add: wrap_items_compact)
  qed auto
qed simp

lemma json_text_render: "json_render v = Some t \<Longrightarrow> json_text v = t"
  by (simp add: json_text_def stringify_def str_compact del: str.simps)

section \<open>Reading the text back\<close>

text \<open>
  A reader for the compact form, the specification of what a receiver sees: strings with
  the escapes of RFC 8259, integers, the three literals, arrays and objects. Fuel bounds the
  nesting; \<open>None\<close> is a text outside the format.
\<close>

definition unescape_short :: "jchar \<Rightarrow> jchar option" where
  "unescape_short e =
     (if e = 0x62 then Some 8 else if e = 0x74 then Some 9 else if e = 0x6E then Some 10
      else if e = 0x66 then Some 12 else if e = 0x72 then Some 13
      else if e = 0x22 \<or> e = 0x5C \<or> e = 0x2F then Some e else None)"

function read_chars :: "jstr \<Rightarrow> (jstr \<times> jstr) option" where
  "read_chars [] = None"
| "read_chars (c # s) =
     (if c = 0x22 then Some ([], s)
      else if c = 0x5C then
        (case s of
           [] \<Rightarrow> None
         | e # r \<Rightarrow>
             if e = 0x75 then
               (if 4 \<le> length r
                then map_option (map_prod ((#) (of_nat (digits_val 16 (take 4 r)))) id)
                       (read_chars (drop 4 r))
                else None)
             else (case unescape_short e of
                     None \<Rightarrow> None
                   | Some d \<Rightarrow> map_option (map_prod ((#) d) id) (read_chars r)))
      else map_option (map_prod ((#) c) id) (read_chars s))"
  by pat_completeness auto
termination
  by (relation "measure length") auto

lemma hex_digit_val: "d < 16 \<Longrightarrow> digit_val (hex_digit d) = d"
proof (cases "d < 10")
  case True
  then show ?thesis using digit_val_dec [OF True] by (simp add: hex_digit_def)
next
  case False
  assume "d < 16"
  define k where "k = d - 10"
  have d: "d = 10 + k" using False by (simp add: k_def)
  have "k < 6" using \<open>d < 16\<close> d by simp
  then have "k \<in> {0, 1, 2, 3, 4, 5}" by auto
  then show ?thesis unfolding d by (auto simp: hex_digit_def digit_val_def)
qed

lemma digits_val_nat_hex: "digits_val 16 (nat_hex n) = n"
proof (induction n rule: nat_hex.induct)
  case (1 n)
  then show ?case
    by (cases "n < 16"; subst nat_hex.simps) (auto simp: digits_val_append hex_digit_val)
qed

lemma length_nat_hex: "n < 16 ^ Suc k \<Longrightarrow> length (nat_hex n) \<le> Suc k"
proof (induction k arbitrary: n)
  case 0
  then show ?case by (subst nat_hex.simps) simp
next
  case (Suc k)
  have "n div 16 < 16 ^ Suc k" using Suc.prems by (auto simp: less_mult_imp_div_less)
  then have "length (nat_hex (n div 16)) \<le> Suc k" by (rule Suc.IH)
  then show ?case by (subst nat_hex.simps) simp
qed

lemma digits_val_zeros: "digits_val b (replicate k 48 @ ds) = digits_val b ds"
proof (induction k)
  case (Suc k)
  have "digits_val b ([48] @ (replicate k 48 @ ds)) = digits_val b (replicate k 48 @ ds)"
    unfolding digits_val_append [of b "[48]"] by (simp add: digit_val_def)
  with Suc show ?case by simp
qed simp

lemma u_escape_form:
  "\<exists>h. u_escape c = [0x5C, 0x75] @ h \<and> length h = 4 \<and> digits_val 16 h = unat c"
proof -
  let ?h = "nat_hex (unat c)"
  have len: "length ?h \<le> 4"
    using length_nat_hex [of "unat c" 3] unat16_less [of c] by simp
  have zeros: "js ''0000'' = replicate 4 48" by (simp add: js_def numeral_eq_Suc)
  have "u_escape c = [0x5C, 0x75] @ replicate (4 - length ?h) 48 @ ?h"
    using len by (simp add: u_escape_def Let_def zeros)
  moreover have "length (replicate (4 - length ?h) 48 @ ?h) = 4"
    using len by simp
  ultimately show ?thesis
    using digits_val_zeros digits_val_nat_hex by metis
qed

lemma read_chars_escape:
  "read_chars (escape_char c @ s) = map_option (map_prod ((#) c) id) (read_chars s)"
proof (cases "rx_escapable c")
  case False
  then have "c \<noteq> 0x22" "c \<noteq> 0x5C" by (auto simp: rx_escapable_def)
  with False show ?thesis by (simp add: escape_char_def)
next
  case True
  show ?thesis
  proof (cases "meta c")
    case (Some e)
    with True show ?thesis
      by (auto simp: escape_char_def meta_def unescape_short_def split: if_splits)
  next
    case None
    obtain h where h: "u_escape c = [0x5C, 0x75] @ h" "length h = 4" "digits_val 16 h = unat c"
      using u_escape_form by blast
    with None True show ?thesis
      by (simp add: escape_char_def)
  qed
qed

definition read_num :: "jstr \<Rightarrow> (jsval \<times> jstr) option" where
  "read_num s =
     (let neg = (s \<noteq> [] \<and> hd s = 45); t = (if neg then tl s else s);
          ds = takeWhile is_digit t; n = int (digits_val 10 ds)
      in if ds = [] then None else Some (NumI (if neg then - n else n), dropWhile is_digit t))"

definition read_lit :: "jstr \<Rightarrow> (jsval \<times> jstr) option" where
  "read_lit s =
     (if starts_with (js ''true'') s then Some (Bool True, drop 4 s)
      else if starts_with (js ''false'') s then Some (Bool False, drop 5 s)
      else if starts_with (js ''null'') s then Some (Null, drop 4 s)
      else None)"

fun read_value :: "nat \<Rightarrow> jstr \<Rightarrow> (jsval \<times> jstr) option"
  and read_items :: "nat \<Rightarrow> jstr \<Rightarrow> (jsval list \<times> jstr) option"
  and read_members :: "nat \<Rightarrow> jstr \<Rightarrow> ((jstr \<times> jsval) list \<times> jstr) option" where
  "read_value 0 s = None"
| "read_value (Suc n) s =
     (case s of
        [] \<Rightarrow> None
      | c # r \<Rightarrow>
          if c = 0x22 then map_option (map_prod Str id) (read_chars r)
          else if c = 0x5B then
            (if starts_with [0x5D] r then Some (Arr [], tl r)
             else map_option (map_prod Arr id) (read_items n r))
          else if c = 0x7B then
            (if starts_with [0x7D] r then Some (Obj [], tl r)
             else map_option (map_prod Obj id) (read_members n r))
          else if c = 45 \<or> is_digit c then read_num s
          else read_lit s)"
| "read_items 0 s = None"
| "read_items (Suc n) s =
     (case read_value n s of
        Some (v, c # r) \<Rightarrow>
          if c = 44 then map_option (map_prod ((#) v) id) (read_items n r)
          else if c = 0x5D then Some ([v], r) else None
      | _ \<Rightarrow> None)"
| "read_members 0 s = None"
| "read_members (Suc n) s =
     (case s of
        [] \<Rightarrow> None
      | q # s1 \<Rightarrow>
          if q \<noteq> 0x22 then None
          else (case read_chars s1 of
                  Some (k, d # s2) \<Rightarrow>
                    if d \<noteq> 0x3A then None
                    else (case read_value n s2 of
                            Some (v, c # r) \<Rightarrow>
                              if c = 44 then map_option (map_prod ((#) (k, v)) id) (read_members n r)
                              else if c = 0x7D then Some ([(k, v)], r) else None
                          | _ \<Rightarrow> None)
                | _ \<Rightarrow> None))"

text \<open>The values whose text carries them exactly: integers, strings, booleans, null and their
  arrays and objects.\<close>

fun json_data :: "jsval \<Rightarrow> bool" where
  "json_data (Str s) = True"
| "json_data (Num x) = (case x of Fin r \<Rightarrow> r = of_int \<lfloor>r\<rfloor> | _ \<Rightarrow> False)"
| "json_data (Bool b) = True"
| "json_data Null = True"
| "json_data Undefined = False"
| "json_data Fun = False"
| "json_data (Arr xs) = (\<forall>x \<in> set xs. json_data x)"
| "json_data (Obj kvs) = (\<forall>p \<in> set kvs. json_data (snd p))"

text \<open>Where a number ends.\<close>

definition delim :: "jstr \<Rightarrow> bool" where
  "delim r = (r = [] \<or> \<not> is_digit (hd r))"

lemma takeWhile_digits: "delim r \<Longrightarrow> takeWhile is_digit (nat_digits n @ r) = nat_digits n"
  by (subst takeWhile_append2) (auto simp: nat_digits_all_digits delim_def takeWhile_eq_Nil_iff)

lemma dropWhile_digits: "delim r \<Longrightarrow> dropWhile is_digit (nat_digits n @ r) = r"
  by (subst dropWhile_append2) (auto simp: nat_digits_all_digits delim_def dropWhile_eq_self_iff)

lemma hd_nat_digits: "is_digit (hd (nat_digits n))"
  using nat_digits_all_digits [of "hd (nat_digits n)" n] by simp

lemma is_digit_not: "\<not> is_digit 45" "\<not> is_digit 44" "\<not> is_digit 0x5D" "\<not> is_digit 0x7D"
    "\<not> is_digit 0x22" "\<not> is_digit 0x5B" "\<not> is_digit 0x7B"
  by (simp_all add: is_digit_def)

lemma delim_simps [simp]: "delim []" "delim (44 # r)" "delim (0x5D # r)" "delim (0x7D # r)"
  by (simp_all add: delim_def is_digit_not)

lemma read_num_int: "delim r \<Longrightarrow> read_num (int_str i @ r) = Some (NumI i, r)"
proof (cases "i < 0")
  case True
  assume "delim r"
  with True show ?thesis
    by (simp add: read_num_def int_str_def js_def Let_def takeWhile_digits dropWhile_digits)
next
  case False
  assume "delim r"
  moreover have "hd (nat_digits (nat i) @ r) \<noteq> 45"
    using hd_nat_digits [of "nat i"] is_digit_not by auto
  ultimately show ?thesis using False
    by (simp add: read_num_def int_str_def Let_def takeWhile_digits dropWhile_digits)
qed

lemma int_str_head: "\<exists>c t. int_str i = c # t \<and> (c = 45 \<or> is_digit c)"
proof (cases "i < 0")
  case True
  then show ?thesis by (simp add: int_str_def js_def)
next
  case False
  then show ?thesis using hd_nat_digits [of "nat i"] nat_digits_not_Nil [of "nat i"]
    by (cases "nat_digits (nat i)") (auto simp: int_str_def simp del: nat_digits_not_Nil)
qed

lemma read_value_int:
  "delim r \<Longrightarrow> read_value (Suc n) (int_str i @ r) = Some (NumI i, r)"
proof -
  assume r: "delim r"
  obtain c t where ct: "int_str i = c # t" "c = 45 \<or> is_digit c"
    using int_str_head by blast
  have "c \<noteq> 0x22" "c \<noteq> 0x5B" "c \<noteq> 0x7B"
    using ct(2) is_digit_not by auto
  then show ?thesis using read_num_int [OF r, of i] ct by simp
qed

text \<open>
  The compact text of such a value with the escapes \<open>e\<close> of a character. A printer of this form
  is read back if the reader undoes its escapes: this is the contract \<open>escaping\<close>.
\<close>

definition quoted :: "(jchar \<Rightarrow> jstr) \<Rightarrow> jstr \<Rightarrow> jstr" where
  "quoted e s = [0x22] @ concat (map e s) @ [0x22]"

fun plain_text :: "(jchar \<Rightarrow> jstr) \<Rightarrow> jsval \<Rightarrow> jstr" where
  "plain_text e (Str s) = quoted e s"
| "plain_text e (Num x) = num_str x"
| "plain_text e (Bool b) = (if b then js ''true'' else js ''false'')"
| "plain_text e Null = js ''null''"
| "plain_text e Undefined = []"
| "plain_text e Fun = []"
| "plain_text e (Arr xs) = [0x5B] @ join_with [44] (map (plain_text e) xs) @ [0x5D]"
| "plain_text e (Obj kvs) =
     [0x7B] @ join_with [44] (map (\<lambda>(k, x). quoted e k @ [0x3A] @ plain_text e x) kvs) @ [0x7D]"

definition pair_text :: "(jchar \<Rightarrow> jstr) \<Rightarrow> jstr \<times> jsval \<Rightarrow> jstr" where
  "pair_text e p = quoted e (fst p) @ [0x3A] @ plain_text e (snd p)"

lemma plain_text_Obj: "plain_text e (Obj kvs) = [0x7B] @ join_with [44] (map (pair_text e) kvs) @ [0x7D]"
  by (simp add: pair_text_def [abs_def] case_prod_unfold)

declare plain_text.simps(8) [simp del]

lemma json_data_num: "json_data (Num x) \<Longrightarrow> \<exists>i. x = Fin (of_int i)"
  by (cases x) auto

lemma plain_text_head: "json_data v \<Longrightarrow> \<exists>c t. plain_text e v = c # t \<and> c \<noteq> 0x5D"
proof (cases v)
  case (Num x)
  moreover assume "json_data v"
  ultimately obtain i where i: "x = Fin (of_int i)" using json_data_num by blast
  obtain c t where "int_str i = c # t" "c = 45 \<or> is_digit c"
    using int_str_head by blast
  with Num i show ?thesis
    by (cases "c = 0x5D") (auto simp: num_str_of_int is_digit_not)
qed (auto simp: quoted_def js_def plain_text_Obj)

lemma join_pair_head: "ps \<noteq> [] \<Longrightarrow> \<exists>t. join_with [44] (map (pair_text e) ps) = 0x22 # t"
  by (cases ps; cases "tl ps") (auto simp: pair_text_def quoted_def)

lemma join_value_head:
  assumes "xs \<noteq> []" "\<And>x. x \<in> set xs \<Longrightarrow> json_data x"
  shows "\<exists>c t. join_with [44] (map (plain_text e) xs) = c # t \<and> c \<noteq> 0x5D"
proof (cases xs)
  case (Cons y ys)
  then obtain c t where "plain_text e y = c # t" "c \<noteq> 0x5D"
    using plain_text_head [of y e] assms(2) [of y] by auto
  with Cons show ?thesis by (cases ys) auto
qed (use assms in simp)

lemma read_items_join:
  assumes "\<And>x m r. x \<in> set xs \<Longrightarrow> size x < m \<Longrightarrow> delim r \<Longrightarrow> read_value m (plain_text e x @ r) = Some (x, r)"
    and "xs \<noteq> []" and "size_list size xs < n"
  shows "read_items n (join_with [44] (map (plain_text e) xs) @ 0x5D # r) = Some (xs, r)"
  using assms
proof (induction xs arbitrary: n)
  case (Cons x xs)
  then obtain m where n: "n = Suc m" by (cases n) auto
  show ?case
  proof (cases xs)
    case Nil
    with Cons.prems n show ?thesis by simp
  next
    case (Cons y ys)
    let ?rest = "join_with [44] (map (plain_text e) xs) @ 0x5D # r"
    have rest: "read_items m ?rest = Some (xs, r)"
      using Cons.prems n Cons by (intro Cons.IH) auto
    have "join_with [44] (map (plain_text e) (x # xs)) @ 0x5D # r = plain_text e x @ 44 # ?rest"
      using Cons by simp
    moreover have "read_value m (plain_text e x @ 44 # ?rest) = Some (x, 44 # ?rest)"
      using Cons.prems n by (intro Cons.prems(1)) auto
    ultimately show ?thesis using rest n by simp
  qed
qed simp

locale escaping =
  fixes esc :: "jchar \<Rightarrow> jstr"
  assumes read_esc: "read_chars (esc c @ s) = map_option (map_prod ((#) c) id) (read_chars s)"
begin

lemma read_quoted: "read_chars (concat (map esc s) @ 0x22 # r) = Some (s, r)"
  by (induction s) (simp_all add: read_esc del: read_chars.simps(2), simp)

lemma read_members_join:
  assumes "\<And>p m r. p \<in> set ps \<Longrightarrow> size (snd p) < m \<Longrightarrow> delim r \<Longrightarrow>
      read_value m (plain_text esc (snd p) @ r) = Some (snd p, r)"
    and "ps \<noteq> []" and "size_list (size_prod (\<lambda>_. 0) size) ps < n"
  shows "read_members n (join_with [44] (map (pair_text esc) ps) @ 0x7D # r) = Some (ps, r)"
  using assms
proof (induction ps arbitrary: n)
  case (Cons p ps)
  obtain k v where p: "p = (k, v)" by (cases p)
  from Cons.prems obtain m where n: "n = Suc m" by (cases n) auto
  have v: "read_value m (plain_text esc v @ r') = Some (v, r')" if "delim r'" for r'
    using Cons.prems(1) [of p m r'] Cons.prems(3) n p that by simp
  have key: "pair_text esc (k, v) @ r' = 0x22 # concat (map esc k) @ 0x22 # 0x3A # plain_text esc v @ r'" for r'
    by (simp add: pair_text_def quoted_def)
  show ?case
  proof (cases ps)
    case Nil
    then show ?thesis using v [of "0x7D # r"] n p
      by (simp add: key read_quoted)
  next
    case (Cons q qs)
    let ?rest = "join_with [44] (map (pair_text esc) ps) @ 0x7D # r"
    have rest: "read_members m ?rest = Some (ps, r)"
      using Cons.prems n Cons p by (intro Cons.IH) auto
    have "join_with [44] (map (pair_text esc) (p # ps)) @ 0x7D # r = pair_text esc p @ 44 # ?rest"
      using Cons by simp
    then show ?thesis using v [of "44 # ?rest"] rest n p
      by (simp add: key read_quoted)
  qed
qed simp

lemma read_plain_text:
  "json_data v \<Longrightarrow> size v < n \<Longrightarrow> delim r \<Longrightarrow> read_value n (plain_text esc v @ r) = Some (v, r)"
proof (induction v arbitrary: n r)
  case (Num x)
  then obtain i m where "x = Fin (of_int i)" "n = Suc m"
    by (cases x; cases n) auto
  with Num.prems show ?case
    by (simp add: num_str_of_int read_value_int del: read_value.simps)
next
  case (Arr xs)
  then obtain m where n: "n = Suc m" by (cases n) auto
  show ?case
  proof (cases "xs = []")
    case False
    have "read_items m (join_with [44] (map (plain_text esc) xs) @ 0x5D # r) = Some (xs, r)"
      using Arr False n by (intro read_items_join) auto
    moreover obtain c t where "join_with [44] (map (plain_text esc) xs) = c # t" "c \<noteq> 0x5D"
      using join_value_head [OF False, of esc] Arr.prems by auto
    ultimately show ?thesis using n by simp
  qed (use n in simp)
next
  case (Obj kvs)
  then obtain m where n: "n = Suc m" by (cases n) auto
  show ?case
  proof (cases "kvs = []")
    case False
    have "read_members m (join_with [44] (map (pair_text esc) kvs) @ 0x7D # r) = Some (kvs, r)"
    proof (rule read_members_join [OF _ False])
      fix p k r assume "p \<in> set kvs" "size (snd p) < k" "delim r"
      then show "read_value k (plain_text esc (snd p) @ r) = Some (snd p, r)"
        using Obj.IH [of p "snd p" k r] Obj.prems(1) by (auto simp: snds.simps)
    qed (use Obj.prems n in simp)
    moreover obtain t where "join_with [44] (map (pair_text esc) kvs) = 0x22 # t"
      using join_pair_head [OF False] by blast
    ultimately show ?thesis using n by (simp add: plain_text_Obj)
  qed (use n in \<open>simp add: plain_text_Obj\<close>)
qed (auto simp: quoted_def read_quoted js_def read_lit_def is_digit_def gr0_conv_Suc)

end

interpretation json2: escaping escape_char
  by unfold_locales (rule read_chars_escape)

lemma render_plain_text: "json_data v \<Longrightarrow> json_render v = Some (plain_text escape_char v)"
proof (induction v)
  case (Arr xs)
  then have "item_text (json_render x) = plain_text escape_char x" if "x \<in> set xs" for x
    using that plain_text_head [of x escape_char] by (auto simp: item_text_def)
  then show ?case by (simp cong: map_cong)
next
  case (Obj kvs)
  have m: "member_text [] k (json_render x) = Some (pair_text escape_char (k, x))" if "(k, x) \<in> set kvs" for k x
  proof -
    have "json_data x" "json_render x = Some (plain_text escape_char x)"
      using Obj.IH [of "(k, x)" x] Obj.prems that by (auto simp: snds.simps)
    with plain_text_head [of x escape_char] show ?thesis
      by (auto simp: member_text_def pair_text_def quote_eq quoted_def js_def)
  qed
  have "List.map_filter id (map (\<lambda>(k, x). member_text [] k (json_render x)) ps) = map (pair_text escape_char) ps"
    if "set ps \<subseteq> set kvs" for ps
    using that m by (induction ps) (auto simp: List.map_filter_simps)
  then show ?case by (simp add: plain_text_Obj)
qed (auto simp: quote_eq quoted_def split: jnum.splits)

lemma hex_digit_safe: "\<not> rx_escapable (hex_digit d)" if "d < 16"
proof -
  have "digit_val (hex_digit d) \<noteq> 16" using hex_digit_val [OF that] that by simp
  then show ?thesis
    by (auto simp: digit_val_def rx_escapable_def word_le_nat_alt split: if_splits)
qed

lemma nat_hex_safe: "c \<in> set (nat_hex n) \<Longrightarrow> \<not> rx_escapable c"
proof (induction n rule: nat_hex.induct)
  case (1 n)
  then show ?case
    by (subst (asm) nat_hex.simps) (auto simp: hex_digit_safe split: if_splits)
qed

lemma u_escape_safe: "c \<in> set (u_escape d) \<Longrightarrow> rx_escapable c \<Longrightarrow> c = 0x5C"
  by (auto simp: u_escape_def Let_def js_def rx_escapable_def [of "48"] rx_escapable_def [of "0x75"] 
      dest!: in_set_dropD dest: nat_hex_safe)

text \<open>
  C14: the text of a value read back is the value. For every value built from integers,
  strings, booleans, null, arrays and objects, \<open>JSON.stringify\<close> returns a text (enough
  fuel is one more than the size of the value), and reading that text gives the same value
  with nothing left over.
\<close>

theorem stringify_roundtrip:
  assumes "json_data v"
  shows "\<exists>t. stringify (\<lambda>_. None) (Suc (size v)) v NoRep NoSpace = Inr (Some (Some t))
    \<and> read_value (Suc (size v)) t = Some (v, [])"
  using str_compact [of v "Suc (size v)"] render_plain_text [OF assms]
    json2.read_plain_text [OF assms, of "Suc (size v)" "[]"]
  by (simp add: stringify_def del: str.simps read_value.simps)

theorem stringify_roundtrip_witness:
  "\<exists>t. stringify (\<lambda>_. None) (Suc (size (Obj [(js ''a'', Arr [NumI (-7), Str [0x22, 10, 0x2028]])])))
      (Obj [(js ''a'', Arr [NumI (-7), Str [0x22, 10, 0x2028]])]) NoRep NoSpace = Inr (Some (Some t))
    \<and> read_value (Suc (size (Obj [(js ''a'', Arr [NumI (-7), Str [0x22, 10, 0x2028]])]))) t
       = Some (Obj [(js ''a'', Arr [NumI (-7), Str [0x22, 10, 0x2028]])], [])"
  by (rule stringify_roundtrip) simp

lemma quote_chars: "c \<in> set (quote s) \<Longrightarrow> rx_escapable c \<longrightarrow> c \<in> {0x22, 0x5C}"
proof -
  assume "c \<in> set (quote s)"
  then consider "c = 0x22" | d where "d \<in> set s" "c \<in> set (escape_char d)"
    by (auto simp: quote_eq)
  then show "rx_escapable c \<longrightarrow> c \<in> {0x22, 0x5C}"
  proof cases
    case 2
    then show ?thesis
      by (auto simp: escape_char_def meta_def rx_escapable_def [of "0x62"] rx_escapable_def [of "0x74"]
          rx_escapable_def [of "0x6E"] rx_escapable_def [of "0x66"] rx_escapable_def [of "0x72"]
          dest: u_escape_safe split: if_splits option.splits)
  qed simp
qed

text \<open>
  A quoted string carries no character that \<open>JSON.parse\<close> would have to escape: apart
  from the quotes and backslashes of the notation itself, no control, format or
  otherwise dangerous character is left in it.
\<close>

theorem quote_safe: "\<forall>c \<in> set (quote s). rx_escapable c \<longrightarrow> c \<in> {0x22, 0x5C}"
  using quote_chars by blast

theorem quote_safe_witness:
  "0x5C \<in> set (quote [9, 0x41]) \<and> 0x5C \<in> {0x22, 0x5C :: jchar}"
proof -
  have "0x5C \<in> set (quote [9, 0x41])" by (simp add: quote_eq escape_char_def rx_escapable_def meta_def)
  then show ?thesis using quote_safe [of "[9, 0x41]"] by blast
qed

section \<open>The serialiser returns\<close>

text \<open>Without a replacer function and without \<open>toJSON\<close> methods no value is made up on the way.\<close>

fun keeps_values :: "replacer \<Rightarrow> bool" where
  "keeps_values (RepFun f) = False"
| "keeps_values _ = True"

lemma those_map_total: "(\<And>x. x \<in> set xs \<Longrightarrow> f x \<noteq> None) \<Longrightarrow> \<exists>ys. those (map f xs) = Some ys"
proof -
  assume "\<And>x. x \<in> set xs \<Longrightarrow> f x \<noteq> None"
  then have "those (map f xs) = Some (map (\<lambda>x. the (f x)) xs)" by (intro those_map_Some) auto
  then show ?thesis by blast
qed

lemma obj_get_size: "size (obj_get kvs k) \<le> size_list (size_prod (\<lambda>_. 0) size) kvs"
  by (auto simp: obj_get_def split: option.splits dest!: map_of_SomeD size_pair_list)

lemma str_returns:
  "keeps_values rep \<Longrightarrow> size v < n \<Longrightarrow> str (\<lambda>_. None) rep ind n gap holder key v \<noteq> None"
proof (induction n arbitrary: v holder key gap)
  case (Suc n)
  have rep [simp]: "(case rep of RepFun f \<Rightarrow> f h k w | _ \<Rightarrow> w) = w" for h k w
    using Suc.prems(1) by (cases rep) auto
  show ?case
  proof (cases v)
    case (Arr xs)
    have "str (\<lambda>_. None) rep ind n g v (NumI (int i)) x \<noteq> None" if "(i, x) \<in> set (enumerate 0 xs)" for i x g
    proof (rule Suc.IH [OF Suc.prems(1)])
      from that have "x \<in> set xs" by (auto simp: in_set_enumerate_eq)
      then show "size x < n" using Suc.prems Arr size_list_member [of x xs size] by simp
    qed
    then have "\<exists>ys. those (map (\<lambda>(i, x). map_option item_text
        (str (\<lambda>_. None) rep ind n (gap @ ind) v (NumI (int i)) x)) (enumerate 0 xs)) = Some ys"
      by (intro those_map_total) auto
    then show ?thesis using Arr by (auto simp: Let_def)
  next
    case (Obj kvs)
    let ?ks = "case rep of RepArr rs \<Rightarrow> map (\<lambda>k. (k, obj_get kvs k)) (rep_keys rs) | _ \<Rightarrow> kvs"
    have "size x < n" if "(k, x) \<in> set ?ks" for k x
    proof -
      have "size x \<le> size_list (size_prod (\<lambda>_. 0) size) kvs"
        using that by (cases rep) (auto simp: obj_get_size dest: size_pair_list)
      then show ?thesis using Suc.prems Obj by simp
    qed
    then have "str (\<lambda>_. None) rep ind n g v (Str k) x \<noteq> None" if "(k, x) \<in> set ?ks" for k x g
      using that Suc.IH [OF Suc.prems(1)] by blast
    then have "\<exists>ys. those (map (\<lambda>(k, x). map_option (member_text (gap @ ind) k)
        (str (\<lambda>_. None) rep ind n (gap @ ind) v (Str k) x)) ?ks) = Some ys"
      by (intro those_map_total) auto
    then show ?thesis using Obj by (auto simp: Let_def)
  qed (simp_all add: Let_def)
qed simp

text \<open>
  The fuel is enough: for a value of the model (a finite tree, so no cyclic object) without \<open>toJSON\<close> methods,
  with or without a list of member names and with any indentation, as many nested calls of \<open>str\<close> as
  the value has parts suffice. The result is a text or \<open>undefined\<close>, or the error for a replacer that is
  neither function nor array.
\<close>

theorem stringify_returns:
  assumes "keeps_values rep"
  shows "stringify (\<lambda>_. None) (Suc (size v)) v rep sp \<noteq> Inr None"
  using str_returns [OF assms, of v "Suc (size v)"]
  by (cases rep) (simp_all add: stringify_def Let_def del: str.simps not_None_eq)

theorem stringify_returns_witness:
  "stringify (\<lambda>_. None) (Suc (size (Arr [Undefined, Obj [(js ''a'', Null)]])))
     (Arr [Undefined, Obj [(js ''a'', Null)]]) (RepArr [Str (js ''b'')]) (SpaceNum 2) \<noteq> Inr None"
  by (rule stringify_returns) simp

end
