(* ===== verification/Xrk_State.thy ===== *)
theory Xrk_State
  imports Json2
begin

text \<open>
  The state of the reporting script \<open>src/language/javascript/dmt_xrkmonitor.js\<close>: the object
  \<open>xrk\<close> that \<open>Xrkmonitor_obj\<close> builds, the plugin objects hanging off it, and the part of
  the browser it acts on (clock, timers, requests, scripts).

  A name that begins with an underscore in the source begins with \<open>u_\<close> here. The fields of
  \<open>xrk\<close> that the script never assigns (\<open>try_timer_ms\<close>, \<open>max_attrs_per_req\<close> and the
  other limits) are constants. Console output (\<open>local_msg\<close>) is not modelled.
\<close>

section \<open>What the script collects\<close>

record attr_item =
  attr_id :: jsval
  attr_number :: jnum

record str_item =
  str_string :: jstr
  str_number :: jnum

record strattr_item =
  strattr_id :: jsval
  strattr_strings :: "str_item list"

record log_item =
  log_type :: jstr
  log_msg :: jstr
  log_time :: int

section \<open>Plugins\<close>

text \<open>
  A plugin and its configuration are scripts of their own, not part of this repository.
  The reporter reads the members below of the configuration object and of the monitor
  objects the plugin creates, one for each window.
\<close>

record plugin_config =
  plugin_name :: jstr
  logconfig_id :: int
  conf_report_url :: jsval
  cloud_master_user :: jsval
  cloud_access_key :: jsval

record monitor =
  mon_plugin_name :: jstr
  xrk_window_id :: int
  b_exception :: bool

record plugin =
  p_config :: plugin_config
  monitor_win_list :: "monitor list"
  p_logs :: "log_item list"
  p_cur_logs_strlen :: int

section \<open>Reports and requests\<close>

text \<open>The object \<open>reports\<close> of \<open>_report_to_server\<close>; a member that is not set is \<open>None\<close>.\<close>

record report =
  rep_log_config_id :: "int option"
  rep_logs :: "log_item list option"
  rep_attrs :: "attr_item list option"
  rep_strattrs :: "strattr_item list option"
  rep_master_user_id :: "jnum option"
  rep_access_key :: "jstr option"

text \<open>A request handed to \<open>XMLHttpRequest\<close>: when, with which sequence number, to which address, the
  body, the report it was made from, and whether \<open>open\<close> and \<open>send\<close> succeeded. When one of them
  throws (\<open>rq_ok\<close> is false) nothing leaves the browser, but \<open>_to_server\<close> returns true all the same and the
  caller drops the data, so the attempt is recorded too.\<close>

record request =
  rq_seq :: int
  rq_time :: int
  rq_url :: jstr
  rq_body :: jstr
  rq_report :: report
  rq_ok :: bool

text \<open>The three functions the script passes to \<open>setTimeout\<close>: the delayed report, the retry
  after the frequency limit, and the periodic attempt.\<close>

datatype timer_cb = DelayCb | FreqCb | TryCb

record timer =
  tm_id :: int
  tm_cb :: timer_cb
  tm_due :: int

text \<open>The functions it passes to \<open>load_script\<close>, with the plugin's name.\<close>

datatype script_cb = Json2Cb | ConfigCb jstr | PluginCb jstr plugin_config

section \<open>The object \<open>xrk\<close> and its browser\<close>

record xrk =
  report_url :: jstr
  json2_js_name :: jstr
  js_self_name :: jstr
  log_config_id :: int
  master_user_id :: jnum
  access_key :: jstr
  on_xrk_response :: bool
  debug :: bool
  last_show_try_info_time :: int
  last_delay_timer_id :: int
  last_req_seq :: int
  req_seq :: int
  cur_strattrs_strlen :: int
  cur_logs_strlen :: int
  request_start_time :: int
  max_api_delay :: int
  last_api_delay :: int
  max_api_run :: int
  local_out_ip :: jstr
  freq_send_start_time :: int
  freq_request_times :: int
  api_js_url :: jstr
  load_more :: int
  init_win_domain :: jstr
  set_report_url :: int
  plugins_ary :: "jstr list"
  plugins :: "plugin list"
  logs :: "log_item list"
  attrs :: "attr_item list"
  strattrs :: "strattr_item list"

text \<open>
  The browser: its clock (milliseconds), the identifier the next \<open>setTimeout\<close> returns, the
  pending timers, the requests made so far, the sequence numbers a response may still come
  for, how often the registered response function ran, whether a JSON object, an
  \<open>XMLHttpRequest\<close> (or an ActiveX substitute) and a working \<open>send\<close> exist, the
  domain of the document, the address of \<open>document.currentScript\<close> if there is one, the
  stack text of the exception thrown when there is none, the scripts of the document and
  those being loaded.
\<close>

record sys = xrk +
  now :: int
  next_timer :: int
  timers :: "timer list"
  requests :: "request list"
  inflight :: "int list"
  response_calls :: nat
  has_json :: bool
  has_xhr :: bool
  send_works :: bool
  domain :: jstr
  current_script :: "jstr option"
  error_stack :: jstr
  doc_scripts :: "jstr list"
  loading :: "(jstr \<times> script_cb) list"

section \<open>Constants\<close>

definition try_timer_ms :: int where "try_timer_ms = 1200"
definition max_attrs_per_req :: nat where "max_attrs_per_req = 120"
definition max_strattrs_strlen :: int where "max_strattrs_strlen = 1000"
definition max_logs_strlen :: int where "max_logs_strlen = 900"
definition freq_check_time :: int where "freq_check_time = 1500"
definition freq_check_limit_times :: int where "freq_check_limit_times = 3"
definition request_timeout_ms :: int where "request_timeout_ms = 8000"

lemmas xrk_constants =
  try_timer_ms_def max_attrs_per_req_def max_strattrs_strlen_def max_logs_strlen_def
  freq_check_time_def freq_check_limit_times_def request_timeout_ms_def

section \<open>Configuration and construction\<close>

record x_config =
  xc_report_url :: jstr
  xc_plugins_ary :: "jstr list"
  xc_js_self_name :: jstr
  xc_json2_js_name :: jstr
  xc_log_config_id :: int
  xc_master_user_id :: jnum
  xc_access_key :: jstr

definition Xrkmonitor_config :: x_config where
  "Xrkmonitor_config =
     \<lparr>xc_report_url = js ''http://xrkmonitor.com/cgi-bin/mt_slog_reportinfo'',
      xc_plugins_ary = [js ''monitor_website'', []],
      xc_js_self_name = js ''dmt_xrkmonitor.js'',
      xc_json2_js_name = js ''dmt_json2_min.js'',
      xc_log_config_id = 0,
      xc_master_user_id = Fin 0,
      xc_access_key = []\<rparr>"

definition Xrkmonitor_obj :: xrk where
  "Xrkmonitor_obj =
     \<lparr>report_url = [], json2_js_name = [], js_self_name = [], log_config_id = 0,
      master_user_id = Fin 0, access_key = [], on_xrk_response = False, debug = False,
      last_show_try_info_time = 0, last_delay_timer_id = 0, last_req_seq = 0, req_seq = 0,
      cur_strattrs_strlen = 0, cur_logs_strlen = 0, request_start_time = 0,
      max_api_delay = 0, last_api_delay = 0, max_api_run = 0, local_out_ip = [],
      freq_send_start_time = 0, freq_request_times = 0, api_js_url = [], load_more = 0,
      init_win_domain = [], set_report_url = 0, plugins_ary = [], plugins = [],
      logs = [], attrs = [], strattrs = []\<rparr>"

text \<open>The assignments at the start of \<open>Xrkmonitor\<close>.\<close>

definition configured :: "x_config \<Rightarrow> xrk \<Rightarrow> xrk" where
  "configured c x =
     x\<lparr>report_url := xc_report_url c, json2_js_name := xc_json2_js_name c,
       js_self_name := xc_js_self_name c, log_config_id := xc_log_config_id c,
       master_user_id := xc_master_user_id c, access_key := xc_access_key c,
       plugins_ary := xc_plugins_ary c\<rparr>"

section \<open>Timers\<close>

definition setTimeout :: "timer_cb \<Rightarrow> int \<Rightarrow> sys \<Rightarrow> sys \<times> int" where
  "setTimeout cb delay s =
     (s\<lparr>next_timer := next_timer s + 1,
        timers := timers s @ [\<lparr>tm_id = next_timer s, tm_cb = cb, tm_due = now s + delay\<rparr>]\<rparr>,
      next_timer s)"

definition clearTimeout :: "int \<Rightarrow> sys \<Rightarrow> sys" where
  "clearTimeout i s = s\<lparr>timers := filter (\<lambda>t. tm_id t \<noteq> i) (timers s)\<rparr>"

end
