(* ===== verification/Xrk_Report.thy ===== *)
theory Xrk_Report
  imports Xrk_State
begin

text \<open>
  The operations of the reporter: collecting values and logs, building a report, sending it
  under the in-flight and frequency limits, and handling responses and timers.
  Every definition is one function of \<open>dmt_xrkmonitor.js\<close>, or the body of a callback.
\<close>

section \<open>The report and its text\<close>

definition log_json :: "log_item \<Rightarrow> jsval" where
  "log_json l = Obj [(js ''type'', Str (log_type l)), (js ''msg'', Str (log_msg l)),
     (js ''time'', NumI (log_time l))]"

definition attr_json :: "attr_item \<Rightarrow> jsval" where
  "attr_json a = Obj [(js ''id'', attr_id a), (js ''number'', Num (attr_number a))]"

definition str_json :: "str_item \<Rightarrow> jsval" where
  "str_json x = Obj [(js ''string'', Str (str_string x)), (js ''number'', Num (str_number x))]"

definition strattr_json :: "strattr_item \<Rightarrow> jsval" where
  "strattr_json x = Obj [(js ''id'', strattr_id x),
     (js ''strings'', Arr (map str_json (strattr_strings x)))]"

definition opt_member :: "string \<Rightarrow> ('a \<Rightarrow> jsval) \<Rightarrow> 'a option \<Rightarrow> (jstr \<times> jsval) list" where
  "opt_member k f v = (case v of None \<Rightarrow> [] | Some x \<Rightarrow> [(js k, f x)])"

definition report_json :: "report \<Rightarrow> jsval" where
  "report_json r = Obj
     (opt_member ''log_config_id'' NumI (rep_log_config_id r)
      @ opt_member ''logs'' (\<lambda>ls. Arr (map log_json ls)) (rep_logs r)
      @ opt_member ''attrs'' (\<lambda>xs. Arr (map attr_json xs)) (rep_attrs r)
      @ opt_member ''strattrs'' (\<lambda>xs. Arr (map strattr_json xs)) (rep_strattrs r)
      @ opt_member ''master_user_id'' Num (rep_master_user_id r)
      @ opt_member ''access_key'' Str (rep_access_key r))"

definition request_body :: "int \<Rightarrow> jstr \<Rightarrow> jstr" where
  "request_body seq data =
     js ''action=http_report_data&'' @ js ''req_seq='' @ int_str seq @ js ''&data='' @ data"

section \<open>Sending\<close>

text \<open>
  The part of \<open>_to_server\<close> after the frequency check. A request whose \<open>open\<close> or \<open>send\<close> throws is
  recorded with \<open>rq_ok\<close> false and no response can come for it.
\<close>

definition send_request :: "report \<Rightarrow> sys \<Rightarrow> sys" where
  "send_request rep s =
     (let seq = req_seq s;
          rq = \<lparr>rq_seq = seq, rq_time = now s, rq_url = report_url s,
                rq_body = request_body seq (json_text (report_json rep)),
                rq_report = rep, rq_ok = send_works s\<rparr>
      in s\<lparr>last_req_seq := seq, req_seq := req_seq s + 1, requests := requests s @ [rq],
           inflight := (if send_works s then inflight s @ [seq] else inflight s)\<rparr>)"

definition u_to_server :: "report \<Rightarrow> sys \<Rightarrow> sys \<times> bool" where
  "u_to_server rep s =
     (if \<not> has_xhr s then (s, False)
      else
        let s = s\<lparr>request_start_time := now s\<rparr> in
        if freq_send_start_time s = 0
           \<or> request_start_time s > freq_send_start_time s + freq_check_time
        then (send_request rep (s\<lparr>freq_send_start_time := request_start_time s,
                freq_request_times := 1\<rparr>), True)
        else if request_start_time s < freq_send_start_time s + freq_check_time
                \<and> freq_request_times s \<ge> freq_check_limit_times
        then (let (s, i) = setTimeout FreqCb 500 s in (s\<lparr>last_delay_timer_id := i\<rparr>, False))
        else (send_request rep (s\<lparr>freq_request_times := freq_request_times s + 1\<rparr>), True))"

text \<open>The loop that looks for a plugin with logs: the index of the first one.\<close>

fun first_log_plugin :: "plugin list \<Rightarrow> nat option" where
  "first_log_plugin [] = None"
| "first_log_plugin (p # ps) =
     (if p_logs p \<noteq> [] then Some 0 else map_option Suc (first_log_plugin ps))"

text \<open>The object \<open>reports\<close>, \<open>need_report\<close> and \<open>log_plugin_obj\<close>.\<close>

definition build_report :: "sys \<Rightarrow> report \<times> bool \<times> nat option" where
  "build_report s =
     (let own = (logs s \<noteq> []);
          who = (if own then None else first_log_plugin (plugins s));
          (cid, ls) =
            (if own then (Some (log_config_id s), Some (logs s))
             else case who of
                    None \<Rightarrow> (None, None)
                  | Some i \<Rightarrow> (Some (logconfig_id (p_config (plugins s ! i))),
                              Some (p_logs (plugins s ! i))));
          as = (if attrs s \<noteq> [] then Some (attrs s) else None);
          ss = (if strattrs s \<noteq> [] then Some (strattrs s) else None)
      in (\<lparr>rep_log_config_id = cid, rep_logs = ls, rep_attrs = as, rep_strattrs = ss,
           rep_master_user_id = (if master_user_id s \<noteq> Fin 0 then Some (master_user_id s) else None),
           rep_access_key = (if access_key s \<noteq> [] then Some (access_key s) else None)\<rparr>,
          ls \<noteq> None \<or> as \<noteq> None \<or> ss \<noteq> None,
          who))"

text \<open>The queues are emptied once \<open>_to_server\<close> has accepted the report.\<close>

definition clear_queues :: "nat option \<Rightarrow> sys \<Rightarrow> sys" where
  "clear_queues who s =
     (let s = s\<lparr>logs := [], attrs := [], strattrs := []\<rparr>
      in case who of
           None \<Rightarrow> s
         | Some i \<Rightarrow>
             s\<lparr>plugins := (plugins s)[i := (plugins s ! i)\<lparr>p_logs := [], p_cur_logs_strlen := 0\<rparr>]\<rparr>)"

definition u_report_to_server :: "int option \<Rightarrow> sys \<Rightarrow> sys" where
  "u_report_to_server delay s =
     (if delay \<noteq> None \<or> last_req_seq s \<noteq> 0 then
        (if last_delay_timer_id s = 0 then
           (let (s, i) = setTimeout DelayCb (case delay of None \<Rightarrow> 100 | Some d \<Rightarrow> d) s
            in s\<lparr>last_delay_timer_id := i\<rparr>)
         else s)
      else
        let s = (if last_delay_timer_id s \<noteq> 0
                 then (clearTimeout (last_delay_timer_id s) s)\<lparr>last_delay_timer_id := 0\<rparr> else s);
            (rep, need_report, who) = build_report s;
            s = s\<lparr>cur_strattrs_strlen := 0, cur_logs_strlen := 0\<rparr>
        in if \<not> need_report then s
           else if has_json s then
             (let (s, ok) = u_to_server rep s in if ok then clear_queues who s else s)
           else s)"

definition report_to_server :: "int option \<Rightarrow> sys \<Rightarrow> sys" where
  "report_to_server delay s =
     (let later = (\<lambda>d. if last_delay_timer_id s \<noteq> 0 then s
                       else u_report_to_server
                              (Some (if d < 10 then 10 else if d \<ge> try_timer_ms then try_timer_ms else d)) s)
      in if report_url s = [] then s
         else if (case delay of None \<Rightarrow> True | Some d \<Rightarrow> d \<le> 0) then
           (if last_req_seq s = 0 then
              u_report_to_server None
                (if last_delay_timer_id s \<noteq> 0
                 then (clearTimeout (last_delay_timer_id s) s)\<lparr>last_delay_timer_id := 0\<rparr> else s)
            else later 50)
         else later (the delay))"

section \<open>Collecting\<close>

datatype opr = Add | Set

fun bump_attr :: "opr \<Rightarrow> jsval \<Rightarrow> jnum \<Rightarrow> attr_item list \<Rightarrow> attr_item list option" where
  "bump_attr op i n [] = None"
| "bump_attr op i n (a # xs) =
     (if js_eq (attr_id a) i then
        Some (a\<lparr>attr_number := (if op = Set then n else js_add (attr_number a) n)\<rparr> # xs)
      else map_option ((#) a) (bump_attr op i n xs))"

text \<open>Here the pending timer is cleared but \<open>last_delay_timer_id\<close> keeps its number.\<close>

definition flush_full :: "sys \<Rightarrow> sys" where
  "flush_full s =
     u_report_to_server None
       (if last_delay_timer_id s \<noteq> 0 then clearTimeout (last_delay_timer_id s) s else s)"

definition u_inner_xrk_report_attr :: "opr \<Rightarrow> jsval \<Rightarrow> jsval \<Rightarrow> sys \<Rightarrow> sys" where
  "u_inner_xrk_report_attr op i number s =
     (case number of
        Num n \<Rightarrow>
          if i = Undefined \<or> js_le_zero n then s
          else (case bump_attr op i n (attrs s) of
                  Some xs \<Rightarrow> s\<lparr>attrs := xs\<rparr>
                | None \<Rightarrow>
                    let s = s\<lparr>attrs := attrs s @ [\<lparr>attr_id = i, attr_number = n\<rparr>]\<rparr>
                    in if length (attrs s) \<ge> max_attrs_per_req then flush_full s else s)
      | _ \<Rightarrow> s)"

fun bump_str :: "opr \<Rightarrow> jstr \<Rightarrow> jnum \<Rightarrow> str_item list \<Rightarrow> str_item list option" where
  "bump_str op t n [] = None"
| "bump_str op t n (x # xs) =
     (if str_string x = t then
        Some (x\<lparr>str_number := (if op = Set then n else js_add (str_number x) n)\<rparr> # xs)
      else map_option ((#) x) (bump_str op t n xs))"

definition new_str :: "jstr \<Rightarrow> jnum \<Rightarrow> str_item" where
  "new_str t n = \<lparr>str_string = (if length t > 50 then take 50 t else t), str_number = n\<rparr>"

text \<open>The outer loop: the new list and, when a string was pushed, the length of that string.\<close>

fun add_strattr :: "opr \<Rightarrow> jsval \<Rightarrow> jstr \<Rightarrow> jnum \<Rightarrow> strattr_item list
    \<Rightarrow> strattr_item list \<times> int option" where
  "add_strattr op i t n [] =
     ([\<lparr>strattr_id = i, strattr_strings = [new_str t n]\<rparr>],
      Some (int (length (str_string (new_str t n)))))"
| "add_strattr op i t n (x # xs) =
     (if js_eq (strattr_id x) i then
        (case bump_str op t n (strattr_strings x) of
           Some ys \<Rightarrow> (x\<lparr>strattr_strings := ys\<rparr> # xs, None)
         | None \<Rightarrow> (x\<lparr>strattr_strings := strattr_strings x @ [new_str t n]\<rparr> # xs,
                   Some (int (length (str_string (new_str t n))))))
      else (let (ys, l) = add_strattr op i t n xs in (x # ys, l)))"

definition u_inner_xrk_report_strattr :: "opr \<Rightarrow> jsval \<Rightarrow> jsval \<Rightarrow> jsval \<Rightarrow> sys \<Rightarrow> sys" where
  "u_inner_xrk_report_strattr op i string number s =
     (case (string, number) of
        (Str t, Num n) \<Rightarrow>
          if i = Undefined \<or> js_le_zero n then s
          else (case add_strattr op i t n (strattrs s) of
                  (xs, None) \<Rightarrow> s\<lparr>strattrs := xs\<rparr>
                | (xs, Some l) \<Rightarrow>
                    let s = s\<lparr>strattrs := xs, cur_strattrs_strlen := cur_strattrs_strlen s + l\<rparr>
                    in if cur_strattrs_strlen s \<ge> max_strattrs_strlen then flush_full s else s)
      | _ \<Rightarrow> s)"

definition report_attr_add :: "jsval \<Rightarrow> jsval \<Rightarrow> sys \<Rightarrow> sys" where
  "report_attr_add = u_inner_xrk_report_attr Add"

definition report_attr_set :: "jsval \<Rightarrow> jsval \<Rightarrow> sys \<Rightarrow> sys" where
  "report_attr_set = u_inner_xrk_report_attr Set"

definition report_strattr_add :: "jsval \<Rightarrow> jsval \<Rightarrow> jsval \<Rightarrow> sys \<Rightarrow> sys" where
  "report_strattr_add = u_inner_xrk_report_strattr Add"

definition report_strattr_set :: "jsval \<Rightarrow> jsval \<Rightarrow> jsval \<Rightarrow> sys \<Rightarrow> sys" where
  "report_strattr_set = u_inner_xrk_report_strattr Set"

section \<open>Logs\<close>

definition log_types :: "jstr list" where
  "log_types = map js [''error'', ''warn'', ''reqerr'', ''info'', ''debug'']"

text \<open>\<open>Date.parse(new Date())\<close> goes through the date's text and loses the milliseconds.\<close>

definition u_report_log :: "jstr \<Rightarrow> jstr \<Rightarrow> sys \<Rightarrow> sys" where
  "u_report_log ty msg s =
     (if log_config_id s = 0 then s
      else if ty \<notin> set log_types then s
      else
        let s = s\<lparr>logs := logs s @ [\<lparr>log_type = ty, log_msg = msg, log_time = now s - now s mod 1000\<rparr>],
                  cur_logs_strlen := cur_logs_strlen s + int (length msg)\<rparr>
        in if cur_logs_strlen s \<ge> max_logs_strlen then
             u_report_to_server None
               (if last_delay_timer_id s \<noteq> 0
                then (clearTimeout (last_delay_timer_id s) s)\<lparr>last_delay_timer_id := 0\<rparr> else s)
           else s)"

definition report_error_log :: "jstr \<Rightarrow> jstr option \<Rightarrow> sys \<Rightarrow> sys" where
  "report_error_log msg pos =
     (case pos of Some p \<Rightarrow> u_report_log (js ''error'') (p @ msg)
      | None \<Rightarrow> u_report_log (js ''error'') (js ''[js:log:35]'' @ msg))"

definition report_warn_log :: "jstr \<Rightarrow> jstr option \<Rightarrow> sys \<Rightarrow> sys" where
  "report_warn_log msg pos =
     (case pos of Some p \<Rightarrow> u_report_log (js ''warn'') msg
      | None \<Rightarrow> u_report_log (js ''warn'') (js ''[js:log:41]'' @ msg))"

definition report_reqerr_log :: "jstr \<Rightarrow> jstr option \<Rightarrow> sys \<Rightarrow> sys" where
  "report_reqerr_log msg pos =
     (case pos of Some p \<Rightarrow> u_report_log (js ''reqerr'') msg
      | None \<Rightarrow> u_report_log (js ''reqerr'') (js ''[js:log:47]'' @ msg))"

definition report_info_log :: "jstr \<Rightarrow> jstr option \<Rightarrow> sys \<Rightarrow> sys" where
  "report_info_log msg pos =
     (case pos of Some p \<Rightarrow> u_report_log (js ''info'') msg
      | None \<Rightarrow> u_report_log (js ''info'') (js ''[js:log:53]'' @ msg))"

definition report_debug_log :: "jstr \<Rightarrow> jstr option \<Rightarrow> sys \<Rightarrow> sys" where
  "report_debug_log msg pos =
     (case pos of Some p \<Rightarrow> u_report_log (js ''debug'') msg
      | None \<Rightarrow> u_report_log (js ''debug'') (js ''[js:log:59]'' @ msg))"

section \<open>Settings\<close>

definition init_log :: "int option \<Rightarrow> sys \<Rightarrow> sys" where
  "init_log cid s = (case cid of None \<Rightarrow> s | Some c \<Rightarrow> if c = 0 then s else s\<lparr>log_config_id := c\<rparr>)"

definition set_debug :: "bool option \<Rightarrow> sys \<Rightarrow> sys" where
  "set_debug b s = s\<lparr>debug := (case b of Some d \<Rightarrow> d | None \<Rightarrow> True)\<rparr>"

definition open_init_report :: "int option \<Rightarrow> jstr option \<Rightarrow> sys \<Rightarrow> sys" where
  "open_init_report log_id rurl s =
     (let s = (case rurl of Some u \<Rightarrow> if set_report_url s = 0 then s\<lparr>report_url := u\<rparr> else s | None \<Rightarrow> s)
      in case log_id of Some l \<Rightarrow> s\<lparr>log_config_id := l\<rparr> | None \<Rightarrow> s)"

definition cloud_init_report :: "int option \<Rightarrow> jnum option \<Rightarrow> jstr option \<Rightarrow> sys \<Rightarrow> sys" where
  "cloud_init_report log_id uid ackey s =
     (let s = (case uid of Some u \<Rightarrow> s\<lparr>master_user_id := u\<rparr> | None \<Rightarrow> s);
          s = (case ackey of Some k \<Rightarrow> s\<lparr>access_key := k\<rparr> | None \<Rightarrow> s)
      in case log_id of Some l \<Rightarrow> s\<lparr>log_config_id := l\<rparr> | None \<Rightarrow> s)"

definition reg_on_response :: "bool \<Rightarrow> sys \<Rightarrow> sys" where
  "reg_on_response f s = s\<lparr>on_xrk_response := f\<rparr>"

section \<open>Responses and timers\<close>

text \<open>
  What \<open>JSON.parse\<close> makes of the response text: an object with \<open>client_ip\<close> and
  \<open>cgi_run_time\<close>, or an exception, which leaves \<open>_on_response\<close> at once.
\<close>

datatype response = RespOk jstr int | RespBad

definition u_on_response :: "response \<Rightarrow> sys \<Rightarrow> sys" where
  "u_on_response r s =
     (let s = s\<lparr>last_api_delay := now s - request_start_time s\<rparr>;
          s = (if last_api_delay s > max_api_delay s then s\<lparr>max_api_delay := last_api_delay s\<rparr> else s);
          finish = (\<lambda>s. let s = s\<lparr>last_req_seq := 0\<rparr>
                        in if on_xrk_response s then s\<lparr>response_calls := response_calls s + 1\<rparr> else s)
      in if has_json s then
           (case r of
              RespOk ip t \<Rightarrow>
                (let s = s\<lparr>local_out_ip := ip\<rparr>;
                     s = (if t > max_api_run s then s\<lparr>max_api_run := t\<rparr> else s)
                 in finish s)
            | RespBad \<Rightarrow> s)
         else finish s)"

text \<open>The loop over the plugins' windows: the first one that failed is removed.\<close>

fun drop_exception :: "monitor list \<Rightarrow> monitor list" where
  "drop_exception [] = []"
| "drop_exception (m # ms) = (if b_exception m then ms else m # drop_exception ms)"

definition u_try_report_to_server :: "sys \<Rightarrow> sys" where
  "u_try_report_to_server s =
     (let s = (if debug s \<and> now s \<ge> last_show_try_info_time s + 30000
               then s\<lparr>last_show_try_info_time := now s\<rparr> else s);
          s = s\<lparr>plugins := map (\<lambda>p. p\<lparr>monitor_win_list := drop_exception (monitor_win_list p)\<rparr>)
                  (plugins s)\<rparr>;
          s = report_to_server None s
      in fst (setTimeout TryCb try_timer_ms s))"

text \<open>The function passed to \<open>setTimeout\<close> in \<open>_report_to_server\<close>.\<close>

definition delay_timer :: "sys \<Rightarrow> sys" where
  "delay_timer s =
     (let s = s\<lparr>last_delay_timer_id := 0\<rparr>;
          s = (if request_start_time s > 0 \<and> request_start_time s + request_timeout_ms \<le> now s
               then s\<lparr>last_req_seq := 0\<rparr> else s)
      in u_report_to_server None s)"

text \<open>The function passed to \<open>setTimeout\<close> in \<open>_to_server\<close> reads \<open>p_self.self_xrk\<close>. The
  object has no such member, so the first assignment throws and nothing changes.\<close>

definition freq_timer :: "sys \<Rightarrow> sys" where
  "freq_timer s = s"

definition run_timer :: "timer_cb \<Rightarrow> sys \<Rightarrow> sys" where
  "run_timer cb s =
     (case cb of DelayCb \<Rightarrow> delay_timer s | FreqCb \<Rightarrow> freq_timer s | TryCb \<Rightarrow> u_try_report_to_server s)"

end
