(* ===== verification/Xrk_Init.thy ===== *)
theory Xrk_Init
  imports Xrk_Report
begin

text \<open>
  Start-up of the reporting script: finding its own address, loading JSON support and the
  plugins, sharing one \<open>xrk\<close> object between the windows of one origin.

  A plugin is a pair of scripts outside this repository. The parameter \<open>penv\<close> says, for a
  plugin name, which configuration object its first script defines and which monitor object
  a call of its constructor returns; \<open>None\<close> is an \<open>eval\<close> that throws or a value that is
  no object. What \<open>monitor_window\<close> does inside the plugin is not modelled.
\<close>

record plugin_source =
  src_config :: "plugin_config option"
  src_create :: "monitor option"

type_synonym plugin_env = "jstr \<Rightarrow> plugin_source"

section \<open>The script's own address\<close>

text \<open>
  The regular expression \<open>rExtractUri\<close>: a scheme, the shortest text up to a slash, one or
  more characters other than a colon, then a colon and a digit. \<open>uri_tail acc s\<close> is the part
  after the scheme: the captured text, given what was passed over so far.
\<close>

definition uri_end :: "jstr \<Rightarrow> bool" where
  "uri_end r = (\<exists>d t. r = 58 # d # t \<and> is_digit d)"

lemma uri_end_code [code]:
  "uri_end r = (case r of c # d # t \<Rightarrow> c = 58 \<and> is_digit d | _ \<Rightarrow> False)"
  by (auto simp: uri_end_def split: list.splits)

fun uri_tail :: "jstr \<Rightarrow> jstr \<Rightarrow> jstr option" where
  "uri_tail acc [] = None"
| "uri_tail acc (c # s) =
     (if c = 47 \<and> takeWhile (\<lambda>d. d \<noteq> 58) s \<noteq> [] \<and> uri_end (dropWhile (\<lambda>d. d \<noteq> 58) s)
      then Some (acc @ 47 # takeWhile (\<lambda>d. d \<noteq> 58) s)
      else if c \<in> {10, 13, 0x2028, 0x2029} then None
      else uri_tail (acc @ [c]) s)"

definition uri_at :: "jstr \<Rightarrow> jstr option" where
  "uri_at s =
     (let try = (\<lambda>scheme. if starts_with (js scheme) s
                  then uri_tail (js scheme) (drop (length scheme) s) else None)
      in case try ''http://'' of
           Some u \<Rightarrow> Some u
         | None \<Rightarrow> (case try ''https://'' of Some u \<Rightarrow> Some u | None \<Rightarrow> try ''file://''))"

fun extract_uri :: "jstr \<Rightarrow> jstr option" where
  "extract_uri [] = None"
| "extract_uri (c # s) = (case uri_at (c # s) of Some u \<Rightarrow> Some u | None \<Rightarrow> extract_uri s)"

definition find_script :: "jstr \<Rightarrow> jstr list \<Rightarrow> jstr" where
  "find_script name scripts =
     (case find (js_contains name) (rev scripts) of Some u \<Rightarrow> u | None \<Rightarrow> [])"

definition get_cur_js_url :: "jstr option \<Rightarrow> sys \<Rightarrow> jstr" where
  "get_cur_js_url curJsName s =
     (let name = (case curJsName of Some n \<Rightarrow> n | None \<Rightarrow> js_self_name s);
          check = (\<lambda>url. if url = [] \<or> \<not> js_contains name url
                         then find_script (js_self_name s) (doc_scripts s) else url)
      in case current_script s of
           Some src \<Rightarrow> check src
         | None \<Rightarrow>
             if error_stack s \<noteq> [] then
               (case extract_uri (error_stack s) of None \<Rightarrow> [] | Some u \<Rightarrow> check u)
             else check [])"

definition is_xrkmonitor_js :: "jstr \<Rightarrow> sys \<Rightarrow> bool" where
  "is_xrkmonitor_js js_file s =
     (js_contains (json2_js_name s) js_file \<or> js_contains (js_self_name s) js_file
      \<or> list_ex (\<lambda>p. js_contains (plugin_name (p_config p) @ js ''.js'') js_file
                     \<or> js_contains (plugin_name (p_config p) @ js ''_conf.js'') js_file) (plugins s))"

section \<open>Loading plugins\<close>

definition load_script :: "jstr \<Rightarrow> script_cb \<Rightarrow> sys \<Rightarrow> sys" where
  "load_script url cb s = s\<lparr>loading := loading s @ [(url, cb)]\<rparr>"

definition u_load_plugin :: "jstr \<Rightarrow> sys \<Rightarrow> sys" where
  "u_load_plugin name s =
     load_script (replace_first (js_self_name s) (name @ js ''_conf.js'') (api_js_url s))
       (ConfigCb name) s"

definition u_try_set_config :: "plugin_config \<Rightarrow> sys \<Rightarrow> sys" where
  "u_try_set_config c s =
     (let s = (case conf_report_url c of
                 Str u \<Rightarrow> if set_report_url s = 0 then s\<lparr>report_url := u, set_report_url := 1\<rparr> else s
               | _ \<Rightarrow> s)
      in case (cloud_master_user c, cloud_access_key c) of
           (Num u, Str k) \<Rightarrow>
             if master_user_id s = Fin 0 then s\<lparr>master_user_id := u, access_key := k\<rparr> else s
         | _ \<Rightarrow> s)"

text \<open>The function that runs once a plugin's configuration script is loaded.\<close>

definition on_config_loaded :: "plugin_env \<Rightarrow> jstr \<Rightarrow> sys \<Rightarrow> sys" where
  "on_config_loaded penv name s =
     (case src_config (penv name) of
        Some c \<Rightarrow>
          if plugin_name c = name
          then load_script (replace_first (js_self_name s) (name @ js ''.js'') (api_js_url s))
                 (PluginCb name c) s
          else s
      | None \<Rightarrow> s)"

text \<open>The function that runs once the plugin's own script is loaded.\<close>

definition on_plugin_loaded :: "plugin_env \<Rightarrow> jstr \<Rightarrow> plugin_config \<Rightarrow> sys \<Rightarrow> sys" where
  "on_plugin_loaded penv name c s =
     (case src_create (penv name) of
        Some m \<Rightarrow>
          if mon_plugin_name m = name then
            (let s = u_try_set_config c s;
                 o_plugin = \<lparr>p_config = c, monitor_win_list = [m], p_logs = [], p_cur_logs_strlen = 0\<rparr>
             in s\<lparr>plugins := plugins s @ [o_plugin]\<rparr>)
          else s
      | None \<Rightarrow> s)"

definition u_add_plugins :: "sys \<Rightarrow> sys" where
  "u_add_plugins s = fold (\<lambda>name s. if name \<noteq> [] then u_load_plugin name s else s) (plugins_ary s) s"

text \<open>The loop of \<open>plugins_add_monitor\<close>: the plugins and whether a constructor threw.\<close>

fun add_monitors :: "plugin_env \<Rightarrow> plugin list \<Rightarrow> plugin list \<times> bool" where
  "add_monitors penv [] = ([], False)"
| "add_monitors penv (p # ps) =
     (case src_create (penv (plugin_name (p_config p))) of
        None \<Rightarrow> (p # ps, True)
      | Some m \<Rightarrow>
          (let (qs, threw) = add_monitors penv ps
           in (p\<lparr>monitor_win_list := monitor_win_list p @ [m]\<rparr> # qs, threw)))"

definition plugins_add_monitor :: "plugin_env \<Rightarrow> sys \<Rightarrow> sys \<times> bool" where
  "plugins_add_monitor penv s =
     (let (ps, threw) = add_monitors penv (plugins s) in (s\<lparr>plugins := ps\<rparr>, threw))"

section \<open>Start-up\<close>

definition start_timer :: "sys \<Rightarrow> sys" where
  "start_timer s = fst (setTimeout TryCb try_timer_ms s)"

definition u_init :: "sys \<Rightarrow> sys" where
  "u_init s =
     (let s = s\<lparr>init_win_domain := domain s\<rparr>;
          s = s\<lparr>api_js_url := get_cur_js_url None s\<rparr>
      in if api_js_url s = [] then s
         else
           let s = s\<lparr>req_seq := req_seq s + 1\<rparr> in
           if \<not> has_json s
           then load_script (replace_first (js_self_name s) (json2_js_name s) (api_js_url s)) Json2Cb s
           else start_timer (u_add_plugins s))"

definition u_init_start :: "bool \<Rightarrow> sys \<Rightarrow> sys" where
  "u_init_start b s = u_init (s\<lparr>debug := b\<rparr>)"

definition u_init_more :: "bool \<Rightarrow> sys \<Rightarrow> sys" where
  "u_init_more b s = u_init (s\<lparr>debug := b, load_more := load_more s + 1\<rparr>)"

text \<open>The functions given to \<open>load_script\<close>; loading the JSON script defines \<open>JSON\<close>.\<close>

definition run_script :: "plugin_env \<Rightarrow> script_cb \<Rightarrow> sys \<Rightarrow> sys" where
  "run_script penv cb s =
     (case cb of
        Json2Cb \<Rightarrow> start_timer (u_add_plugins (s\<lparr>has_json := True\<rparr>))
      | ConfigCb name \<Rightarrow> on_config_loaded penv name s
      | PluginCb name c \<Rightarrow> on_plugin_loaded penv name c s)"

text \<open>
  \<open>Xrkmonitor(b_debug)\<close> in a window whose top window has no \<open>self_xrk\<close>, has one, or may not
  be read because it is of another origin. \<open>b\<close> is the browser; the result is the object
  \<open>self_xrk\<close> of the window, whether it is the one of the top window, and what the top window
  holds afterwards.
\<close>

datatype top_window = TopEmpty | TopHas sys | TopDenied

definition new_xrk :: "sys \<Rightarrow> sys" where
  "new_xrk b = xrk.extend (configured Xrkmonitor_config Xrkmonitor_obj) (xrk.more b)"

definition Xrkmonitor :: "plugin_env \<Rightarrow> bool \<Rightarrow> top_window \<Rightarrow> sys \<Rightarrow> sys \<times> bool \<times> top_window" where
  "Xrkmonitor penv b_debug w b =
     (case w of
        TopEmpty \<Rightarrow> (let s = u_init_start b_debug (new_xrk b) in (s, True, TopHas s))
      | TopHas s \<Rightarrow>
          (let (s', threw) = plugins_add_monitor penv (s\<lparr>load_more := load_more s + 1\<rparr>)
           in if threw then (u_init_more b_debug (new_xrk b), False, TopHas s') else (s', True, TopHas s'))
      | TopDenied \<Rightarrow> (u_init_more b_debug (new_xrk b), False, TopDenied))"

text \<open>The new object has no data, and the browser is the one it was created in.\<close>

lemma new_xrk_browser [simp]:
  "now (new_xrk b) = now b" "next_timer (new_xrk b) = next_timer b" "timers (new_xrk b) = timers b"
  "requests (new_xrk b) = requests b" "inflight (new_xrk b) = inflight b"
  "has_json (new_xrk b) = has_json b" "has_xhr (new_xrk b) = has_xhr b"
  "send_works (new_xrk b) = send_works b" "loading (new_xrk b) = loading b"
  "domain (new_xrk b) = domain b" "current_script (new_xrk b) = current_script b"
  "error_stack (new_xrk b) = error_stack b" "doc_scripts (new_xrk b) = doc_scripts b"
  by (cases b, simp add: new_xrk_def xrk.defs configured_def Xrkmonitor_obj_def)+

lemma new_xrk_fields [simp]:
  "last_delay_timer_id (new_xrk b) = 0" "last_req_seq (new_xrk b) = 0" "req_seq (new_xrk b) = 0"
  "freq_send_start_time (new_xrk b) = 0" "freq_request_times (new_xrk b) = 0"
  "attrs (new_xrk b) = []" "strattrs (new_xrk b) = []" "logs (new_xrk b) = []"
  "plugins (new_xrk b) = []" "log_config_id (new_xrk b) = 0" "request_start_time (new_xrk b) = 0"
  by (simp_all add: new_xrk_def xrk.defs configured_def Xrkmonitor_obj_def Xrkmonitor_config_def)

end
