(* ===== verification/Xrk_Machine.thy ===== *)
theory Xrk_Machine
  imports Xrk_Init
begin

text \<open>
  The reporter as a state machine. JavaScript runs one function at a time, so a run is a
  sequence of events: calls of the script's interface by the page or a plugin, time passing,
  a due timer, the response to a request or its failure, a script that finished loading, another window of
  the same origin joining. \<open>step\<close> is the effect of one event, \<open>reachable\<close> the states of
  a page that loaded the script.
\<close>

section \<open>Events\<close>

datatype log_level = LevelError | LevelWarn | LevelReqerr | LevelInfo | LevelDebug

datatype event =
    ReportAttr opr jsval jsval
  | ReportStrattr opr jsval jsval jsval
  | ReportLog log_level jstr "jstr option"
  | ReportToServer "int option"
  | InitLog "int option"
  | OpenInit "int option" "jstr option"
  | CloudInit "int option" "jnum option" "jstr option"
  | SetDebug "bool option"
  | RegResponse bool
  | Elapse nat
  | Fire int
  | Respond int response
  | RequestFails int
  | ScriptLoaded nat
  | NewWindow
  | PluginLog nat log_item
  | WindowFails nat nat

definition report_log :: "log_level \<Rightarrow> jstr \<Rightarrow> jstr option \<Rightarrow> sys \<Rightarrow> sys" where
  "report_log l msg pos =
     (case l of
        LevelError \<Rightarrow> report_error_log msg pos
      | LevelWarn \<Rightarrow> report_warn_log msg pos
      | LevelReqerr \<Rightarrow> report_reqerr_log msg pos
      | LevelInfo \<Rightarrow> report_info_log msg pos
      | LevelDebug \<Rightarrow> report_debug_log msg pos)"

text \<open>A timer runs when it is pending and due; it is removed before its function runs.\<close>

definition fire :: "int \<Rightarrow> sys \<Rightarrow> sys" where
  "fire i s =
     (case find (\<lambda>t. tm_id t = i \<and> tm_due t \<le> now s) (timers s) of
        None \<Rightarrow> s
      | Some t \<Rightarrow> run_timer (tm_cb t) (clearTimeout i s))"

definition respond :: "int \<Rightarrow> response \<Rightarrow> sys \<Rightarrow> sys" where
  "respond q r s =
     (if q \<in> set (inflight s) then u_on_response r (s\<lparr>inflight := remove1 q (inflight s)\<rparr>) else s)"

text \<open>A request that ends with another status than 200: \<open>onreadystatechange\<close> does nothing.\<close>

definition request_fails :: "int \<Rightarrow> sys \<Rightarrow> sys" where
  "request_fails q s = s\<lparr>inflight := remove1 q (inflight s)\<rparr>"

definition script_loaded :: "plugin_env \<Rightarrow> nat \<Rightarrow> sys \<Rightarrow> sys" where
  "script_loaded penv k s =
     (if k < length (loading s)
      then run_script penv (snd (loading s ! k)) (s\<lparr>loading := take k (loading s) @ drop (Suc k) (loading s)\<rparr>)
      else s)"

definition join_window :: "plugin_env \<Rightarrow> sys \<Rightarrow> sys" where
  "join_window penv s = fst (plugins_add_monitor penv (s\<lparr>load_more := load_more s + 1\<rparr>))"

text \<open>A plugin pushes a log into its own queue; a monitored window raises an exception.\<close>

definition plugin_log :: "nat \<Rightarrow> log_item \<Rightarrow> sys \<Rightarrow> sys" where
  "plugin_log k l s =
     (if k < length (plugins s)
      then s\<lparr>plugins := (plugins s)[k := (plugins s ! k)\<lparr>p_logs := p_logs (plugins s ! k) @ [l]\<rparr>]\<rparr>
      else s)"

definition window_fails :: "nat \<Rightarrow> nat \<Rightarrow> sys \<Rightarrow> sys" where
  "window_fails k j s =
     (if k < length (plugins s)
      then s\<lparr>plugins := (plugins s)[k := (plugins s ! k)\<lparr>monitor_win_list :=
             (let ms = monitor_win_list (plugins s ! k)
              in if j < length ms then ms[j := (ms ! j)\<lparr>b_exception := True\<rparr>] else ms)\<rparr>]\<rparr>
      else s)"

fun step :: "plugin_env \<Rightarrow> event \<Rightarrow> sys \<Rightarrow> sys" where
  "step penv (ReportAttr op i n) s = u_inner_xrk_report_attr op i n s"
| "step penv (ReportStrattr op i t n) s = u_inner_xrk_report_strattr op i t n s"
| "step penv (ReportLog l msg pos) s = report_log l msg pos s"
| "step penv (ReportToServer d) s = report_to_server d s"
| "step penv (InitLog c) s = init_log c s"
| "step penv (OpenInit l u) s = open_init_report l u s"
| "step penv (CloudInit l u k) s = cloud_init_report l u k s"
| "step penv (SetDebug b) s = set_debug b s"
| "step penv (RegResponse f) s = reg_on_response f s"
| "step penv (Elapse d) s = s\<lparr>now := now s + int d\<rparr>"
| "step penv (Fire i) s = fire i s"
| "step penv (Respond q r) s = respond q r s"
| "step penv (RequestFails q) s = request_fails q s"
| "step penv (ScriptLoaded k) s = script_loaded penv k s"
| "step penv NewWindow s = join_window penv s"
| "step penv (PluginLog k l) s = plugin_log k l s"
| "step penv (WindowFails k j) s = window_fails k j s"

definition run :: "plugin_env \<Rightarrow> event list \<Rightarrow> sys \<Rightarrow> sys" where
  "run penv es s = fold (step penv) es s"

text \<open>A browser before the script is loaded: the clock runs, nothing is pending.\<close>

definition fresh_browser :: "sys \<Rightarrow> bool" where
  "fresh_browser b =
     (0 < now b \<and> next_timer b = 1 \<and> timers b = [] \<and> requests b = [] \<and> inflight b = []
      \<and> loading b = [])"

definition start :: "plugin_env \<Rightarrow> bool \<Rightarrow> sys \<Rightarrow> sys" where
  "start penv d b = fst (Xrkmonitor penv d TopEmpty b)"

inductive reachable :: "plugin_env \<Rightarrow> sys \<Rightarrow> bool" for penv where
  start: "fresh_browser b \<Longrightarrow> reachable penv (start penv d b)"
| step: "reachable penv s \<Longrightarrow> reachable penv (step penv e s)"

section \<open>What every invariant of the reporter has to survive\<close>

text \<open>
  The contract a state predicate has to meet to hold in every reachable state: it reads only
  the core of the state, and it survives the sender and the elementary updates the operations
  are made of. \<open>reporter_frame\<close> derives from these laws that every event keeps it except
  a reported attribute value; \<open>reporter_invariant\<close> adds the law for those.
\<close>

definition put_attr :: "opr \<Rightarrow> jsval \<Rightarrow> jnum \<Rightarrow> attr_item list \<Rightarrow> attr_item list" where
  "put_attr op i n xs =
     (case bump_attr op i n xs of Some ys \<Rightarrow> ys | None \<Rightarrow> xs @ [\<lparr>attr_id = i, attr_number = n\<rparr>])"

definition core :: "sys \<Rightarrow> (int \<times> int \<times> int \<times> int \<times> int) \<times> (int \<times> int \<times> timer list)
    \<times> request list \<times> attr_item list \<times> strattr_item list" where
  "core s =
     ((last_delay_timer_id s, last_req_seq s, req_seq s, freq_send_start_time s, freq_request_times s),
      (now s, next_timer s, timers s), requests s, attrs s, strattrs s)"

locale reporter_frame =
  fixes I :: "sys \<Rightarrow> bool"
  assumes frame: "I s \<Longrightarrow> core s' = core s \<Longrightarrow> I s'"
    and send: "I s \<Longrightarrow> I (u_report_to_server d s)"
    and cancel_reset: "I s \<Longrightarrow> I ((clearTimeout (last_delay_timer_id s) s)\<lparr>last_delay_timer_id := 0\<rparr>)"
    and queue_strattr: "I s \<Longrightarrow> \<not> js_le_zero n \<Longrightarrow>
        I (s\<lparr>strattrs := fst (add_strattr op i t n (strattrs s))\<rparr>)"
    and elapse: "I s \<Longrightarrow> I (s\<lparr>now := now s + int e\<rparr>)"
    and answered: "I s \<Longrightarrow> I (s\<lparr>last_req_seq := 0\<rparr>)"
    and periodic: "I s \<Longrightarrow> I (fst (setTimeout TryCb tmo s))"
    and expire: "I s \<Longrightarrow> I (clearTimeout tid s)"
    and expire_delay: "I s \<Longrightarrow> tm \<in> set (timers s) \<Longrightarrow> tm_cb tm = DelayCb \<Longrightarrow>
        I ((clearTimeout (tm_id tm) s)\<lparr>last_delay_timer_id := 0\<rparr>)"
begin

lemma flush: "I s \<Longrightarrow> I (flush_full s)"
  by (simp add: flush_full_def send expire)

lemma strattr_event: "I s \<Longrightarrow> I (u_inner_xrk_report_strattr op i string number s)"
proof -
  assume s: "I s"
  show ?thesis
  proof (cases "\<exists>t n. string = Str t \<and> number = Num n \<and> i \<noteq> Undefined \<and> \<not> js_le_zero n")
    case True
    then obtain t n where n: "string = Str t" "number = Num n" "i \<noteq> Undefined" "\<not> js_le_zero n"
      by blast
    then have q: "I (s\<lparr>strattrs := fst (add_strattr op i t n (strattrs s))\<rparr>)"
      using s queue_strattr by blast
    then have "I (s\<lparr>strattrs := fst (add_strattr op i t n (strattrs s)), cur_strattrs_strlen := c\<rparr>)" for c
      by (rule frame) (simp add: core_def)
    with q show ?thesis using n
      by (cases "add_strattr op i t n (strattrs s)")
        (auto simp: u_inner_xrk_report_strattr_def Let_def intro!: flush split: option.splits)
  next
    case False
    with s show ?thesis
      by (auto simp: u_inner_xrk_report_strattr_def split: jsval.splits)
  qed
qed

lemma log_event: "I s \<Longrightarrow> I (u_report_log ty msg s)"
proof -
  assume s: "I s"
  define s1 where "s1 = s\<lparr>logs := logs s @ [\<lparr>log_type = ty, log_msg = msg, log_time = now s - now s mod 1000\<rparr>],
      cur_logs_strlen := cur_logs_strlen s + int (length msg)\<rparr>"
  have s1: "I s1" by (rule frame [OF s]) (simp add: s1_def core_def)
  show ?thesis
    unfolding u_report_log_def Let_def s1_def [symmetric]
    using s s1 cancel_reset [OF s1] by (auto intro: send)
qed

lemma report_log_event: "I s \<Longrightarrow> I (report_log l msg pos s)"
  by (auto simp: report_log_def report_error_log_def report_warn_log_def report_reqerr_log_def
      report_info_log_def report_debug_log_def log_event split: log_level.splits option.splits)

lemma report_event: "I s \<Longrightarrow> I (report_to_server d s)"
  by (auto simp: report_to_server_def Let_def intro!: send cancel_reset)

lemma try_event: "I s \<Longrightarrow> I (u_try_report_to_server s)"
  unfolding u_try_report_to_server_def Let_def
  by (intro periodic report_event, erule frame) (simp add: core_def)

lemma delay_event:
  assumes s: "I s" and t: "tm \<in> set (timers s)" "tm_cb tm = DelayCb"
  shows "I (delay_timer (clearTimeout (tm_id tm) s))"
  using expire_delay [OF s t] answered [OF expire_delay [OF s t]]
  by (auto simp: delay_timer_def Let_def intro: send)

lemma fire_event: "I s \<Longrightarrow> I (fire i s)"
proof (cases "find (\<lambda>t. tm_id t = i \<and> tm_due t \<le> now s) (timers s)")
  case (Some t)
  assume s: "I s"
  from Some have t: "t \<in> set (timers s)" "tm_id t = i"
    by (auto simp: find_Some_iff dest: nth_mem)
  show ?thesis
    using Some s t delay_event [OF s t(1)] try_event [OF expire [OF s]] expire [OF s]
    by (cases "tm_cb t") (auto simp: fire_def run_timer_def freq_timer_def)
qed (simp add: fire_def)

lemma response_event: "I s \<Longrightarrow> I (respond q r s)"
proof -
  assume s: "I s"
  let ?s = "s\<lparr>inflight := remove1 q (inflight s)\<rparr>"
  have "core (u_on_response r ?s) = core s \<or> core (u_on_response r ?s) = core (s\<lparr>last_req_seq := 0\<rparr>)"
    by (cases r) (auto simp: u_on_response_def Let_def core_def)
  then show ?thesis using frame [OF s] frame [OF answered [OF s]] s
    by (auto simp: respond_def)
qed

lemma setting_events:
  assumes "I s"
  shows "I (request_fails q s)" "I (init_log c s)" "I (open_init_report l u s)" "I (cloud_init_report l m k s)"
    "I (set_debug b s)" "I (reg_on_response f s)"
  using assms
  by (auto simp: request_fails_def init_log_def open_init_report_def cloud_init_report_def set_debug_def
      reg_on_response_def core_def Let_def split: option.splits elim!: frame)

lemma core_add_plugins: "core (u_add_plugins s) = core s"
proof -
  have "core (fold (\<lambda>name s. if name \<noteq> [] then u_load_plugin name s else s) ns s) = core s" for ns
    by (induction ns arbitrary: s) (auto simp: u_load_plugin_def load_script_def core_def)
  then show ?thesis by (simp add: u_add_plugins_def)
qed

lemma script_event: "I s \<Longrightarrow> I (script_loaded penv k s)"
proof -
  assume s: "I s"
  let ?s = "s\<lparr>loading := take k (loading s) @ drop (Suc k) (loading s)\<rparr>"
  have "I ?s" by (rule frame [OF s]) (simp add: core_def)
  moreover have "I (start_timer (u_add_plugins (?s\<lparr>has_json := True\<rparr>)))"
    unfolding start_timer_def
    by (intro periodic, rule frame [OF s]) (simp add: core_add_plugins, simp add: core_def)
  moreover have "I (on_config_loaded penv n ?s)" "I (on_plugin_loaded penv n c ?s)" for n c
    by (rule frame [OF s];
        auto simp: core_def on_config_loaded_def on_plugin_loaded_def load_script_def Let_def
          u_try_set_config_def split: option.splits jsval.splits jnum.splits)+
  ultimately show ?thesis using s
    by (auto simp: script_loaded_def run_script_def split: script_cb.splits)
qed

lemma plugin_events:
  assumes "I s"
  shows "I (join_window penv s)" "I (plugin_log k l s)" "I (window_fails k j s)"
  by (rule frame [OF assms];
      auto simp: join_window_def plugins_add_monitor_def plugin_log_def window_fails_def core_def
        Let_def split: prod.splits)+

lemma other_event: "I s \<Longrightarrow> \<nexists>op i n. e = ReportAttr op i n \<Longrightarrow> I (step penv e s)"
  by (cases e) (simp_all add: strattr_event report_log_event report_event setting_events
      elapse fire_event response_event script_event plugin_events)

lemma init_inv: "I (new_xrk b) \<Longrightarrow> (\<And>s. I s \<Longrightarrow> I (s\<lparr>req_seq := req_seq s + 1\<rparr>)) \<Longrightarrow> I (start penv d b)"
proof -
  assume b: "I (new_xrk b)" and seq: "\<And>s. I s \<Longrightarrow> I (s\<lparr>req_seq := req_seq s + 1\<rparr>)"
  define s where "s = (new_xrk b)\<lparr>debug := d, init_win_domain := domain (new_xrk b)\<rparr>"
  define s1 where "s1 = s\<lparr>api_js_url := get_cur_js_url None s\<rparr>"
  have s1: "I s1" by (rule frame [OF b]) (simp add: s1_def s_def core_def)
  define s2 where "s2 = s1\<lparr>req_seq := req_seq s1 + 1\<rparr>"
  have s2: "I s2" unfolding s2_def by (rule seq [OF s1])
  have "I (load_script u c s2)" for u c
    by (rule frame [OF s2]) (simp add: load_script_def core_def)
  moreover have "I (start_timer (u_add_plugins s2))"
    unfolding start_timer_def by (intro periodic frame [OF s2] core_add_plugins)
  ultimately show ?thesis using s1 unfolding s2_def
    by (auto simp: start_def Xrkmonitor_def u_init_start_def u_init_def Let_def s1_def s_def)
qed

end

locale reporter_invariant = reporter_frame +
  assumes queue_attr: "I s \<Longrightarrow> \<not> js_le_zero n \<Longrightarrow> I (s\<lparr>attrs := put_attr op i n (attrs s)\<rparr>)"
begin

lemma attr_event: "I s \<Longrightarrow> I (u_inner_xrk_report_attr op i number s)"
proof -
  assume s: "I s"
  show ?thesis
  proof (cases "\<exists>n. number = Num n \<and> i \<noteq> Undefined \<and> \<not> js_le_zero n")
    case True
    then obtain n where n: "number = Num n" "i \<noteq> Undefined" "\<not> js_le_zero n" by blast
    then have "I (s\<lparr>attrs := put_attr op i n (attrs s)\<rparr>)" using s queue_attr by blast
    with n show ?thesis
      by (auto simp: u_inner_xrk_report_attr_def put_attr_def Let_def flush split: option.splits)
  next
    case False
    with s show ?thesis
      by (auto simp: u_inner_xrk_report_attr_def split: jsval.splits)
  qed
qed

lemma step_inv: "I s \<Longrightarrow> I (step penv e s)"
proof (cases "\<exists>op i n. e = ReportAttr op i n")
  case True
  then show "I s \<Longrightarrow> I (step penv e s)" by (auto simp: attr_event)
qed (rule other_event)

lemma run_inv: "I s \<Longrightarrow> I (run penv es s)"
  unfolding run_def by (induction es arbitrary: s) (simp_all add: step_inv)

lemma reachable_inv:
  assumes "reachable penv s" "\<And>b. fresh_browser b \<Longrightarrow> I (new_xrk b)"
    "\<And>s. I s \<Longrightarrow> I (s\<lparr>req_seq := req_seq s + 1\<rparr>)"
  shows "I s"
  using assms(1)
proof (induction rule: reachable.induct)
  case (start b d)
  then show ?case using init_inv [OF assms(2)] assms(3) by blast
qed (rule step_inv)

end

end
