(* ===== verification/Xrk_Safety.thy ===== *)
theory Xrk_Safety
  imports Xrk_Machine
begin

text \<open>
  What holds in every reachable state of the reporter: sequence numbers, timers, the
  frequency limit, the shape of the queued data. Each invariant meets the contract
  \<open>reporter_invariant\<close>; the transport contract between \<open>_report_to_server\<close> and
  \<open>_to_server\<close> gives that no reported value is lost or sent twice.
\<close>

section \<open>The transport\<close>

text \<open>
  What \<open>_report_to_server\<close> relies on: a refused report leaves the queues and the requests
  alone, an accepted one is exactly one new request with the next sequence number.
\<close>

definition queues :: "sys \<Rightarrow> attr_item list \<times> strattr_item list \<times> log_item list \<times> plugin list" where
  "queues s = (attrs s, strattrs s, logs s, plugins s)"

locale transport =
  fixes to_server :: "report \<Rightarrow> sys \<Rightarrow> sys \<times> bool"
  assumes refused: "to_server rep s = (s', False) \<Longrightarrow>
      queues s' = queues s \<and> requests s' = requests s \<and> req_seq s' = req_seq s
      \<and> last_req_seq s' = last_req_seq s \<and> now s' = now s"
    and accepted: "to_server rep s = (s', True) \<Longrightarrow>
      queues s' = queues s \<and> req_seq s' = req_seq s + 1 \<and> last_req_seq s' = req_seq s \<and> now s' = now s
      \<and> (\<exists>rq. requests s' = requests s @ [rq] \<and> rq_report rq = rep \<and> rq_seq rq = req_seq s
             \<and> rq_time rq = now s \<and> rq_url rq = report_url s
             \<and> rq_body rq = request_body (req_seq s) (json_text (report_json rep)))"

lemma send_request_simps [simp]:
  "queues (send_request rep s) = queues s"
  "req_seq (send_request rep s) = req_seq s + 1"
  "last_req_seq (send_request rep s) = req_seq s"
  "now (send_request rep s) = now s"
  "timers (send_request rep s) = timers s"
  "next_timer (send_request rep s) = next_timer s"
  "last_delay_timer_id (send_request rep s) = last_delay_timer_id s"
  "freq_send_start_time (send_request rep s) = freq_send_start_time s"
  "freq_request_times (send_request rep s) = freq_request_times s"
  "attrs (send_request rep s) = attrs s"
  "strattrs (send_request rep s) = strattrs s"
  by (simp_all add: send_request_def Let_def queues_def)

lemma send_request_requests:
  "\<exists>rq. requests (send_request rep s) = requests s @ [rq] \<and> rq_report rq = rep \<and> rq_seq rq = req_seq s
     \<and> rq_time rq = now s \<and> rq_url rq = report_url s
     \<and> rq_body rq = request_body (req_seq s) (json_text (report_json rep))"
  by (simp add: send_request_def Let_def)

lemma queues_frame [simp]:
  "queues (s\<lparr>request_start_time := a\<rparr>) = queues s"
  "queues (s\<lparr>freq_send_start_time := a\<rparr>) = queues s"
  "queues (s\<lparr>freq_request_times := b\<rparr>) = queues s"
  "queues (s\<lparr>last_delay_timer_id := d\<rparr>) = queues s"
  "queues (s\<lparr>next_timer := d\<rparr>) = queues s"
  "queues (s\<lparr>timers := ts\<rparr>) = queues s"
  by (simp_all add: queues_def)

interpretation xhr: transport u_to_server
proof
  fix rep s s'
  assume "u_to_server rep s = (s', False)"
  then show "queues s' = queues s \<and> requests s' = requests s \<and> req_seq s' = req_seq s
      \<and> last_req_seq s' = last_req_seq s \<and> now s' = now s"
    by (auto simp: u_to_server_def Let_def setTimeout_def split: if_splits)
next
  fix rep s s'
  assume "u_to_server rep s = (s', True)"
  then show "queues s' = queues s \<and> req_seq s' = req_seq s + 1 \<and> last_req_seq s' = req_seq s \<and> now s' = now s
      \<and> (\<exists>rq. requests s' = requests s @ [rq] \<and> rq_report rq = rep \<and> rq_seq rq = req_seq s
             \<and> rq_time rq = now s \<and> rq_url rq = report_url s
             \<and> rq_body rq = request_body (req_seq s) (json_text (report_json rep)))"
    by (auto simp: u_to_server_def Let_def setTimeout_def split: if_splits)
      (auto simp: send_request_def Let_def)
qed

section \<open>Sequence numbers\<close>

definition seq_inv :: "sys \<Rightarrow> bool" where
  "seq_inv s = (sorted_wrt (<) (map rq_seq (requests s)) \<and> (\<forall>r \<in> set (requests s). rq_seq r < req_seq s))"

lemma clear_queues_simps [simp]:
  "requests (clear_queues who s) = requests s"
  "req_seq (clear_queues who s) = req_seq s"
  "last_req_seq (clear_queues who s) = last_req_seq s"
  "now (clear_queues who s) = now s"
  "timers (clear_queues who s) = timers s"
  "next_timer (clear_queues who s) = next_timer s"
  "last_delay_timer_id (clear_queues who s) = last_delay_timer_id s"
  "freq_send_start_time (clear_queues who s) = freq_send_start_time s"
  "freq_request_times (clear_queues who s) = freq_request_times s"
  "attrs (clear_queues who s) = []"
  "strattrs (clear_queues who s) = []"
  "logs (clear_queues who s) = []"
  by (auto simp: clear_queues_def Let_def split: option.splits)

text \<open>The three ways \<open>_report_to_server\<close> ends, for proofs about it.\<close>

definition canceled :: "sys \<Rightarrow> sys" where
  "canceled s =
     (if last_delay_timer_id s \<noteq> 0
      then (clearTimeout (last_delay_timer_id s) s)\<lparr>last_delay_timer_id := 0\<rparr> else s)"

lemma u_report_to_server_cases [case_names later idle handed]:
  obtains
    (later) "delay \<noteq> None \<or> last_req_seq s \<noteq> 0"
      "u_report_to_server delay s =
        (if last_delay_timer_id s = 0
         then (let (s, i) = setTimeout DelayCb (case delay of None \<Rightarrow> 100 | Some d \<Rightarrow> d) s
               in s\<lparr>last_delay_timer_id := i\<rparr>) else s)"
  | (idle) "delay = None" "last_req_seq s = 0"
      "u_report_to_server delay s = (canceled s)\<lparr>cur_strattrs_strlen := 0, cur_logs_strlen := 0\<rparr>"
  | (handed) rep who s' ok where "delay = None" "last_req_seq s = 0"
      "build_report (canceled s) = (rep, True, who)" "has_json s"
      "u_to_server rep ((canceled s)\<lparr>cur_strattrs_strlen := 0, cur_logs_strlen := 0\<rparr>) = (s', ok)"
      "u_report_to_server delay s = (if ok then clear_queues who s' else s')"
proof (cases "delay \<noteq> None \<or> last_req_seq s \<noteq> 0")
  case True
  then show thesis by (intro later) (auto simp: u_report_to_server_def)
next
  case False
  obtain rep need who where b: "build_report (canceled s) = (rep, need, who)"
    by (metis prod_cases3)
  obtain s' ok where u: "u_to_server rep ((canceled s)\<lparr>cur_strattrs_strlen := 0, cur_logs_strlen := 0\<rparr>) = (s', ok)"
    by (metis prod.exhaust)
  have j: "has_json (canceled s) = has_json s" by (simp add: canceled_def clearTimeout_def)
  have eq: "u_report_to_server delay s =
      (if \<not> need \<or> \<not> has_json s then (canceled s)\<lparr>cur_strattrs_strlen := 0, cur_logs_strlen := 0\<rparr>
       else if ok then clear_queues who s' else s')"
    using False b u j by (simp add: u_report_to_server_def canceled_def [symmetric] Let_def)
  show thesis
  proof (cases "need \<and> has_json s")
    case True
    with False b u eq show thesis by (intro handed) auto
  next
    case False': False
    with False eq show thesis by (intro idle) auto
  qed
qed

lemma canceled_simps [simp]:
  "requests (canceled s) = requests s" "req_seq (canceled s) = req_seq s"
  "last_req_seq (canceled s) = last_req_seq s" "now (canceled s) = now s"
  "attrs (canceled s) = attrs s" "strattrs (canceled s) = strattrs s"
  "logs (canceled s) = logs s" "plugins (canceled s) = plugins s"
  "next_timer (canceled s) = next_timer s" "last_delay_timer_id (canceled s) = 0"
  "freq_send_start_time (canceled s) = freq_send_start_time s"
  "freq_request_times (canceled s) = freq_request_times s"
  "report_url (canceled s) = report_url s" "has_xhr (canceled s) = has_xhr s"
  "has_json (canceled s) = has_json s" "log_config_id (canceled s) = log_config_id s"
  by (simp_all add: canceled_def clearTimeout_def)

text \<open>
  The logs that wait in the plugins, each with the log configuration it is sent under, and
  the batch of logs of one report: the page's own logs, or if there are none those of the first
  plugin that has any. The second list is what the plugins hold afterwards.
\<close>

definition plugin_logs :: "sys \<Rightarrow> (int \<times> log_item list) list" where
  "plugin_logs s = map (\<lambda>p. (logconfig_id (p_config p), p_logs p)) (plugins s)"

definition log_batch ::
  "log_item list \<Rightarrow> int \<Rightarrow> (int \<times> log_item list) list \<Rightarrow> report \<Rightarrow> (int \<times> log_item list) list \<Rightarrow> bool" where
  "log_batch own cid pl r pl' =
     (if own \<noteq> [] then rep_logs r = Some own \<and> rep_log_config_id r = Some cid \<and> pl' = pl
      else (\<exists>ps c ls qs. pl = ps @ (c, ls) # qs \<and> (\<forall>x \<in> set ps. snd x = []) \<and> ls \<noteq> []
              \<and> rep_logs r = Some ls \<and> rep_log_config_id r = Some c \<and> pl' = ps @ (c, []) # qs)
        \<or> (\<forall>x \<in> set pl. snd x = []) \<and> rep_logs r = None \<and> rep_log_config_id r = None \<and> pl' = pl)"

lemma first_log_plugin_None: "first_log_plugin ps = None \<longleftrightarrow> (\<forall>p \<in> set ps. p_logs p = [])"
  by (induction ps) auto

lemma first_log_plugin_Some:
  "first_log_plugin ps = Some i \<Longrightarrow>
    \<exists>as p bs. ps = as @ p # bs \<and> length as = i \<and> (\<forall>a \<in> set as. p_logs a = []) \<and> p_logs p \<noteq> []"
proof (induction ps arbitrary: i)
  case (Cons p ps)
  show ?case
  proof (cases "p_logs p = []")
    case True
    with Cons.prems obtain j where "first_log_plugin ps = Some j" "i = Suc j" by auto
    with Cons.IH [of j] True show ?thesis by (metis Cons_eq_appendI length_Cons set_ConsD)
  next
    case False
    with Cons.prems have "p # ps = [] @ p # ps" "length [] = i" by auto
    with False show ?thesis by fastforce
  qed
qed simp

lemma build_report_attrs:
  "build_report s = (rep, need, who) \<Longrightarrow>
     rep_attrs rep = (if attrs s \<noteq> [] then Some (attrs s) else None)
     \<and> rep_strattrs rep = (if strattrs s \<noteq> [] then Some (strattrs s) else None)"
  by (auto simp: build_report_def Let_def split: option.splits if_splits prod.splits)

lemma build_report_logs:
  assumes "build_report s = (rep, need, who)" "plugins s' = plugins s"
  shows "log_batch (logs s) (log_config_id s) (plugin_logs s) rep (plugin_logs (clear_queues who s'))"
proof (cases "logs s = []")
  case True
  show ?thesis
  proof (cases "first_log_plugin (plugins s)")
    case None
    then have "\<forall>x \<in> set (plugin_logs s). snd x = []"
      by (auto simp: first_log_plugin_None plugin_logs_def)
    with True None assms show ?thesis
      by (auto simp: build_report_def clear_queues_def log_batch_def plugin_logs_def Let_def)
  next
    case (Some i)
    from first_log_plugin_Some [OF this] obtain as p bs where
      p: "plugins s = as @ p # bs" "length as = i" "\<forall>a \<in> set as. p_logs a = []" "p_logs p \<noteq> []" by blast
    from assms(1) True Some p have r: "rep_logs rep = Some (p_logs p)"
      "rep_log_config_id rep = Some (logconfig_id (p_config p))" "who = Some i"
      by (auto simp: build_report_def Let_def)
    let ?ps = "map (\<lambda>p. (logconfig_id (p_config p), p_logs p)) as"
    let ?qs = "map (\<lambda>p. (logconfig_id (p_config p), p_logs p)) bs"
    have "plugin_logs s = ?ps @ (logconfig_id (p_config p), p_logs p) # ?qs" "\<forall>x \<in> set ?ps. snd x = []"
      "plugin_logs (clear_queues who s') = ?ps @ (logconfig_id (p_config p), []) # ?qs"
      using p assms(2) r(3) by (auto simp: plugin_logs_def clear_queues_def Let_def list_update_append)
    with True r p(4) show ?thesis unfolding log_batch_def
      by (simp only: not_True_eq_False if_False simp_thms) blast
  qed
qed (use assms in \<open>auto simp: build_report_def clear_queues_def log_batch_def plugin_logs_def Let_def\<close>)

text \<open>The effect of \<open>_report_to_server\<close> on what is queued and sent.\<close>

definition keeps_data :: "sys \<Rightarrow> sys \<Rightarrow> bool" where
  "keeps_data s s' = (requests s' = requests s \<and> req_seq s' = req_seq s \<and> queues s' = queues s
     \<and> now s' = now s)"

definition hands_over :: "sys \<Rightarrow> sys \<Rightarrow> bool" where
  "hands_over s s' = (\<exists>rq. requests s' = requests s @ [rq] \<and> rq_seq rq = req_seq s
     \<and> rq_time rq = now s \<and> rq_url rq = report_url s
     \<and> rq_body rq = request_body (req_seq s) (json_text (report_json (rq_report rq)))
     \<and> req_seq s' = req_seq s + 1 \<and> last_req_seq s' = req_seq s
     \<and> rep_attrs (rq_report rq) = (if attrs s \<noteq> [] then Some (attrs s) else None)
     \<and> rep_strattrs (rq_report rq) = (if strattrs s \<noteq> [] then Some (strattrs s) else None)
     \<and> log_batch (logs s) (log_config_id s) (plugin_logs s) (rq_report rq) (plugin_logs s')
     \<and> attrs s' = [] \<and> strattrs s' = [] \<and> logs s' = [] \<and> now s' = now s)"

lemma keeps_data_simps:
  "keeps_data s s' \<Longrightarrow> requests s' = requests s \<and> req_seq s' = req_seq s \<and> attrs s' = attrs s
    \<and> strattrs s' = strattrs s \<and> logs s' = logs s \<and> plugins s' = plugins s"
  by (simp add: keeps_data_def queues_def)

lemma handed_over:
  assumes "build_report (canceled s) = (rep, need, who)"
    and "u_to_server rep ((canceled s)\<lparr>cur_strattrs_strlen := 0, cur_logs_strlen := 0\<rparr>) = (s', True)"
  shows "hands_over s (clear_queues who s')"
proof -
  from xhr.accepted [OF assms(2)] obtain rq where rq: "requests s' = requests s @ [rq]"
    "rq_report rq = rep" "rq_seq rq = req_seq s" "rq_time rq = now s" "rq_url rq = report_url s"
    "rq_body rq = request_body (req_seq s) (json_text (report_json rep))"
    "req_seq s' = req_seq s + 1" "last_req_seq s' = req_seq s" "now s' = now s" "plugins s' = plugins s"
    by (auto simp: queues_def)
  have "log_batch (logs s) (log_config_id s) (plugin_logs s) rep (plugin_logs (clear_queues who s'))"
    using build_report_logs [OF assms(1), of s'] rq(10) by (simp add: plugin_logs_def)
  with rq build_report_attrs [OF assms(1)] show ?thesis by (auto simp: hands_over_def)
qed

lemma report_effect:
  "keeps_data s (u_report_to_server d s)
    \<or> d = None \<and> last_req_seq s = 0 \<and> has_json s \<and> hands_over s (u_report_to_server d s)"
proof (cases rule: u_report_to_server_cases [of d s])
  case later
  then show ?thesis by (auto simp: keeps_data_def setTimeout_def)
next
  case idle
  then show ?thesis by (simp add: keeps_data_def queues_def)
next
  case (handed rep who s' ok)
  show ?thesis
  proof (cases ok)
    case True
    with handed handed_over [of s rep True who s'] show ?thesis by simp
  next
    case False
    with handed(5) have "u_to_server rep ((canceled s)\<lparr>cur_strattrs_strlen := 0, cur_logs_strlen := 0\<rparr>) = (s', False)"
      by simp
    from xhr.refused [OF this] False handed show ?thesis by (simp add: keeps_data_def queues_def)
  qed
qed

lemma seq_inv_send: "seq_inv s \<Longrightarrow> seq_inv (u_report_to_server d s)"
  using report_effect [of s d]
  by (force simp: seq_inv_def hands_over_def sorted_wrt_append dest: keeps_data_simps)

interpretation seqs: reporter_invariant seq_inv
  by unfold_locales
    (auto simp: seq_inv_send, auto simp: seq_inv_def core_def clearTimeout_def setTimeout_def)

section \<open>The shape of the queued data\<close>

definition attrs_ok :: "attr_item list \<Rightarrow> bool" where
  "attrs_ok xs = (sorted_wrt (\<lambda>a b. \<not> js_eq (attr_id a) (attr_id b)) xs
     \<and> (\<forall>a \<in> set xs. \<not> js_le_zero (attr_number a)))"

definition strattrs_ok :: "strattr_item list \<Rightarrow> bool" where
  "strattrs_ok xs = (sorted_wrt (\<lambda>a b. \<not> js_eq (strattr_id a) (strattr_id b)) xs
     \<and> (\<forall>a \<in> set xs. strattr_strings a \<noteq> [] \<and>
          (\<forall>x \<in> set (strattr_strings a). length (str_string x) \<le> 50 \<and> \<not> js_le_zero (str_number x))))"

definition report_ok :: "report \<Rightarrow> bool" where
  "report_ok r = ((case rep_attrs r of None \<Rightarrow> True | Some xs \<Rightarrow> xs \<noteq> [] \<and> attrs_ok xs)
     \<and> (case rep_strattrs r of None \<Rightarrow> True | Some xs \<Rightarrow> xs \<noteq> [] \<and> strattrs_ok xs))"

definition data_inv :: "sys \<Rightarrow> bool" where
  "data_inv s = (attrs_ok (attrs s) \<and> strattrs_ok (strattrs s)
     \<and> (\<forall>r \<in> set (requests s). report_ok (rq_report r)))"

lemma js_add_positive: "\<not> js_le_zero a \<Longrightarrow> \<not> js_le_zero b \<Longrightarrow> \<not> js_le_zero (js_add a b)"
  by (induction a b rule: js_add.induct) auto

lemma bump_attr_None: "bump_attr op i n xs = None \<longleftrightarrow> (\<forall>a \<in> set xs. \<not> js_eq (attr_id a) i)"
  by (induction xs) auto

lemma bump_attr_Some_ids: "bump_attr op i n xs = Some ys \<Longrightarrow> map attr_id ys = map attr_id xs"
  by (induction xs arbitrary: ys) (auto split: if_splits)

lemma bump_attr_Some_pos:
  "bump_attr op i n xs = Some ys \<Longrightarrow> \<not> js_le_zero n \<Longrightarrow> (\<forall>a \<in> set xs. \<not> js_le_zero (attr_number a))
    \<Longrightarrow> (\<forall>a \<in> set ys. \<not> js_le_zero (attr_number a))"
  by (induction xs arbitrary: ys) (auto simp: js_add_positive split: if_splits)

lemma sorted_wrt_map_ids:
  "map f ys = map f xs \<Longrightarrow> sorted_wrt (\<lambda>a b. P (f a) (f b)) xs \<Longrightarrow> sorted_wrt (\<lambda>a b. P (f a) (f b)) ys"
  using sorted_wrt_map [of P f xs] sorted_wrt_map [of P f ys] by simp

lemma put_attr_ok: "attrs_ok xs \<Longrightarrow> \<not> js_le_zero n \<Longrightarrow> attrs_ok (put_attr op i n xs)"
proof (cases "bump_attr op i n xs")
  case None
  assume "attrs_ok xs" "\<not> js_le_zero n"
  with None bump_attr_None [THEN iffD1, OF None] show ?thesis
    by (auto simp: put_attr_def attrs_ok_def sorted_wrt_append)
next
  case (Some ys)
  assume "attrs_ok xs" "\<not> js_le_zero n"
  with Some show ?thesis
    using sorted_wrt_map_ids [OF bump_attr_Some_ids [OF Some], of "\<lambda>a b. \<not> js_eq a b"]
      bump_attr_Some_pos [OF Some]
    by (auto simp: put_attr_def attrs_ok_def)
qed

lemma bump_str_Some_ok:
  "bump_str op t n xs = Some ys \<Longrightarrow> \<not> js_le_zero n \<Longrightarrow>
    (\<forall>x \<in> set xs. length (str_string x) \<le> 50 \<and> \<not> js_le_zero (str_number x)) \<Longrightarrow>
    ys \<noteq> [] \<and> (\<forall>x \<in> set ys. length (str_string x) \<le> 50 \<and> \<not> js_le_zero (str_number x))"
  by (induction xs arbitrary: ys) (auto simp: js_add_positive split: if_splits)

lemma new_str_ok: "\<not> js_le_zero n \<Longrightarrow> length (str_string (new_str t n)) \<le> 50 \<and> \<not> js_le_zero (str_number (new_str t n))"
  by (simp add: new_str_def)

lemma add_strattr_ids:
  "x \<in> set (fst (add_strattr op i t n xs)) \<Longrightarrow>
    strattr_id x \<in> strattr_id ` set xs \<or> strattr_id x = i \<and> (\<forall>y \<in> set xs. \<not> js_eq (strattr_id y) i)"
  by (induction xs arbitrary: x) (auto split: if_splits option.splits prod.splits)

lemma add_strattr_ok: "strattrs_ok xs \<Longrightarrow> \<not> js_le_zero n \<Longrightarrow> strattrs_ok (fst (add_strattr op i t n xs))"
proof (induction xs)
  case (Cons x xs)
  show ?case
  proof (cases "js_eq (strattr_id x) i")
    case True
    with Cons.prems show ?thesis
      using bump_str_Some_ok [of op t n "strattr_strings x"] new_str_ok [of n t]
      by (auto simp: strattrs_ok_def split: option.splits)
  next
    case False
    have "strattrs_ok (fst (add_strattr op i t n xs))"
      by (rule Cons.IH) (use Cons.prems in \<open>simp_all add: strattrs_ok_def\<close>)
    moreover have "\<not> js_eq (strattr_id x) (strattr_id y)" if "y \<in> set (fst (add_strattr op i t n xs))" for y
      using add_strattr_ids [OF that] False Cons.prems(1) by (auto simp: strattrs_ok_def)
    moreover have "fst (add_strattr op i t n (x # xs)) = x # fst (add_strattr op i t n xs)"
      using False by (simp split: prod.splits)
    ultimately show ?thesis using Cons.prems(1)
      by (simp add: strattrs_ok_def)
  qed
qed (simp add: strattrs_ok_def new_str_ok)

lemma data_inv_send: "data_inv s \<Longrightarrow> data_inv (u_report_to_server d s)"
proof -
  assume s: "data_inv s"
  have nil: "attrs_ok []" "strattrs_ok []" by (simp_all add: attrs_ok_def strattrs_ok_def)
  consider "keeps_data s (u_report_to_server d s)" | "hands_over s (u_report_to_server d s)"
    using report_effect by blast
  then show ?thesis
  proof cases
    case 2
    then obtain rq where "requests (u_report_to_server d s) = requests s @ [rq]"
      "rep_attrs (rq_report rq) = (if attrs s \<noteq> [] then Some (attrs s) else None)"
      "rep_strattrs (rq_report rq) = (if strattrs s \<noteq> [] then Some (strattrs s) else None)"
      "attrs (u_report_to_server d s) = []" "strattrs (u_report_to_server d s) = []"
      by (auto simp: hands_over_def)
    moreover have "report_ok (rq_report rq)"
      using calculation s by (simp add: report_ok_def data_inv_def)
    ultimately show ?thesis using s nil by (simp add: data_inv_def)
  qed (use s in \<open>auto simp: data_inv_def dest: keeps_data_simps\<close>)
qed

interpretation data: reporter_invariant data_inv
  by unfold_locales
    (auto simp: data_inv_send, auto simp: data_inv_def core_def clearTimeout_def setTimeout_def
      put_attr_ok add_strattr_ok)

section \<open>Timers\<close>

text \<open>At most one delayed report is pending, and \<open>last_delay_timer_id\<close> is its number.\<close>

definition timer_inv :: "sys \<Rightarrow> bool" where
  "timer_inv s = (0 < next_timer s \<and> 0 \<le> last_delay_timer_id s \<and> last_delay_timer_id s < next_timer s
     \<and> distinct (map tm_id (timers s))
     \<and> (\<forall>t \<in> set (timers s). 0 < tm_id t \<and> tm_id t < next_timer s
          \<and> (tm_cb t \<noteq> TryCb \<longrightarrow> tm_id t = last_delay_timer_id s)))"

lemma timer_inv_filter: "timer_inv s \<Longrightarrow> timer_inv (clearTimeout i s)"
  by (auto simp: timer_inv_def clearTimeout_def distinct_map_filter)

lemma timer_inv_canceled: "timer_inv s \<Longrightarrow> timer_inv (canceled s)"
  by (auto simp: timer_inv_def canceled_def clearTimeout_def distinct_map_filter)

lemma timer_inv_frame:
  "timer_inv s \<Longrightarrow> next_timer s' = next_timer s \<Longrightarrow> timers s' = timers s \<Longrightarrow>
    last_delay_timer_id s' = last_delay_timer_id s \<Longrightarrow> timer_inv s'"
  by (simp add: timer_inv_def)

lemma timer_inv_schedule:
  assumes "timer_inv s" "last_delay_timer_id s = 0" "setTimeout cb d s = (s', i)"
  shows "timer_inv (s'\<lparr>last_delay_timer_id := i\<rparr>)"
  using assms by (fastforce simp: timer_inv_def setTimeout_def)

lemma timer_inv_to_server:
  assumes "timer_inv s" "last_delay_timer_id s = 0" "u_to_server rep s = (s', ok)"
  shows "timer_inv s'"
proof (cases "timers s' = timers s \<and> next_timer s' = next_timer s \<and> last_delay_timer_id s' = last_delay_timer_id s")
  case True
  with assms(1) show ?thesis by (auto intro: timer_inv_frame)
next
  case False
  let ?s = "s\<lparr>request_start_time := now s\<rparr>"
  obtain s2 i where st: "setTimeout FreqCb 500 ?s = (s2, i)" by (metis prod.exhaust)
  with False assms(3) have "s' = s2\<lparr>last_delay_timer_id := i\<rparr>"
    by (auto simp: u_to_server_def Let_def split: if_splits)
  moreover have "timer_inv ?s" using assms(1) by (rule timer_inv_frame) simp_all
  ultimately show ?thesis using timer_inv_schedule [OF _ _ st] assms(2) by simp
qed

lemma timer_inv_send: "timer_inv s \<Longrightarrow> timer_inv (u_report_to_server d s)"
proof -
  assume s: "timer_inv s"
  show ?thesis
  proof (cases rule: u_report_to_server_cases [of d s])
    case later
    then show ?thesis
      using s timer_inv_schedule [OF s] by (auto split: prod.splits)
  next
    case idle
    then show ?thesis using timer_inv_canceled [OF s] by (auto intro: timer_inv_frame)
  next
    case (handed rep who s' ok)
    have "timer_inv ((canceled s)\<lparr>cur_strattrs_strlen := 0, cur_logs_strlen := 0\<rparr>)"
      using timer_inv_canceled [OF s] by (rule timer_inv_frame) simp_all
    then have "timer_inv s'" by (rule timer_inv_to_server [OF _ _ handed(5)]) simp
    then show ?thesis using handed(6) by (auto intro: timer_inv_frame)
  qed
qed

interpretation tmrs: reporter_invariant timer_inv
proof (unfold_locales, goal_cases)
  case (3 s)
  then show ?case by (auto simp: timer_inv_def clearTimeout_def distinct_map_filter)
next
  case (9 s tm)
  then show ?case by (auto simp: timer_inv_def clearTimeout_def distinct_map_filter)
qed (auto simp: timer_inv_send timer_inv_filter, auto simp: timer_inv_def core_def setTimeout_def)

section \<open>The frequency limit\<close>

definition in_window :: "sys \<Rightarrow> request \<Rightarrow> bool" where
  "in_window s r = (freq_send_start_time s \<le> rq_time r
     \<and> rq_time r < freq_send_start_time s + freq_check_time)"

text \<open>
  \<open>freq_request_times\<close> counts the requests since the window opened, none is later than the
  closing moment of the window, and inside the window there are at most three.
\<close>

definition freq_inv :: "sys \<Rightarrow> bool" where
  "freq_inv s = (0 < now s \<and> 0 \<le> freq_send_start_time s \<and> freq_send_start_time s \<le> now s
     \<and> (freq_send_start_time s = 0 \<longrightarrow> requests s = [])
     \<and> (\<forall>r \<in> set (requests s). rq_time r \<le> now s \<and> rq_time r \<le> freq_send_start_time s + freq_check_time)
     \<and> freq_request_times s = int (length (filter (\<lambda>r. freq_send_start_time s \<le> rq_time r) (requests s)))
     \<and> int (length (filter (in_window s) (requests s))) \<le> freq_check_limit_times)"

lemma in_window_cong: "freq_send_start_time s' = freq_send_start_time s \<Longrightarrow> in_window s' = in_window s"
  by (simp add: fun_eq_iff in_window_def)

lemma freq_inv_frame:
  "freq_inv s \<Longrightarrow> requests s' = requests s \<Longrightarrow> now s' = now s \<Longrightarrow>
    freq_send_start_time s' = freq_send_start_time s \<Longrightarrow> freq_request_times s' = freq_request_times s \<Longrightarrow>
    freq_inv s'"
  using in_window_cong [of s' s] by (simp add: freq_inv_def)

lemma length_filter_le_filter:
  "(\<And>x. P x \<Longrightarrow> Q x) \<Longrightarrow> length (filter P xs) \<le> length (filter Q xs)"
  by (induction xs) auto

lemma freq_inv_new_window:
  assumes "freq_inv s" "freq_send_start_time s = 0 \<or> now s > freq_send_start_time s + freq_check_time"
  shows "freq_inv (send_request rep (s\<lparr>freq_send_start_time := now s, freq_request_times := 1\<rparr>))"
proof -
  let ?s = "s\<lparr>freq_send_start_time := now s, freq_request_times := 1\<rparr>"
  obtain rq where rq: "requests (send_request rep ?s) = requests s @ [rq]" "rq_time rq = now s"
    using send_request_requests [of rep ?s] by auto
  have old: "rq_time r < now s" if "r \<in> set (requests s)" for r
    using that assms by (force simp: freq_inv_def)
  then have none: "filter (\<lambda>r. now s \<le> rq_time r) (requests s) = []"
    "filter (in_window (send_request rep ?s)) (requests s) = []"
    by (force simp: filter_empty_conv in_window_def)+
  have "0 < now s" using assms(1) by (simp add: freq_inv_def)
  with rq none old show ?thesis
    by (force simp: freq_inv_def xrk_constants)
qed

lemma freq_inv_same_window:
  assumes "freq_inv s" "freq_send_start_time s \<noteq> 0" "now s \<le> freq_send_start_time s + freq_check_time"
    "now s < freq_send_start_time s + freq_check_time \<Longrightarrow> freq_request_times s < freq_check_limit_times"
  shows "freq_inv (send_request rep (s\<lparr>freq_request_times := freq_request_times s + 1\<rparr>))"
proof -
  let ?s = "s\<lparr>freq_request_times := freq_request_times s + 1\<rparr>"
  obtain rq where rq: "requests (send_request rep ?s) = requests s @ [rq]" "rq_time rq = now s"
    using send_request_requests [of rep ?s] by auto
  have w: "in_window (send_request rep ?s) = in_window s" by (simp add: fun_eq_iff in_window_def)
  have "length (filter (in_window s) (requests s))
      \<le> length (filter (\<lambda>r. freq_send_start_time s \<le> rq_time r) (requests s))"
    by (rule length_filter_le_filter) (simp add: in_window_def)
  moreover have "in_window s rq \<longleftrightarrow> now s < freq_send_start_time s + freq_check_time"
    using rq assms(1) by (simp add: in_window_def freq_inv_def)
  ultimately show ?thesis
    using rq w assms by (auto simp: freq_inv_def)
qed

lemma freq_inv_to_server:
  assumes s: "freq_inv s" and u: "u_to_server rep s = (s', ok)"
  shows "freq_inv s'"
proof -
  let ?s = "s\<lparr>request_start_time := now s\<rparr>"
  have s1: "freq_inv ?s" by (rule freq_inv_frame [OF s]) simp_all
  consider (new) "s' = send_request rep (?s\<lparr>freq_send_start_time := now s, freq_request_times := 1\<rparr>)"
      "freq_send_start_time s = 0 \<or> now s > freq_send_start_time s + freq_check_time"
    | (same) "s' = send_request rep (?s\<lparr>freq_request_times := freq_request_times s + 1\<rparr>)"
      "freq_send_start_time s \<noteq> 0" "now s \<le> freq_send_start_time s + freq_check_time"
      "now s < freq_send_start_time s + freq_check_time \<Longrightarrow> freq_request_times s < freq_check_limit_times"
    | (refused) "requests s' = requests s" "now s' = now s"
      "freq_send_start_time s' = freq_send_start_time s" "freq_request_times s' = freq_request_times s"
    using u by (fastforce simp: u_to_server_def Let_def setTimeout_def split: if_splits)
  then show ?thesis
  proof cases
    case new
    then show ?thesis using freq_inv_new_window [OF s1, of rep] by simp
  next
    case same
    then show ?thesis using freq_inv_same_window [OF s1, of rep] by simp
  next
    case refused
    then show ?thesis using s by (intro freq_inv_frame [OF s]) simp_all
  qed
qed

lemma freq_inv_send: "freq_inv s \<Longrightarrow> freq_inv (u_report_to_server d s)"
proof -
  assume s: "freq_inv s"
  show ?thesis
  proof (cases rule: u_report_to_server_cases [of d s])
    case later
    then show ?thesis using s by (auto simp: setTimeout_def intro: freq_inv_frame)
  next
    case idle
    then show ?thesis using freq_inv_frame [OF s] by simp
  next
    case (handed rep who s' ok)
    have "freq_inv s'"
      by (rule freq_inv_to_server [OF _ handed(5)]) (rule freq_inv_frame [OF s], simp_all)
    then show ?thesis using handed(6) by (auto intro: freq_inv_frame)
  qed
qed

interpretation freq: reporter_invariant freq_inv
proof (unfold_locales, goal_cases)
  case (5 s e)
  then show ?case
    using in_window_cong [of "s\<lparr>now := now s + int e\<rparr>" s] by (force simp: freq_inv_def)
qed (auto simp: freq_inv_send, auto simp: core_def setTimeout_def clearTimeout_def intro: freq_inv_frame)

section \<open>Nothing is lost, nothing is sent twice\<close>

text \<open>
  The value collected for a numeric identifier: what is queued plus what the requests made so
  far carry. A report adds to it exactly what it reports; nothing else changes it.
\<close>

definition attr_value :: "rat \<Rightarrow> attr_item \<Rightarrow> rat" where
  "attr_value i a = (if attr_id a = Num (Fin i) then (case attr_number a of Fin x \<Rightarrow> x | _ \<Rightarrow> 0) else 0)"

definition attrs_value :: "rat \<Rightarrow> attr_item list \<Rightarrow> rat" where
  "attrs_value i xs = sum_list (map (attr_value i) xs)"

definition request_value :: "rat \<Rightarrow> request \<Rightarrow> rat" where
  "request_value i r = (case rep_attrs (rq_report r) of None \<Rightarrow> 0 | Some xs \<Rightarrow> attrs_value i xs)"

definition total :: "rat \<Rightarrow> sys \<Rightarrow> rat" where
  "total i s = attrs_value i (attrs s) + sum_list (map (request_value i) (requests s))"

text \<open>Events that report attributes do so with numbers, by adding.\<close>

fun plain_event :: "event \<Rightarrow> bool" where
  "plain_event (ReportAttr op i n) =
     (op = Add \<and> (case i of Num (Fin j) \<Rightarrow> True | _ \<Rightarrow> False) \<and> (case n of Num (Fin x) \<Rightarrow> True | _ \<Rightarrow> False))"
| "plain_event _ = True"

fun contribution :: "rat \<Rightarrow> event \<Rightarrow> rat" where
  "contribution i (ReportAttr op (Num (Fin j)) (Num (Fin x))) = (if j = i \<and> 0 < x then x else 0)"
| "contribution i _ = 0"

definition num_attr :: "attr_item \<Rightarrow> bool" where
  "num_attr a = (\<exists>j x. attr_id a = Num (Fin j) \<and> attr_number a = Fin x)"

definition plain :: "sys \<Rightarrow> bool" where
  "plain s = list_all num_attr (attrs s)"

definition holds_total :: "rat \<Rightarrow> rat \<Rightarrow> sys \<Rightarrow> bool" where
  "holds_total i c s = (plain s \<and> total i s = c)"

lemma holds_total_send: "holds_total i c s \<Longrightarrow> holds_total i c (u_report_to_server d s)"
  using report_effect [of s d]
  by (auto simp: holds_total_def plain_def total_def hands_over_def request_value_def
      attrs_value_def dest: keeps_data_simps)

interpretation conserve: reporter_frame "holds_total i c" for i c
  by unfold_locales
    (auto simp: holds_total_send, auto simp: holds_total_def plain_def total_def core_def
      clearTimeout_def setTimeout_def)

lemma bump_attr_value:
  "bump_attr Add (Num (Fin j)) (Fin x) xs = Some ys \<Longrightarrow>
    list_all num_attr xs \<Longrightarrow>
    attrs_value i ys = attrs_value i xs + (if i = j then x else 0) \<and> list_all num_attr ys"
proof (induction xs arbitrary: ys)
  case (Cons a xs)
  then obtain k y where a: "attr_id a = Num (Fin k)" "attr_number a = Fin y"
    by (auto simp: num_attr_def)
  show ?case
  proof (cases "k = j")
    case True
    with Cons.prems a show ?thesis by (auto simp: attrs_value_def attr_value_def num_attr_def)
  next
    case False
    with Cons.prems(1) a obtain zs where "bump_attr Add (Num (Fin j)) (Fin x) xs = Some zs" "ys = a # zs"
      by auto
    with Cons.IH [of zs] Cons.prems(2) show ?thesis by (simp add: attrs_value_def)
  qed
qed simp

lemma put_attr_total:
  assumes "holds_total i c s"
  shows "holds_total i (c + (if i = j then x else 0))
    (s\<lparr>attrs := put_attr Add (Num (Fin j)) (Fin x) (attrs s)\<rparr>)"
proof (cases "bump_attr Add (Num (Fin j)) (Fin x) (attrs s)")
  case None
  with assms show ?thesis
    by (auto simp: holds_total_def plain_def total_def put_attr_def attrs_value_def attr_value_def num_attr_def)
next
  case (Some ys)
  with assms bump_attr_value [OF Some, of i] show ?thesis
    by (auto simp: holds_total_def plain_def total_def put_attr_def)
qed

lemma report_attr_total:
  assumes "holds_total i c s"
  shows "holds_total i (c + (if i = j \<and> 0 < x then x else 0))
    (u_inner_xrk_report_attr Add (Num (Fin j)) (Num (Fin x)) s)"
proof (cases "0 < x")
  case True
  define s1 where "s1 = s\<lparr>attrs := put_attr Add (Num (Fin j)) (Fin x) (attrs s)\<rparr>"
  have s1: "holds_total i (c + (if i = j then x else 0)) s1"
    unfolding s1_def by (rule put_attr_total [OF assms])
  have "u_inner_xrk_report_attr Add (Num (Fin j)) (Num (Fin x)) s \<in> {s1, flush_full s1}"
    using True by (auto simp: u_inner_xrk_report_attr_def s1_def put_attr_def Let_def split: option.splits)
  with s1 conserve.flush [OF s1] True show ?thesis by auto
qed (use assms in \<open>simp add: u_inner_xrk_report_attr_def\<close>)

lemma step_total:
  assumes "holds_total i c s" "plain_event e"
  shows "holds_total i (c + contribution i e) (step penv e s)"
proof (cases "\<exists>op j n. e = ReportAttr op j n")
  case True
  with assms(2) obtain j x where "e = ReportAttr Add (Num (Fin j)) (Num (Fin x))"
    by (auto split: jsval.splits jnum.splits)
  with report_attr_total [OF assms(1), of j x] show ?thesis
    by (auto simp: eq_commute)
next
  case False
  then have "contribution i e = 0" by (cases e) auto
  with False conserve.other_event [OF assms(1), of e penv] show ?thesis by auto
qed

lemma run_total:
  "holds_total i c s \<Longrightarrow> \<forall>e \<in> set es. plain_event e \<Longrightarrow>
    holds_total i (c + sum_list (map (contribution i) es)) (run penv es s)"
proof (induction es arbitrary: c s)
  case (Cons e es)
  from Cons.IH [OF step_total [OF Cons.prems(1)]] Cons.prems(2) show ?case
    by (simp add: run_def add.assoc)
qed (simp add: run_def)

lemma start_total: "fresh_browser b \<Longrightarrow> holds_total i 0 (start penv d b)"
  by (rule conserve.init_inv)
    (auto simp: holds_total_def plain_def total_def attrs_value_def fresh_browser_def)

end
