(* ===== verification/Xrk_Props.thy ===== *)
theory Xrk_Props
  imports Xrk_Safety
begin

text \<open>
  The properties of the reporter: what its users may rely on, and the two places where it
  does not do what it means to (a stall after a lost response, strings over fifty
  characters).
\<close>

section \<open>A stalled reporter\<close>

text \<open>
  A request is marked as in flight but no response can come any more, a delayed report is
  marked as pending but its timer is gone, and no logs are configured.
\<close>

definition stalled :: "sys \<Rightarrow> bool" where
  "stalled s = (last_req_seq s \<noteq> 0 \<and> last_delay_timer_id s \<noteq> 0 \<and> inflight s = []
     \<and> (\<forall>t \<in> set (timers s). tm_cb t = TryCb) \<and> log_config_id s = 0)"

fun quiet_event :: "event \<Rightarrow> bool" where
  "quiet_event (InitLog c) = False"
| "quiet_event (OpenInit (Some l) u) = False"
| "quiet_event (CloudInit (Some l) u k) = False"
| "quiet_event _ = True"

definition stuck_at :: "request list \<Rightarrow> sys \<Rightarrow> bool" where
  "stuck_at rs s = (stalled s \<and> requests s = rs)"

lemma stuck_at_frame:
  "stuck_at rs s \<Longrightarrow> last_req_seq s' = last_req_seq s \<Longrightarrow> last_delay_timer_id s' = last_delay_timer_id s \<Longrightarrow>
    inflight s' = inflight s \<Longrightarrow> log_config_id s' = log_config_id s \<Longrightarrow> requests s' = requests s \<Longrightarrow>
    (\<forall>t \<in> set (timers s'). t \<in> set (timers s) \<or> tm_cb t = TryCb) \<Longrightarrow> stuck_at rs s'"
  by (auto simp: stuck_at_def stalled_def)

lemma stuck_report [simp]: "stuck_at rs s \<Longrightarrow> u_report_to_server d s = s"
  by (simp add: stuck_at_def stalled_def u_report_to_server_def)

lemma stuck_flush: "stuck_at rs s \<Longrightarrow> stuck_at rs (flush_full s)"
proof -
  assume s: "stuck_at rs s"
  have "stuck_at rs (clearTimeout (last_delay_timer_id s) s)"
    by (rule stuck_at_frame [OF s]) (auto simp: clearTimeout_def)
  then show ?thesis using s by (simp add: flush_full_def)
qed

lemma stuck_try: "stuck_at rs s \<Longrightarrow> stuck_at rs (u_try_report_to_server s)"
proof -
  assume s: "stuck_at rs s"
  have eq: "report_to_server None s' = s'" if "stuck_at rs s'" for s'
    using that by (simp add: report_to_server_def stuck_at_def stalled_def)
  have "stuck_at rs (s\<lparr>plugins := ps\<rparr>)" "stuck_at rs (s\<lparr>last_show_try_info_time := x, plugins := ps\<rparr>)" for ps x
    by (rule stuck_at_frame [OF s]; simp)+
  then show ?thesis
    by (auto simp: u_try_report_to_server_def Let_def eq setTimeout_def stuck_at_def stalled_def)
qed

lemma stuck_fire: "stuck_at rs s \<Longrightarrow> stuck_at rs (fire i s)"
proof (cases "find (\<lambda>t. tm_id t = i \<and> tm_due t \<le> now s) (timers s)")
  case (Some t)
  assume s: "stuck_at rs s"
  from Some have "t \<in> set (timers s)" by (auto simp: find_Some_iff dest: nth_mem)
  with s have "tm_cb t = TryCb" by (simp add: stuck_at_def stalled_def)
  moreover have "stuck_at rs (clearTimeout i s)"
    by (rule stuck_at_frame [OF s]) (auto simp: clearTimeout_def)
  ultimately show ?thesis using Some by (simp add: fire_def run_timer_def stuck_try)
qed (simp add: fire_def)

lemma stuck_attr: "stuck_at rs s \<Longrightarrow> stuck_at rs (u_inner_xrk_report_attr op i n s)"
proof -
  assume s: "stuck_at rs s"
  have "stuck_at rs (s\<lparr>attrs := xs\<rparr>)" for xs by (rule stuck_at_frame [OF s]) simp_all
  with s show ?thesis
    by (auto simp: u_inner_xrk_report_attr_def Let_def stuck_flush split: jsval.splits option.splits)
qed

lemma stuck_strattr: "stuck_at rs s \<Longrightarrow> stuck_at rs (u_inner_xrk_report_strattr op i t n s)"
proof -
  assume s: "stuck_at rs s"
  have "stuck_at rs (s\<lparr>strattrs := xs\<rparr>)" "stuck_at rs (s\<lparr>strattrs := xs, cur_strattrs_strlen := c\<rparr>)" for xs c
    by (rule stuck_at_frame [OF s]; simp)+
  with s show ?thesis
    by (auto simp: u_inner_xrk_report_strattr_def Let_def stuck_flush
        split: jsval.splits option.splits prod.splits)
qed

lemma stuck_script: "stuck_at rs s \<Longrightarrow> stuck_at rs (script_loaded penv k s)"
proof -
  assume s: "stuck_at rs s"
  have load: "stuck_at rs (u_load_plugin name s')" if "stuck_at rs s'" for name s'
    by (rule stuck_at_frame [OF that]) (auto simp: u_load_plugin_def load_script_def)
  have add: "stuck_at rs (fold (\<lambda>name s. if name \<noteq> [] then u_load_plugin name s else s) ns s')"
    if "stuck_at rs s'" for ns s'
    using that by (induction ns arbitrary: s') (simp_all add: load)
  let ?s = "s\<lparr>loading := take k (loading s) @ drop (Suc k) (loading s)\<rparr>"
  have s1: "stuck_at rs ?s" "stuck_at rs (?s\<lparr>has_json := True\<rparr>)"
    by (rule stuck_at_frame [OF s]; simp)+
  have "stuck_at rs (start_timer (u_add_plugins (?s\<lparr>has_json := True\<rparr>)))"
    by (rule stuck_at_frame [OF add [OF s1(2)]])
      (auto simp: start_timer_def setTimeout_def u_add_plugins_def)
  moreover have "stuck_at rs (on_config_loaded penv n ?s)" "stuck_at rs (on_plugin_loaded penv n c ?s)" for n c
    by (rule stuck_at_frame [OF s]; auto simp: on_config_loaded_def on_plugin_loaded_def load_script_def
          Let_def u_try_set_config_def split: option.splits jsval.splits jnum.splits)+
  ultimately show ?thesis using s s1
    by (auto simp: script_loaded_def run_script_def split: script_cb.splits)
qed

lemma stuck_log: "stuck_at rs s \<Longrightarrow> stuck_at rs (report_log l msg pos s)"
  by (auto simp: stuck_at_def stalled_def report_log_def report_error_log_def report_warn_log_def
      report_reqerr_log_def report_info_log_def report_debug_log_def u_report_log_def
      split: log_level.splits option.splits)

lemma stuck_others:
  assumes s: "stuck_at rs s"
  shows "stuck_at rs (set_debug b s)" "stuck_at rs (reg_on_response f s)" "stuck_at rs (request_fails q s)"
    "stuck_at rs (plugin_log k l s)" "stuck_at rs (window_fails k j s)" "stuck_at rs (s\<lparr>now := x\<rparr>)"
    "stuck_at rs (join_window penv s)"
  using s
  by (auto simp: stuck_at_def stalled_def set_debug_def reg_on_response_def request_fails_def
      plugin_log_def window_fails_def join_window_def plugins_add_monitor_def split: prod.splits)

lemma stuck_step:
  assumes s: "stuck_at rs s" and q: "quiet_event e"
  shows "stuck_at rs (step penv e s)"
proof (cases e)
  case (OpenInit l u)
  with q show ?thesis using stuck_at_frame [OF s]
    by (cases l) (auto simp: open_init_report_def split: option.splits)
next
  case (CloudInit l u k)
  with q show ?thesis using stuck_at_frame [OF s]
    by (cases l) (auto simp: cloud_init_report_def Let_def split: option.splits)
next
  case (ReportToServer d)
  with s show ?thesis by (auto simp: report_to_server_def Let_def stuck_at_def stalled_def)
next
  case (Respond q r)
  with s show ?thesis by (simp add: respond_def stuck_at_def stalled_def)
qed (use q s in \<open>simp_all add: stuck_attr stuck_strattr stuck_log stuck_fire stuck_script stuck_others\<close>)

lemma stuck_run: "stuck_at rs s \<Longrightarrow> \<forall>e \<in> set es. quiet_event e \<Longrightarrow> stuck_at rs (run penv es s)"
  unfolding run_def by (induction es arbitrary: s) (auto simp: stuck_step)

section \<open>Start-up\<close>

text \<open>A page whose current script is the reporting script, in a browser with JSON and XHR.\<close>

definition ready_browser :: "sys \<Rightarrow> bool" where
  "ready_browser b = (fresh_browser b \<and> has_json b \<and> has_xhr b
     \<and> (\<exists>u. current_script b = Some u \<and> u \<noteq> [] \<and> js_contains (js ''dmt_xrkmonitor.js'') u))"

lemma fold_load_plugins:
  "\<exists>ls. fold (\<lambda>name s. if name \<noteq> [] then u_load_plugin name s else s) ns s = s\<lparr>loading := ls\<rparr>"
proof (induction ns arbitrary: s)
  case Nil
  have "s = s\<lparr>loading := loading s\<rparr>" by simp
  then show ?case by (metis fold_simps(1))
next
  case (Cons n ns)
  have "\<exists>ls. (if n \<noteq> [] then u_load_plugin n s else s) = s\<lparr>loading := ls\<rparr>"
    by (cases "n = []") (auto simp: u_load_plugin_def load_script_def intro: exI [of _ "loading s"])
  then obtain ls where "(if n \<noteq> [] then u_load_plugin n s else s) = s\<lparr>loading := ls\<rparr>" by blast
  with Cons.IH [of "s\<lparr>loading := ls\<rparr>"] show ?case by auto
qed

lemma new_xrk_names [simp]:
  "js_self_name (new_xrk b) = js ''dmt_xrkmonitor.js''"
  "report_url (new_xrk b) = js ''http://xrkmonitor.com/cgi-bin/mt_slog_reportinfo''"
  "cur_strattrs_strlen (new_xrk b) = 0" "cur_logs_strlen (new_xrk b) = 0" "debug (new_xrk b) = False"
  by (simp_all add: new_xrk_def xrk.defs configured_def Xrkmonitor_obj_def Xrkmonitor_config_def)

lemma start_form:
  assumes "ready_browser b"
  shows "\<exists>u ls. start penv d b =
    (new_xrk b)\<lparr>debug := d, init_win_domain := domain b, api_js_url := u, req_seq := 1, loading := ls,
       next_timer := 2, timers := [\<lparr>tm_id = 1, tm_cb = TryCb, tm_due = now b + try_timer_ms\<rparr>]\<rparr>"
proof -
  obtain u where u: "current_script b = Some u" "u \<noteq> []" "js_contains (js ''dmt_xrkmonitor.js'') u"
    using assms by (auto simp: ready_browser_def)
  define s where "s = (new_xrk b)\<lparr>debug := d, init_win_domain := domain b, api_js_url := u, req_seq := 1\<rparr>"
  have b: "has_json b" "timers b = []" "next_timer b = 1"
    using assms by (auto simp: ready_browser_def fresh_browser_def)
  obtain ls where ls: "u_add_plugins s = s\<lparr>loading := ls\<rparr>"
    using fold_load_plugins unfolding u_add_plugins_def by blast
  have "start penv d b = start_timer (u_add_plugins s)"
    using u b by (simp add: start_def Xrkmonitor_def u_init_start_def u_init_def Let_def
        get_cur_js_url_def s_def)
  also have "\<dots> = s\<lparr>loading := ls, next_timer := 2,
      timers := [\<lparr>tm_id = 1, tm_cb = TryCb, tm_due = now b + try_timer_ms\<rparr>]\<rparr>"
    unfolding ls using b by (simp add: start_timer_def setTimeout_def s_def)
  finally show ?thesis unfolding s_def by blast
qed

section \<open>Reaching the stall\<close>

definition fill_events :: "nat \<Rightarrow> event list" where
  "fill_events n = map (\<lambda>k. ReportAttr Add (NumI (int k)) (NumI 1)) [0..<n]"

definition fill_attrs :: "nat \<Rightarrow> attr_item list" where
  "fill_attrs n = map (\<lambda>k. \<lparr>attr_id = NumI (int k), attr_number = Fin 1\<rparr>) [0..<n]"

lemma fill_attrs_fresh: "bump_attr Add (NumI (int n)) (Fin 1) (fill_attrs n) = None"
  by (auto simp: bump_attr_None fill_attrs_def)

lemma fill_attrs_Suc: "fill_attrs (Suc n) = fill_attrs n @ [\<lparr>attr_id = NumI (int n), attr_number = Fin 1\<rparr>]"
  by (simp add: fill_attrs_def)

lemma length_fill_attrs [simp]: "length (fill_attrs n) = n"
  by (simp add: fill_attrs_def)

lemma run_append: "run penv (es @ fs) s = run penv fs (run penv es s)"
  by (simp add: run_def)

lemma run_fill_Suc:
  "run penv (fill_events (Suc n)) s
    = u_inner_xrk_report_attr Add (NumI (int n)) (NumI 1) (run penv (fill_events n) s)"
  by (simp add: fill_events_def run_def)

lemma run_fill:
  "n < max_attrs_per_req \<Longrightarrow> attrs s = [] \<Longrightarrow> run penv (fill_events n) s = s\<lparr>attrs := fill_attrs n\<rparr>"
proof (induction n)
  case 0
  then show ?case by (simp add: run_def fill_events_def fill_attrs_def)
next
  case (Suc n)
  then have "run penv (fill_events n) s = s\<lparr>attrs := fill_attrs n\<rparr>" by simp
  with Suc.prems fill_attrs_fresh [of n] show ?case
    by (simp add: run_fill_Suc u_inner_xrk_report_attr_def fill_attrs_Suc)
qed

text \<open>With a request in flight and a delayed report pending, the 120th value loses the timer.\<close>

lemma fill_stalls:
  assumes "attrs s = []" "last_req_seq s \<noteq> 0" "last_delay_timer_id s \<noteq> 0" "inflight s = []"
    "log_config_id s = 0" "timer_inv s"
  shows "stuck_at (requests s) (run penv (fill_events max_attrs_per_req) s)
    \<and> length (attrs (run penv (fill_events max_attrs_per_req) s)) = max_attrs_per_req"
proof -
  let ?n = "119"
  define s1 where "s1 = s\<lparr>attrs := fill_attrs (Suc ?n)\<rparr>"
  have n: "max_attrs_per_req = Suc ?n" by (simp add: xrk_constants)
  have "run penv (fill_events (Suc ?n)) s
      = u_inner_xrk_report_attr Add (NumI (int ?n)) (NumI 1) (run penv (fill_events ?n) s)"
    by (rule run_fill_Suc)
  also have "run penv (fill_events ?n) s = s\<lparr>attrs := fill_attrs ?n\<rparr>"
    by (rule run_fill) (simp_all add: xrk_constants assms)
  also have "u_inner_xrk_report_attr Add (NumI (int ?n)) (NumI 1) (s\<lparr>attrs := fill_attrs ?n\<rparr>) = flush_full s1"
    using fill_attrs_fresh [of ?n] fill_attrs_Suc [of ?n]
    by (simp add: u_inner_xrk_report_attr_def xrk_constants s1_def)
  also have "flush_full s1 = clearTimeout (last_delay_timer_id s) s1"
    using assms by (simp add: flush_full_def s1_def u_report_to_server_def clearTimeout_def)
  finally have r: "run penv (fill_events max_attrs_per_req) s = clearTimeout (last_delay_timer_id s) s1"
    using n by simp
  show ?thesis unfolding r using assms
    by (auto simp: stuck_at_def stalled_def s1_def clearTimeout_def timer_inv_def n)
qed

lemma timer_inv_start: "fresh_browser b \<Longrightarrow> timer_inv (start penv d b)"
  by (rule tmrs.init_inv) (auto simp: timer_inv_def fresh_browser_def)

definition stall_prefix :: "event list" where
  "stall_prefix = [ReportAttr Add (NumI 0) (NumI 1), ReportToServer None, RequestFails 1, ReportToServer None]"

lemma stall_prefix_run:
  assumes "ready_browser b"
  shows "attrs (run penv stall_prefix (start penv d b)) = []"
    "last_req_seq (run penv stall_prefix (start penv d b)) \<noteq> 0"
    "last_delay_timer_id (run penv stall_prefix (start penv d b)) \<noteq> 0"
    "inflight (run penv stall_prefix (start penv d b)) = []"
    "log_config_id (run penv stall_prefix (start penv d b)) = 0"
proof -
  obtain u ls where st: "start penv d b =
    (new_xrk b)\<lparr>debug := d, init_win_domain := domain b, api_js_url := u, req_seq := 1, loading := ls,
       next_timer := 2, timers := [\<lparr>tm_id = 1, tm_cb = TryCb, tm_due = now b + try_timer_ms\<rparr>]\<rparr>"
    using start_form [OF assms] by blast
  have b: "has_json b" "has_xhr b" "0 < now b" "inflight b = []" "requests b = []"
    using assms by (auto simp: ready_browser_def fresh_browser_def)
  define s1 where "s1 = run penv [ReportAttr Add (NumI 0) (NumI 1)] (start penv d b)"
  have s1: "s1 = (start penv d b)\<lparr>attrs := [\<lparr>attr_id = NumI 0, attr_number = Fin 1\<rparr>]\<rparr>"
    by (simp add: s1_def run_def st u_inner_xrk_report_attr_def xrk_constants)
  define s2 where "s2 = report_to_server None s1"
  have "attrs s2 = []" "last_req_seq s2 = 1" "last_delay_timer_id s2 = 0" "report_url s2 \<noteq> []"
    "inflight s2 = [] \<or> inflight s2 = [1]" "log_config_id s2 = 0" "next_timer s2 = 2"
    using b by (auto simp: s2_def s1 st report_to_server_def u_report_to_server_def Let_def build_report_def
        u_to_server_def send_request_def clear_queues_def js_def)
  moreover have "run penv stall_prefix (start penv d b) = report_to_server None (request_fails 1 s2)"
    by (simp add: stall_prefix_def run_def s1_def s2_def)
  ultimately show "attrs (run penv stall_prefix (start penv d b)) = []"
    "last_req_seq (run penv stall_prefix (start penv d b)) \<noteq> 0"
    "last_delay_timer_id (run penv stall_prefix (start penv d b)) \<noteq> 0"
    "inflight (run penv stall_prefix (start penv d b)) = []"
    "log_config_id (run penv stall_prefix (start penv d b)) = 0"
    by (auto simp: report_to_server_def u_report_to_server_def request_fails_def setTimeout_def)
qed

lemma stall_reached:
  assumes "ready_browser b"
  shows "\<exists>rs. stuck_at rs (run penv (stall_prefix @ fill_events max_attrs_per_req) (start penv d b))
    \<and> length (attrs (run penv (stall_prefix @ fill_events max_attrs_per_req) (start penv d b))) = max_attrs_per_req"
proof -
  have "fresh_browser b" using assms by (simp add: ready_browser_def)
  then have "timer_inv (run penv stall_prefix (start penv d b))"
    by (intro tmrs.run_inv timer_inv_start)
  from fill_stalls [OF stall_prefix_run [OF assms] this] show ?thesis
    unfolding run_append by blast
qed

section \<open>Helper lemmas for the properties\<close>

text \<open>A page for the examples below.\<close>

definition sample_browser :: sys where
  "sample_browser = xrk.extend Xrkmonitor_obj
     (sys.fields 1000 1 [] [] [] 0 True True True (js ''a.com'')
        (Some (js ''http://a.com/dmt_xrkmonitor.js'')) [] [] [])"

definition no_plugins :: plugin_env where
  "no_plugins = (\<lambda>_. \<lparr>src_config = None, src_create = None\<rparr>)"

lemma sample_ready: "ready_browser sample_browser"
proof -
  have "js_contains (js ''dmt_xrkmonitor.js'') (js ''http://a.com/dmt_xrkmonitor.js'')"
    by (simp add: js_contains_def js_def)
  then show ?thesis
    by (simp add: ready_browser_def fresh_browser_def sample_browser_def sys.defs xrk.defs
        Xrkmonitor_obj_def js_def)
qed

lemma sample_fresh: "fresh_browser sample_browser"
  using sample_ready by (simp add: ready_browser_def)

definition sample_start :: sys where
  "sample_start = start no_plugins False sample_browser"

lemma sample_reachable: "reachable no_plugins sample_start"
  unfolding sample_start_def by (rule reachable.start [OF sample_fresh])

lemma run_reachable: "reachable penv s \<Longrightarrow> reachable penv (run penv es s)"
  unfolding run_def by (induction es arbitrary: s) (auto intro: reachable.step)

lemma sample_fields:
  "timers sample_start = [\<lparr>tm_id = 1, tm_cb = TryCb, tm_due = 2200\<rparr>]"
  "now sample_start = 1000" "attrs sample_start = []" "last_req_seq sample_start = 0"
  "report_url sample_start \<noteq> []" "has_xhr sample_start" "has_json sample_start"
  "freq_send_start_time sample_start = 0" "last_delay_timer_id sample_start = 0"
  "strattrs sample_start = []" "requests sample_start = []" "log_config_id sample_start = 0"
  "next_timer sample_start = 2" "req_seq sample_start = 1" "send_works sample_start"
  "inflight sample_start = []" "logs sample_start = []" "plugins sample_start = []"
proof -
  have b: "now sample_browser = 1000" "has_json sample_browser" "has_xhr sample_browser"
    "requests sample_browser = []" "send_works sample_browser" "inflight sample_browser = []"
    by (simp_all add: sample_browser_def sys.defs xrk.defs Xrkmonitor_obj_def)
  obtain u ls where st: "sample_start =
    (new_xrk sample_browser)\<lparr>debug := False, init_win_domain := domain sample_browser, api_js_url := u,
       req_seq := 1, loading := ls, next_timer := 2,
       timers := [\<lparr>tm_id = 1, tm_cb = TryCb, tm_due = now sample_browser + try_timer_ms\<rparr>]\<rparr>"
    using start_form [OF sample_ready] unfolding sample_start_def by blast
  show "timers sample_start = [\<lparr>tm_id = 1, tm_cb = TryCb, tm_due = 2200\<rparr>]"
    "now sample_start = 1000" "attrs sample_start = []" "last_req_seq sample_start = 0"
    "report_url sample_start \<noteq> []" "has_xhr sample_start" "has_json sample_start"
    "freq_send_start_time sample_start = 0" "last_delay_timer_id sample_start = 0"
    "strattrs sample_start = []" "requests sample_start = []" "log_config_id sample_start = 0"
    "next_timer sample_start = 2" "req_seq sample_start = 1" "send_works sample_start"
    "inflight sample_start = []" "logs sample_start = []" "plugins sample_start = []"
    by (simp_all add: st b xrk_constants js_def)
qed

lemma reachable_seq: "reachable penv s \<Longrightarrow> seq_inv s"
  by (rule seqs.reachable_inv) (auto simp: seq_inv_def fresh_browser_def)

lemma reachable_data: "reachable penv s \<Longrightarrow> data_inv s"
  by (rule data.reachable_inv)
    (auto simp: data_inv_def fresh_browser_def attrs_ok_def strattrs_ok_def)

lemma reachable_timers: "reachable penv s \<Longrightarrow> timer_inv s"
  by (rule tmrs.reachable_inv) (auto simp: timer_inv_def fresh_browser_def)

lemma reachable_freq: "reachable penv s \<Longrightarrow> freq_inv s"
proof (rule freq.reachable_inv)
  fix s assume "freq_inv s"
  then show "freq_inv (s\<lparr>req_seq := req_seq s + 1\<rparr>)" by (rule freq_inv_frame) simp_all
qed (auto simp: freq_inv_def fresh_browser_def in_window_def xrk_constants)

text \<open>When a report is sent rather than put off.\<close>

definition may_send :: "sys \<Rightarrow> bool" where
  "may_send s = (has_xhr s \<and> has_json s \<and> (attrs s \<noteq> [] \<or> strattrs s \<noteq> [] \<or> logs s \<noteq> []
       \<or> (\<exists>x \<in> set (plugin_logs s). snd x \<noteq> []))
     \<and> (freq_send_start_time s = 0 \<or> now s > freq_send_start_time s + freq_check_time
        \<or> freq_request_times s < freq_check_limit_times))"

lemma build_report_need:
  "attrs s \<noteq> [] \<or> strattrs s \<noteq> [] \<or> logs s \<noteq> [] \<or> (\<exists>x \<in> set (plugin_logs s). snd x \<noteq> []) \<Longrightarrow>
    fst (snd (build_report s))"
  by (auto simp: build_report_def Let_def plugin_logs_def first_log_plugin_None
      split: prod.splits option.splits)

lemma to_server_accepts:
  assumes "has_xhr s" "freq_send_start_time s = 0 \<or> now s > freq_send_start_time s + freq_check_time
      \<or> freq_request_times s < freq_check_limit_times"
  shows "snd (u_to_server rep s)"
  using assms by (auto simp: u_to_server_def Let_def)

lemma plugin_logs_canceled [simp]: "plugin_logs (canceled s) = plugin_logs s"
  by (simp add: plugin_logs_def)

lemma report_sends:
  assumes "may_send s" "last_req_seq s = 0"
  shows "hands_over s (u_report_to_server None s)"
proof -
  obtain rep need who where b: "build_report (canceled s) = (rep, need, who)"
    by (metis prod_cases3)
  have need using build_report_need [of "canceled s"] assms(1) b by (auto simp: may_send_def)
  obtain s' ok where u: "u_to_server rep ((canceled s)\<lparr>cur_strattrs_strlen := 0, cur_logs_strlen := 0\<rparr>) = (s', ok)"
    by (metis prod.exhaust)
  have ok using to_server_accepts [of "(canceled s)\<lparr>cur_strattrs_strlen := 0, cur_logs_strlen := 0\<rparr>" rep]
      u assms(1) by (auto simp: may_send_def)
  have "u_report_to_server None s = clear_queues who s'"
    using assms b u \<open>need\<close> \<open>ok\<close>
    by (simp add: u_report_to_server_def canceled_def [symmetric] Let_def may_send_def)
  with handed_over [OF b, of s'] u \<open>ok\<close> show ?thesis by simp
qed

lemma hands_over_cong:
  "hands_over s1 t \<Longrightarrow> requests s1 = requests s \<Longrightarrow> req_seq s1 = req_seq s \<Longrightarrow> now s1 = now s \<Longrightarrow>
    attrs s1 = attrs s \<Longrightarrow> strattrs s1 = strattrs s \<Longrightarrow> logs s1 = logs s \<Longrightarrow>
    log_config_id s1 = log_config_id s \<Longrightarrow> report_url s1 = report_url s \<Longrightarrow>
    plugin_logs s1 = plugin_logs s \<Longrightarrow> hands_over s t"
  by (simp only: hands_over_def)

lemma try_sends:
  assumes "may_send s" "last_req_seq s = 0" "report_url s \<noteq> []"
  shows "\<exists>s1. hands_over s s1 \<and> u_try_report_to_server s = fst (setTimeout TryCb try_timer_ms s1)"
proof -
  define s0 where "s0 = (if debug s \<and> now s \<ge> last_show_try_info_time s + 30000
      then s\<lparr>last_show_try_info_time := now s\<rparr> else s)"
  define s1 where "s1 = canceled (s0\<lparr>plugins := map (\<lambda>p. p\<lparr>monitor_win_list := drop_exception (monitor_win_list p)\<rparr>)
                  (plugins s0)\<rparr>)"
  have "may_send s1" "last_req_seq s1 = 0"
    using assms by (simp_all add: may_send_def s1_def s0_def plugin_logs_def)
  then have "hands_over s1 (u_report_to_server None s1)" by (rule report_sends)
  then have "hands_over s (u_report_to_server None s1)"
    by (rule hands_over_cong) (simp_all add: s1_def s0_def plugin_logs_def comp_def)
  moreover have "u_try_report_to_server s = fst (setTimeout TryCb try_timer_ms (u_report_to_server None s1))"
    using assms(2,3)
    by (simp add: u_try_report_to_server_def Let_def report_to_server_def s1_def canceled_def s0_def)
  ultimately show ?thesis by blast
qed

lemma find_timer:
  "timer_inv s \<Longrightarrow> t \<in> set (timers s) \<Longrightarrow> tm_due t \<le> now s \<Longrightarrow>
    find (\<lambda>u. tm_id u = tm_id t \<and> tm_due u \<le> now s) (timers s) = Some t"
proof -
  assume "timer_inv s" "t \<in> set (timers s)" "tm_due t \<le> now s"
  then have d: "distinct (map tm_id (timers s))" by (simp add: timer_inv_def)
  have "find (\<lambda>u. tm_id u = tm_id t \<and> tm_due u \<le> now s) (timers s) \<noteq> None"
    using \<open>t \<in> set (timers s)\<close> \<open>tm_due t \<le> now s\<close> by (auto simp: find_None_iff)
  then obtain u where u: "find (\<lambda>u. tm_id u = tm_id t \<and> tm_due u \<le> now s) (timers s) = Some u" by blast
  then have "u \<in> set (timers s)" "tm_id u = tm_id t" by (auto simp: find_Some_iff dest: nth_mem)
  with d \<open>t \<in> set (timers s)\<close> have "u = t" by (auto simp: distinct_map inj_on_def)
  with u show ?thesis by simp
qed

lemma plugins_windows_report:
  "map monitor_win_list (plugins (u_report_to_server d s)) = map monitor_win_list (plugins s)"
proof (cases rule: u_report_to_server_cases [of d s])
  case (handed rep who s' ok)
  have "plugins s' = plugins s"
    using xhr.accepted [of rep _ s'] xhr.refused [of rep _ s'] handed(5)
    by (cases ok) (fastforce simp: queues_def)+
  moreover have "map monitor_win_list (plugins (clear_queues who s')) = map monitor_win_list (plugins s')"
    by (auto simp: clear_queues_def Let_def map_update list_update_same_conv split: option.splits)
      (metis list_update_id map_update list_update_beyond not_le_imp_less nth_map)
  ultimately show ?thesis using handed by simp
qed (auto simp: setTimeout_def)

lemma plugins_windows_try:
  "map monitor_win_list (plugins (u_try_report_to_server s)) =
    map drop_exception (map monitor_win_list (plugins s))"
  by (auto simp: u_try_report_to_server_def Let_def report_to_server_def setTimeout_def
      plugins_windows_report clearTimeout_def)

lemma drop_exception_power:
  "length (filter b_exception ms) \<le> n \<Longrightarrow>
    (drop_exception ^^ n) ms = filter (\<lambda>m. \<not> b_exception m) ms"
proof (induction n arbitrary: ms)
  case 0
  then show ?case by (simp add: filter_empty_conv)
next
  case (Suc n)
  have keep: "filter (\<lambda>m. \<not> b_exception m) (drop_exception ms) = filter (\<lambda>m. \<not> b_exception m) ms"
    by (induction ms) auto
  have "length (filter b_exception (drop_exception ms)) = length (filter b_exception ms) - 1"
    by (induction ms) auto
  with Suc.prems have "(drop_exception ^^ n) (drop_exception ms) = filter (\<lambda>m. \<not> b_exception m) ms"
    using Suc.IH [of "drop_exception ms"] keep by simp
  then show ?case by (simp add: funpow_swap1)
qed

definition sent_example :: sys where
  "sent_example = run no_plugins [ReportAttr Add (NumI 1) (NumI 1), ReportToServer None] sample_start"

lemma sent_example_fields:
  "attrs sent_example = []" "last_req_seq sent_example = 1" "last_delay_timer_id sent_example = 0"
  "report_url sent_example \<noteq> []" "now sent_example = 1000" "request_start_time sent_example = 1000"
  "timers sent_example = [\<lparr>tm_id = 1, tm_cb = TryCb, tm_due = 2200\<rparr>]" "next_timer sent_example = 2"
  "freq_send_start_time sent_example = 1000" "has_xhr sent_example" "has_json sent_example"
  "req_seq sent_example = 2" "map rq_seq (requests sent_example) = [1]"
  by (simp_all add: sent_example_def run_def u_inner_xrk_report_attr_def sample_fields xrk_constants
      report_to_server_def u_report_to_server_def u_to_server_def build_report_def send_request_def
      clear_queues_def Let_def)

section \<open>Properties\<close>

text \<open>
  C1: no reported value is lost before it is handed to \<open>XMLHttpRequest\<close> (whether or not its
  \<open>open\<close> or \<open>send\<close> then throws, \<open>rq_ok\<close>) and none is counted twice.
  In every run of a page, whatever timers, responses, failures, refusals and other calls
  come in between, the values queued for an identifier plus those in all requests made so
  far add up to what was reported for it.
\<close>

theorem reported_values_conserved:
  assumes "fresh_browser b" and "\<forall>e \<in> set es. plain_event e"
  shows "total i (run penv es (start penv d b)) = sum_list (map (contribution i) es)"
  using run_total [OF start_total [OF assms(1)] assms(2), of i penv penv d]
  by (simp add: holds_total_def)

theorem reported_values_conserved_witness:
  "total 7 (run no_plugins [ReportAttr Add (NumI 7) (NumI 3), ReportToServer None,
      ReportAttr Add (NumI 7) (NumI 2)] sample_start) = 5"
  using reported_values_conserved [OF sample_fresh, of "[ReportAttr Add (NumI 7) (NumI 3),
      ReportToServer None, ReportAttr Add (NumI 7) (NumI 2)]" 7 no_plugins False]
  by (simp add: sample_start_def)

text \<open>
  C2: \<open>_report_to_server\<close> either leaves everything queued (attributes, strings, the page's
  logs and the plugins with their logs), or, only when no request is in flight, makes exactly one
  new request with the next sequence number. Its report carries all queued attributes and strings
  and one batch of logs, all logs of the page or, if it has none, all logs of the first plugin
  that has any; what it carries is taken off the queues, and the logs of the other plugins stay.
\<close>

theorem report_all_or_nothing:
  "keeps_data s (u_report_to_server d s)
    \<or> d = None \<and> last_req_seq s = 0 \<and> has_json s \<and> hands_over s (u_report_to_server d s)"
  by (rule report_effect)

text \<open>C3: the requests of a page carry strictly increasing sequence numbers, and the next one
  is larger than all of them.\<close>

theorem requests_numbered:
  assumes "reachable penv s"
  shows "sorted_wrt (<) (map rq_seq (requests s)) \<and> (\<forall>r \<in> set (requests s). rq_seq r < req_seq s)"
  using reachable_seq [OF assms] by (simp add: seq_inv_def)

theorem requests_numbered_witness:
  "length (requests sent_example) = 1 \<and> rq_seq (hd (requests sent_example)) < req_seq sent_example"
proof -
  have "reachable no_plugins sent_example"
    unfolding sent_example_def by (rule run_reachable [OF sample_reachable])
  from requests_numbered [OF this] show ?thesis using sent_example_fields by force
qed

text \<open>
  C4: the frequency check works inside its window: of the requests made since the current
  window opened, at most three were made before the window's last moment.
\<close>

theorem rate_limited:
  assumes "reachable penv s"
  shows "length (filter (in_window s) (requests s)) \<le> 3"
  using reachable_freq [OF assms] by (simp add: freq_inv_def xrk_constants)

theorem rate_limited_witness:
  "length (filter (in_window (run no_plugins [ReportAttr Add (NumI 1) (NumI 1), ReportToServer None] sample_start))
     (requests (run no_plugins [ReportAttr Add (NumI 1) (NumI 1), ReportToServer None] sample_start))) \<le> 3"
  by (rule rate_limited [OF run_reachable [OF sample_reachable]])

text \<open>
  C20: at most one delayed report is pending at any time: every pending timer that is not the
  periodic one has the number kept in \<open>last_delay_timer_id\<close>, and timer numbers are distinct.
\<close>

theorem one_delayed_report:
  assumes "reachable penv s" "t \<in> set (timers s)" "u \<in> set (timers s)"
    "tm_cb t \<noteq> TryCb" "tm_cb u \<noteq> TryCb"
  shows "t = u \<and> tm_id t = last_delay_timer_id s"
  using reachable_timers [OF assms(1)] assms(2-) by (auto simp: timer_inv_def distinct_map inj_on_def)

definition delayed_example :: sys where
  "delayed_example = run no_plugins [ReportAttr Add (NumI 1) (NumI 1), ReportToServer (Some 50)] sample_start"

lemma delayed_example_timers:
  "timers delayed_example =
     [\<lparr>tm_id = 1, tm_cb = TryCb, tm_due = 2200\<rparr>, \<lparr>tm_id = 2, tm_cb = DelayCb, tm_due = 1050\<rparr>]"
  by (simp add: delayed_example_def run_def u_inner_xrk_report_attr_def sample_fields xrk_constants
      report_to_server_def u_report_to_server_def setTimeout_def Let_def)

theorem one_delayed_report_witness:
  "\<lparr>tm_id = 2, tm_cb = DelayCb, tm_due = 1050\<rparr> \<in> set (timers delayed_example)
    \<and> 2 = last_delay_timer_id delayed_example"
proof -
  have "reachable no_plugins delayed_example"
    unfolding delayed_example_def by (rule run_reachable [OF sample_reachable])
  from one_delayed_report [OF this, of "\<lparr>tm_id = 2, tm_cb = DelayCb, tm_due = 1050\<rparr>"
      "\<lparr>tm_id = 2, tm_cb = DelayCb, tm_due = 1050\<rparr>"]
  show ?thesis by (simp add: delayed_example_timers)
qed

text \<open>
  C21: what is queued and what is sent is well formed: no two entries of a report have
  identifiers that compare equal, no number is zero or negative, and no string is longer
  than fifty characters.
\<close>

theorem reports_well_formed:
  assumes "reachable penv s"
  shows "attrs_ok (attrs s) \<and> strattrs_ok (strattrs s) \<and> (\<forall>r \<in> set (requests s). report_ok (rq_report r))"
  using reachable_data [OF assms] by (simp add: data_inv_def)

theorem reports_well_formed_witness: "attrs_ok (attrs delayed_example)"
  using reports_well_formed [OF run_reachable [OF sample_reachable]] unfolding delayed_example_def by blast

text \<open>
  C5: the periodic attempt gets the data out. When its timer is due, data is queued, no
  request is in flight and the browser and the frequency check allow a request, one request
  with all attributes and strings and one batch of logs (the page's, or if it has none those
  of the first plugin with logs) is made, what it carries is taken off the queues, and the next
  attempt is scheduled.
\<close>

theorem periodic_attempt_sends:
  assumes "reachable penv s" "t \<in> set (timers s)" "tm_cb t = TryCb" "tm_due t \<le> now s"
    and "may_send s" "last_req_seq s = 0" "report_url s \<noteq> []"
  shows "hands_over s (fire (tm_id t) s)
    \<and> (\<exists>u \<in> set (timers (fire (tm_id t) s)). tm_cb u = TryCb \<and> tm_due u = now s + try_timer_ms)"
proof -
  let ?s = "clearTimeout (tm_id t) s"
  have "may_send ?s" "last_req_seq ?s = 0" "report_url ?s \<noteq> []"
    using assms(5-7) by (simp_all add: may_send_def clearTimeout_def plugin_logs_def)
  then obtain s1 where s1: "hands_over ?s s1"
    "u_try_report_to_server ?s = fst (setTimeout TryCb try_timer_ms s1)"
    using try_sends by blast
  have f: "fire (tm_id t) s = fst (setTimeout TryCb try_timer_ms s1)"
    using find_timer [OF reachable_timers [OF assms(1)] assms(2,4)] assms(3) s1(2)
    by (simp add: fire_def run_timer_def)
  have h: "hands_over s s1" by (rule hands_over_cong [OF s1(1)]) (simp_all add: clearTimeout_def plugin_logs_def)
  then have "hands_over s (fire (tm_id t) s)"
    unfolding f by (simp add: hands_over_def setTimeout_def plugin_logs_def)
  moreover have "now s1 = now s" using h by (auto simp: hands_over_def)
  ultimately show ?thesis unfolding f by (auto simp: setTimeout_def)
qed

definition due_example :: sys where
  "due_example = run no_plugins [ReportAttr Add (NumI 1) (NumI 1), Elapse 1200] sample_start"

theorem periodic_attempt_sends_witness: "hands_over due_example (fire 1 due_example)"
proof -
  have "reachable no_plugins due_example"
    unfolding due_example_def by (rule run_reachable [OF sample_reachable])
  from periodic_attempt_sends [OF this, of "\<lparr>tm_id = 1, tm_cb = TryCb, tm_due = 2200\<rparr>"]
  show ?thesis
    by (simp add: due_example_def run_def u_inner_xrk_report_attr_def sample_fields xrk_constants
        may_send_def)
qed

text \<open>
  A failed window is dropped. However many windows of a plugin have raised an exception,
  after that many periodic attempts exactly the healthy ones are left, in order.
\<close>

theorem failed_windows_dropped:
  assumes "\<forall>p \<in> set (plugins s). length (filter b_exception (monitor_win_list p)) \<le> n"
  shows "map monitor_win_list (plugins ((u_try_report_to_server ^^ n) s))
    = map (\<lambda>p. filter (\<lambda>m. \<not> b_exception m) (monitor_win_list p)) (plugins s)"
proof -
  have "map monitor_win_list (plugins ((u_try_report_to_server ^^ n) s))
      = map (drop_exception ^^ n) (map monitor_win_list (plugins s))"
    by (induction n) (simp_all add: plugins_windows_try)
  also have "\<dots> = map (\<lambda>p. filter (\<lambda>m. \<not> b_exception m) (monitor_win_list p)) (plugins s)"
    using assms by (simp add: drop_exception_power)
  finally show ?thesis .
qed

definition windows_example :: sys where
  "windows_example = sample_start\<lparr>plugins :=
     [\<lparr>p_config = \<lparr>plugin_name = js ''p'', logconfig_id = 0, conf_report_url = Undefined,
         cloud_master_user = Undefined, cloud_access_key = Undefined\<rparr>,
       monitor_win_list = [\<lparr>mon_plugin_name = js ''p'', xrk_window_id = 1, b_exception = True\<rparr>,
         \<lparr>mon_plugin_name = js ''p'', xrk_window_id = 2, b_exception = False\<rparr>],
       p_logs = [], p_cur_logs_strlen = 0\<rparr>]\<rparr>"

theorem failed_windows_dropped_witness:
  "map monitor_win_list (plugins ((u_try_report_to_server ^^ 1) windows_example))
    = [[\<lparr>mon_plugin_name = js ''p'', xrk_window_id = 2, b_exception = False\<rparr>]]"
  using failed_windows_dropped [of windows_example 1] by (simp add: windows_example_def)

text \<open>
  C6: a lost response does not block the reporter as long as a delayed report is pending:
  when its timer fires eight seconds or more after the unanswered request, all queued
  attributes and strings and the next batch of logs go out in a new request although the old one
  is still marked as in flight.
\<close>

theorem lost_response_recovered:
  assumes "reachable penv s" "t \<in> set (timers s)" "tm_cb t = DelayCb" "tm_due t \<le> now s"
    and "may_send s" "0 < request_start_time s" "request_start_time s + request_timeout_ms \<le> now s"
  shows "hands_over s (fire (tm_id t) s)"
proof -
  let ?s = "(clearTimeout (tm_id t) s)\<lparr>last_delay_timer_id := 0, last_req_seq := 0\<rparr>"
  have "fire (tm_id t) s = u_report_to_server None ?s"
    using find_timer [OF reachable_timers [OF assms(1)] assms(2,4)] assms(3,6,7)
    by (simp add: fire_def run_timer_def delay_timer_def clearTimeout_def)
  moreover have "hands_over ?s (u_report_to_server None ?s)"
    using assms(5) by (intro report_sends) (simp_all add: may_send_def clearTimeout_def plugin_logs_def)
  ultimately show ?thesis
    by (simp only:) (erule hands_over_cong, simp_all add: clearTimeout_def plugin_logs_def)
qed

definition timeout_example :: sys where
  "timeout_example = run no_plugins [RequestFails 1, ReportAttr Add (NumI 2) (NumI 1),
     ReportToServer None, Elapse 9000] sent_example"

theorem lost_response_recovered_witness: "hands_over timeout_example (fire 2 timeout_example)"
proof -
  have "reachable no_plugins timeout_example"
    unfolding timeout_example_def sent_example_def
    by (intro run_reachable sample_reachable)
  from lost_response_recovered [OF this, of "\<lparr>tm_id = 2, tm_cb = DelayCb, tm_due = 1050\<rparr>"]
  show ?thesis
    by (simp add: timeout_example_def run_def request_fails_def u_inner_xrk_report_attr_def
        report_to_server_def u_report_to_server_def setTimeout_def sent_example_fields xrk_constants
        may_send_def)
qed

text \<open>
  C19: the reporter can stall for good. When a response is lost while a delayed report is
  pending and 120 different attributes are reported before its timer runs, the timer is
  cleared but \<open>last_delay_timer_id\<close> keeps its number. From then on no call, no timer and
  no amount of time makes another request (unless logs are configured), although 120 values
  are queued.
\<close>

theorem reporter_can_stall:
  assumes "ready_browser b" "\<forall>e \<in> set es. quiet_event e"
  shows "requests (run penv (stall_prefix @ fill_events max_attrs_per_req @ es) (start penv d b))
      = requests (run penv (stall_prefix @ fill_events max_attrs_per_req) (start penv d b))
    \<and> length (attrs (run penv (stall_prefix @ fill_events max_attrs_per_req) (start penv d b))) = 120"
proof -
  obtain rs where rs: "stuck_at rs (run penv (stall_prefix @ fill_events max_attrs_per_req) (start penv d b))"
    "length (attrs (run penv (stall_prefix @ fill_events max_attrs_per_req) (start penv d b))) = max_attrs_per_req"
    using stall_reached [OF assms(1)] by blast
  from stuck_run [OF rs(1) assms(2), of penv] rs show ?thesis
    by (simp add: stuck_at_def run_append xrk_constants)
qed

theorem reporter_can_stall_witness:
  "requests (run no_plugins (stall_prefix @ fill_events max_attrs_per_req
        @ [Elapse 100000, Fire 1, ReportToServer None]) sample_start)
     = requests (run no_plugins (stall_prefix @ fill_events max_attrs_per_req) sample_start)"
  using reporter_can_stall [OF sample_ready, of "[Elapse 100000, Fire 1, ReportToServer None]"]
  by (simp add: sample_start_def)

lemma bump_str_long:
  "\<forall>x \<in> set xs. length (str_string x) \<le> 50 \<Longrightarrow> 50 < length t \<Longrightarrow> bump_str op t n xs = None"
  by (induction xs) auto

lemma add_strattr_long:
  "strattrs_ok xs \<Longrightarrow> 50 < length t \<Longrightarrow> snd (add_strattr op i t n xs) = Some 50"
proof (induction xs)
  case (Cons x xs)
  then have "bump_str op t n (strattr_strings x) = None"
    by (intro bump_str_long) (auto simp: strattrs_ok_def)
  moreover have "snd (add_strattr op i t n xs) = Some 50"
    by (rule Cons.IH) (use Cons.prems in \<open>auto simp: strattrs_ok_def\<close>)
  moreover obtain ys r where "add_strattr op i t n xs = (ys, r)" by force
  ultimately show ?case using Cons.prems by (simp add: new_str_def)
qed (simp add: new_str_def)

text \<open>
  A string of more than fifty characters is never merged with an earlier report of the
  same string: the stored text is cut to fifty characters but the search compares the whole
  one, so every report of it appends another entry of length fifty.
\<close>

theorem long_string_never_merged:
  assumes "reachable penv s" "50 < length t"
  shows "snd (add_strattr op i t n (strattrs s)) = Some 50"
  using reachable_data [OF assms(1)] assms(2) by (simp add: data_inv_def add_strattr_long)

theorem long_string_never_merged_witness:
  "snd (add_strattr Add (NumI 1) (replicate 51 65) (Fin 1) (strattrs sample_start)) = Some 50"
  by (rule long_string_never_merged [OF sample_reachable]) simp

lemma length_split_on: "length (split_on d s) = Suc (count_list s d)"
  by (induction s) (auto split: list.splits)

lemma digits_no_amp: "38 \<notin> set (int_str i)"
  using nat_digits_all_digits [of 38] by (auto simp: int_str_def js_def is_digit_def)

text \<open>
  The report text is put into the request body as it is. Read as a form, the body has
  the three expected fields only if the text has no ampersand; each ampersand in it (of a log
  message or a string attribute) ends the field \<open>data\<close> early and starts another one.
\<close>

theorem request_body_fields:
  "split_on 38 (request_body seq data) =
     [js ''action=http_report_data'', js ''req_seq='' @ int_str seq]
     @ split_on 38 (js ''data='' @ data)
   \<and> length (split_on 38 (request_body seq data)) = 3 + count_list data 38"
proof -
  have a: "split_on 38 (js ''action=http_report_data'' @ 38 # r) = js ''action=http_report_data'' # split_on 38 r" for r
    by (rule split_on_append) (simp add: js_def)
  have b: "split_on 38 ((js ''req_seq='' @ int_str seq) @ 38 # r) = (js ''req_seq='' @ int_str seq) # split_on 38 r" for r
    by (rule split_on_append) (simp add: js_def digits_no_amp)
  have body: "request_body seq data =
      js ''action=http_report_data'' @ 38 # (js ''req_seq='' @ int_str seq) @ 38 # js ''data='' @ data"
    by (simp add: request_body_def js_def)
  show ?thesis unfolding body a b by (simp add: length_split_on count_list_append) (simp add: js_def)
qed

lemma u_try_set_config_url:
  "report_url (u_try_set_config c s) =
     (case conf_report_url c of Str u \<Rightarrow> if set_report_url s = 0 then u else report_url s | _ \<Rightarrow> report_url s)"
  "set_report_url (u_try_set_config c s) =
     (case conf_report_url c of Str u \<Rightarrow> if set_report_url s = 0 then 1 else set_report_url s | _ \<Rightarrow> set_report_url s)"
  by (cases "conf_report_url c"; cases "cloud_master_user c"; cases "cloud_access_key c";
      simp add: u_try_set_config_def)+

text \<open>
  The first plugin configuration that names a report address wins. Later configurations
  and \<open>open_init_report\<close> leave the address alone.
\<close>

theorem first_report_url_wins:
  assumes "set_report_url s = 0" "conf_report_url c = Str u"
  shows "report_url (u_try_set_config c s) = u
    \<and> report_url (u_try_set_config c' (u_try_set_config c s)) = u
    \<and> report_url (open_init_report l r (u_try_set_config c s)) = u"
  using assms
  by (cases l; cases r; cases "conf_report_url c'"; simp add: u_try_set_config_url open_init_report_def)

theorem first_report_url_wins_witness:
  "report_url (open_init_report None (Some (js ''http://b'')) (u_try_set_config
     \<lparr>plugin_name = js ''p'', logconfig_id = 0, conf_report_url = Str (js ''http://a''),
      cloud_master_user = Undefined, cloud_access_key = Undefined\<rparr>
     (sample_start\<lparr>set_report_url := 0\<rparr>))) = js ''http://a''"
  using first_report_url_wins [of "sample_start\<lparr>set_report_url := 0\<rparr>"
      "\<lparr>plugin_name = js ''p'', logconfig_id = 0, conf_report_url = Str (js ''http://a''),
      cloud_master_user = Undefined, cloud_access_key = Undefined\<rparr>" "js ''http://a''"]
  by simp

text \<open>
  Start-up on a page that can report: the sequence numbers start at 1, the first
  periodic attempt is scheduled 1.2 seconds ahead, nothing is queued or sent.
\<close>

theorem start_up:
  assumes "ready_browser b"
  shows "timers (start penv d b) = [\<lparr>tm_id = 1, tm_cb = TryCb, tm_due = now b + 1200\<rparr>]
    \<and> req_seq (start penv d b) = 1 \<and> last_req_seq (start penv d b) = 0
    \<and> attrs (start penv d b) = [] \<and> strattrs (start penv d b) = [] \<and> logs (start penv d b) = []
    \<and> requests (start penv d b) = []"
proof -
  have "requests b = []" using assms by (simp add: ready_browser_def fresh_browser_def)
  with start_form [OF assms, of penv d] show ?thesis by (auto simp: xrk_constants)
qed

theorem start_up_witness: "timers sample_start = [\<lparr>tm_id = 1, tm_cb = TryCb, tm_due = now sample_browser + 1200\<rparr>]"
  using start_up [OF sample_ready, of no_plugins False] by (simp add: sample_start_def)

end
