(* ===== verification/Js_Int.thy ===== *)
theory Js_Int
  imports Js_Prelude
begin

text \<open>
  The integer operators of JavaScript. A number is an unbounded \<open>int\<close> here; the bitwise
  operators first reduce their operands modulo \<open>2 ^ 32\<close> (\<open>to_int32\<close>, \<open>to_uint32\<close>), and a
  shift uses the last five bits of its right operand. \<open>NaN\<close>, which \<open>charCodeAt\<close> returns
  out of range and which these operators read as 0, is \<open>None\<close>.

  The second part is the interface \<open>codec\<close> of an encoder with its decoder, and how two of
  them compose.
\<close>

unbundle bit_operations_syntax

section \<open>Operators\<close>

definition to_uint32 :: "int \<Rightarrow> int" where
  "to_uint32 x = x mod 2 ^ 32"

definition to_int32 :: "int \<Rightarrow> int" where
  "to_int32 x = (x + 2 ^ 31) mod 2 ^ 32 - 2 ^ 31"

definition js_and :: "int \<Rightarrow> int \<Rightarrow> int" where
  "js_and x y = to_int32 x AND to_int32 y"

definition js_or :: "int \<Rightarrow> int \<Rightarrow> int" where
  "js_or x y = to_int32 x OR to_int32 y"

definition js_xor :: "int \<Rightarrow> int \<Rightarrow> int" where
  "js_xor x y = to_int32 x XOR to_int32 y"

definition js_not :: "int \<Rightarrow> int" where
  "js_not x = NOT (to_int32 x)"

definition js_shl :: "int \<Rightarrow> nat \<Rightarrow> int" where
  "js_shl x k = to_int32 (push_bit (k mod 32) (to_int32 x))"

definition js_shr :: "int \<Rightarrow> nat \<Rightarrow> int" where
  "js_shr x k = drop_bit (k mod 32) (to_int32 x)"

definition js_ushr :: "int \<Rightarrow> nat \<Rightarrow> int" where
  "js_ushr x k = drop_bit (k mod 32) (to_uint32 x)"

section \<open>Characters as numbers\<close>

definition charCodeAt :: "jstr \<Rightarrow> nat \<Rightarrow> int option" where
  "charCodeAt s i = (if i < length s then Some (uint (s ! i)) else None)"

definition fromCharCode :: "int \<Rightarrow> jchar" where
  "fromCharCode n = word_of_int n"

definition num0 :: "int option \<Rightarrow> int" where
  "num0 x = (case x of Some n \<Rightarrow> n | None \<Rightarrow> 0)"

lemma uint_fromCharCode [simp]: "0 \<le> x \<Longrightarrow> x < 65536 \<Longrightarrow> uint (fromCharCode x) = x"
  by (simp add: fromCharCode_def uint_word_of_int)

lemma fromCharCode_uint [simp]: "fromCharCode (uint c) = c"
  by (simp add: fromCharCode_def)

lemma num0_simps [simp]: "num0 None = 0" "num0 (Some n) = n"
  by (simp_all add: num0_def)

section \<open>The operators on small numbers\<close>

text \<open>Below \<open>2 ^ 31\<close> no reduction takes place.\<close>

lemma to_int32_small [simp]: "0 \<le> x \<Longrightarrow> x < 2147483648 \<Longrightarrow> to_int32 x = x"
  by (simp add: to_int32_def)

lemma uint16_bounds [simp]: "0 \<le> uint (c :: jchar)" "uint (c :: jchar) < 65536"
  using uint_lt2p [of c] by simp_all

lemma js_and_small:
  "0 \<le> x \<Longrightarrow> x < 2147483648 \<Longrightarrow> 0 \<le> y \<Longrightarrow> y < 2147483648 \<Longrightarrow> js_and x y = x AND y"
  by (simp add: js_and_def)

lemma js_or_small:
  "0 \<le> x \<Longrightarrow> x < 2147483648 \<Longrightarrow> 0 \<le> y \<Longrightarrow> y < 2147483648 \<Longrightarrow> js_or x y = x OR y"
  by (simp add: js_or_def)

lemma js_shr_small: "0 \<le> x \<Longrightarrow> x < 2147483648 \<Longrightarrow> k < 32 \<Longrightarrow> js_shr x k = x div 2 ^ k"
  by (simp add: js_shr_def drop_bit_eq_div)

lemma js_shl_small:
  "0 \<le> x \<Longrightarrow> x < 2147483648 \<Longrightarrow> k < 32 \<Longrightarrow> x * 2 ^ k < 2147483648 \<Longrightarrow> js_shl x k = x * 2 ^ k"
  by (simp add: js_shl_def push_bit_eq_mult)

lemma js_and_mask:
  assumes "0 \<le> x" "x < 2147483648" "m = 2 ^ k - 1" "k < 32"
  shows "js_and x m = x mod 2 ^ k"
proof -
  have "(2::int) ^ k \<le> 2 ^ 31" using assms(4) by (intro power_increasing) auto
  then have "0 \<le> m" "m < 2147483648" using assms(3) by simp_all
  then have "js_and x m = x AND mask k" using assms by (simp add: js_and_small mask_eq_exp_minus_1)
  then show ?thesis by (simp add: take_bit_eq_mask [symmetric] take_bit_eq_mod)
qed

text \<open>Joining a multiple of \<open>2 ^ k\<close> and a number below \<open>2 ^ k\<close> is addition.\<close>

lemma or_add_int:
  assumes "0 \<le> y" "y < 2 ^ k"
  shows "x * 2 ^ k OR y = x * 2 ^ k + (y :: int)"
proof -
  have y: "take_bit k y = y" using assms by (simp add: take_bit_int_eq_self)
  have "push_bit k x AND take_bit k y = 0" by (rule bit_eqI) (auto simp: bit_simps)
  then have "push_bit k x OR y = push_bit k x + y" unfolding y by (simp add: disjunctive_add_eq_or)
  then show ?thesis by (simp add: push_bit_eq_mult)
qed

lemma js_or_add:
  assumes "0 \<le> y" "y < 2 ^ k" "0 \<le> x" "x * 2 ^ k < 2147483648" "k < 32"
  shows "js_or (x * 2 ^ k) y = x * 2 ^ k + y"
proof -
  have "(2::int) ^ k \<le> 2 ^ 31" using assms(5) by (intro power_increasing) auto
  then have "y < 2147483648" using assms(2) by simp
  then show ?thesis using assms by (simp add: js_or_small or_add_int)
qed

section \<open>Codecs\<close>

locale codec =
  fixes enc :: "'a \<Rightarrow> 'b" and dec :: "'b \<Rightarrow> 'a" and valid :: "'a \<Rightarrow> bool"
  assumes dec_enc: "valid x \<Longrightarrow> dec (enc x) = x"
begin

lemma enc_inject: "valid x \<Longrightarrow> valid y \<Longrightarrow> enc x = enc y \<longleftrightarrow> x = y"
  using dec_enc by metis

lemma enc_inj_on: "inj_on enc (Collect valid)"
  by (rule inj_onI) (simp add: enc_inject)

end

locale codec_chain =
  outer: codec enc1 dec1 valid1 + inner: codec enc2 dec2 valid2
  for enc1 :: "'a \<Rightarrow> 'b" and dec1 valid1 and enc2 :: "'b \<Rightarrow> 'c" and dec2 valid2 +
  assumes chain: "valid1 x \<Longrightarrow> valid2 (enc1 x)"

sublocale codec_chain \<subseteq> both: codec "\<lambda>x. enc2 (enc1 x)" "\<lambda>y. dec1 (dec2 y)" valid1
  by unfold_locales (simp add: chain inner.dec_enc outer.dec_enc)

end
