(* ===== verification/Base64.thy ===== *)
theory Base64
  imports Js_Int
begin

text \<open>
  The object \<open>Base64\<close> of \<open>src/html/resource/js/base64.js\<close>: text to UTF-8 to base 64 and
  back. Strings are lists of 16-bit units; the two inner functions work on strings of units
  below 256. A surrogate half is encoded on its own in three bytes, as the source does.
\<close>

section \<open>UTF-8\<close>

text \<open>The bytes of one code unit in the loop of \<open>_utf8_encode\<close>.\<close>

definition utf8_unit :: "jchar \<Rightarrow> jstr" where
  "utf8_unit ch =
     (let c = uint ch in
      if c < 128 then [fromCharCode c]
      else if c > 127 \<and> c < 2048 then
        [fromCharCode (js_or (js_shr c 6) 192), fromCharCode (js_or (js_and c 63) 128)]
      else
        [fromCharCode (js_or (js_shr c 12) 224),
         fromCharCode (js_or (js_and (js_shr c 6) 63) 128),
         fromCharCode (js_or (js_and c 63) 128)])"

text \<open>The loop after \<open>/\r\n/g\<close> is replaced by a line feed.\<close>

definition u_utf8_encode :: "jstr \<Rightarrow> jstr" where
  "u_utf8_encode s = concat (map utf8_unit (replace_all [13, 10] [10] s))"

text \<open>The loop of \<open>_utf8_decode\<close>; the argument is what is left from position \<open>i\<close> on.\<close>

function u_utf8_decode :: "jstr \<Rightarrow> jstr" where
  "u_utf8_decode [] = []"
| "u_utf8_decode (ch # t) =
     (let c = uint ch in
      if c < 128 then fromCharCode c # u_utf8_decode t
      else if c > 191 \<and> c < 224 then
        fromCharCode (js_or (js_shl (js_and c 31) 6) (js_and (num0 (charCodeAt t 0)) 63))
          # u_utf8_decode (drop 1 t)
      else
        fromCharCode (js_or (js_or (js_shl (js_and c 15) 12)
            (js_shl (js_and (num0 (charCodeAt t 0)) 63) 6)) (js_and (num0 (charCodeAt t 1)) 63))
          # u_utf8_decode (drop 2 t))"
  by pat_completeness auto
termination by (relation "measure length") auto

section \<open>Base 64\<close>

definition u_keyStr :: jstr where
  "u_keyStr = js ''ABCDEFGHIJKLMNOPQRSTUVWXYZabcdefghijklmnopqrstuvwxyz0123456789+/=''"

text \<open>\<open>charAt\<close> is the empty text out of range, and \<open>indexOf\<close> finds that at 0.\<close>

definition key_char :: "int \<Rightarrow> jstr" where
  "key_char i = (if 0 \<le> i \<and> nat i < length u_keyStr then [u_keyStr ! nat i] else [])"

definition key_index :: "jstr \<Rightarrow> int" where
  "key_index t = (case index_of t u_keyStr of Some i \<Rightarrow> int i | None \<Rightarrow> -1)"

definition enc_group :: "int option \<Rightarrow> int option \<Rightarrow> int option \<Rightarrow> jstr" where
  "enc_group chr1 chr2 chr3 =
     (let enc1 = js_shr (num0 chr1) 2;
          enc2 = js_or (js_shl (js_and (num0 chr1) 3) 4) (js_shr (num0 chr2) 4);
          enc3 = js_or (js_shl (js_and (num0 chr2) 15) 2) (js_shr (num0 chr3) 6);
          enc4 = js_and (num0 chr3) 63;
          (enc3, enc4) = (if chr2 = None then (64, 64)
                          else if chr3 = None then (enc3, 64) else (enc3, enc4))
      in key_char enc1 @ key_char enc2 @ key_char enc3 @ key_char enc4)"

function enc_loop :: "jstr \<Rightarrow> jstr" where
  "enc_loop s =
     (if s = [] then []
      else enc_group (charCodeAt s 0) (charCodeAt s 1) (charCodeAt s 2) @ enc_loop (drop 3 s))"
  by pat_completeness auto
termination by (relation "measure length") auto

declare enc_loop.simps [simp del]

definition encode :: "jstr \<Rightarrow> jstr" where
  "encode input = enc_loop (u_utf8_encode input)"

definition in_key :: "jchar \<Rightarrow> bool" where
  "in_key c = (65 \<le> c \<and> c \<le> 90 \<or> 97 \<le> c \<and> c \<le> 122 \<or> 48 \<le> c \<and> c \<le> 57
     \<or> c = 43 \<or> c = 47 \<or> c = 61)"

definition dec_group :: "int \<Rightarrow> int \<Rightarrow> int \<Rightarrow> int \<Rightarrow> jstr" where
  "dec_group enc1 enc2 enc3 enc4 =
     (let chr1 = js_or (js_shl enc1 2) (js_shr enc2 4);
          chr2 = js_or (js_shl (js_and enc2 15) 4) (js_shr enc3 2);
          chr3 = js_or (js_shl (js_and enc3 3) 6) enc4
      in [fromCharCode chr1] @ (if enc3 \<noteq> 64 then [fromCharCode chr2] else [])
         @ (if enc4 \<noteq> 64 then [fromCharCode chr3] else []))"

function dec_loop :: "jstr \<Rightarrow> jstr" where
  "dec_loop s =
     (if s = [] then []
      else dec_group (key_index (take 1 s)) (key_index (take 1 (drop 1 s)))
             (key_index (take 1 (drop 2 s))) (key_index (take 1 (drop 3 s)))
           @ dec_loop (drop 4 s))"
  by pat_completeness auto
termination by (relation "measure length") auto

declare dec_loop.simps [simp del]

definition decode :: "jstr \<Rightarrow> jstr" where
  "decode input = u_utf8_decode (dec_loop (filter in_key input))"

section \<open>UTF-8 round trip\<close>

definition is_byte :: "jchar \<Rightarrow> bool" where
  "is_byte c = (uint c < 256)"

definition bytes :: "jstr \<Rightarrow> bool" where
  "bytes s = list_all is_byte s"

text \<open>The three ranges of \<open>utf8_unit\<close> as arithmetic.\<close>

lemma or_marker:
  "0 \<le> x \<Longrightarrow> x < 64 \<Longrightarrow> js_or x 128 = x + 128"
  "0 \<le> x \<Longrightarrow> x < 32 \<Longrightarrow> js_or x 192 = x + 192"
  "0 \<le> x \<Longrightarrow> x < 16 \<Longrightarrow> js_or x 224 = x + 224"
  using js_or_add [of x 6 2] js_or_add [of x 5 6] js_or_add [of x 4 14]
  by (simp_all add: js_or_def or.commute)

lemma utf8_unit_cases:
  "uint c < 128 \<Longrightarrow> utf8_unit c = [c]"
  "128 \<le> uint c \<Longrightarrow> uint c < 2048 \<Longrightarrow> utf8_unit c =
     [fromCharCode (uint c div 64 + 192), fromCharCode (uint c mod 64 + 128)]"
  "2048 \<le> uint c \<Longrightarrow> utf8_unit c =
     [fromCharCode (uint c div 4096 + 224), fromCharCode (uint c div 64 mod 64 + 128),
      fromCharCode (uint c mod 64 + 128)]"
proof -
  have d: "0 \<le> uint c div 64" "uint c div 64 < 2147483648" "uint c div 4096 < 16"
    using uint16_bounds [of c] by linarith+
  have m: "js_and (uint c) 63 = uint c mod 64" "js_and (uint c div 64) 63 = uint c div 64 mod 64"
    using js_and_mask [of "uint c" 63 6] js_and_mask [of "uint c div 64" 63 6] uint16_bounds(2) [of c] d(1,2)
    by simp_all
  have s: "js_shr (uint c) 6 = uint c div 64" "js_shr (uint c) 12 = uint c div 4096"
    using js_shr_small [of "uint c" 6] js_shr_small [of "uint c" 12] uint16_bounds(2) [of c] by simp_all
  show "uint c < 128 \<Longrightarrow> utf8_unit c = [c]"
    by (simp add: utf8_unit_def)
  show "128 \<le> uint c \<Longrightarrow> uint c < 2048 \<Longrightarrow> utf8_unit c =
     [fromCharCode (uint c div 64 + 192), fromCharCode (uint c mod 64 + 128)]"
    by (simp add: utf8_unit_def m s or_marker Let_def)
  show "2048 \<le> uint c \<Longrightarrow> utf8_unit c =
     [fromCharCode (uint c div 4096 + 224), fromCharCode (uint c div 64 mod 64 + 128),
      fromCharCode (uint c mod 64 + 128)]"
    using d(3) by (simp add: utf8_unit_def m s or_marker Let_def)
qed

lemma mod64: "x mod 64 < (128 :: int)"
  by (rule less_trans [OF pos_mod_bound]) simp_all

lemma mod65408: "x mod 64 < (65408 :: int)"
  by (rule less_trans [OF pos_mod_bound]) simp_all

lemma utf8_unit_bytes: "bytes (utf8_unit c)"
proof -
  consider "uint c < 128" | "128 \<le> uint c" "uint c < 2048" | "2048 \<le> uint c" by linarith
  then show ?thesis
  proof cases
    case 1 then show ?thesis by (simp add: utf8_unit_cases bytes_def is_byte_def mod64)
  next
    case 2
    moreover have "uint c div 64 < 32" using 2 by linarith
    ultimately show ?thesis by (simp add: utf8_unit_cases bytes_def is_byte_def mod64)
  next
    case 3
    moreover have "uint c div 4096 < 16" using uint16_bounds(2) [of c] by linarith
    ultimately show ?thesis by (simp add: utf8_unit_cases bytes_def is_byte_def mod64)
  qed
qed

lemma add_multiple_mod: "0 \<le> x \<Longrightarrow> x < k \<Longrightarrow> (x + k * j) mod k = (x :: int)"
  by simp

lemma utf8_decode_two: "192 \<le> uint a \<Longrightarrow> uint a < 224 \<Longrightarrow> u_utf8_decode (a # b # t) =
    fromCharCode (js_or (js_shl (js_and (uint a) 31) 6) (js_and (uint b) 63)) # u_utf8_decode t"
  by (simp add: charCodeAt_def)

lemma utf8_decode_three: "224 \<le> uint a \<Longrightarrow> u_utf8_decode (a # b # c # t) =
    fromCharCode (js_or (js_or (js_shl (js_and (uint a) 15) 12) (js_shl (js_and (uint b) 63) 6))
      (js_and (uint c) 63)) # u_utf8_decode t"
  by (simp add: charCodeAt_def)

lemma utf8_decode_unit: "u_utf8_decode (utf8_unit c @ t) = c # u_utf8_decode t"
proof -
  have b: "0 \<le> uint c" "uint c < 65536" by simp_all
  have mask6: "js_and (x mod 64 + 128) 63 = x mod 64" for x :: int
  proof -
    have "0 \<le> x mod 64" "x mod 64 < 64" by simp_all
    then have "0 \<le> x mod 64 + 128" "x mod 64 + 128 < 2147483648" by linarith+
    then have "js_and (x mod 64 + 128) 63 = (x mod 64 + 128) mod 64"
      using js_and_mask [of "x mod 64 + 128" 63 6] by simp
    also have "\<dots> = x mod 64" using mod_mult_self2 [of "x mod 64" 64 2] by simp
    finally show ?thesis .
  qed
  consider "uint c < 128" | "128 \<le> uint c" "uint c < 2048" | "2048 \<le> uint c" by linarith
  then show ?thesis
  proof cases
    case 1 then show ?thesis by (simp add: utf8_unit_cases(1))
  next
    case 2
    then have d: "0 \<le> uint c div 64" "uint c div 64 < 32" "2 \<le> uint c div 64" by linarith+
    have "js_and (uint c div 64 + 192) 31 = uint c div 64"
      using js_and_mask [of "uint c div 64 + 192" 31 5] d
        add_multiple_mod [of "uint c div 64" 32 6] by simp
    moreover have "js_shl (uint c div 64) 6 = uint c div 64 * 64"
      using js_shl_small [of "uint c div 64" 6] d by simp
    moreover have "js_or (uint c div 64 * 64) (uint c mod 64) = uint c"
      using js_or_add [of "uint c mod 64" 6 "uint c div 64"] d by simp
    moreover have "uint (fromCharCode (uint c div 64 + 192)) = uint c div 64 + 192"
        "uint (fromCharCode (uint c mod 64 + 128)) = uint c mod 64 + 128"
        "192 \<le> uint c div 64 + 192" "uint c div 64 + 192 < 224"
      using d by (simp_all add: mod65408)
    ultimately show ?thesis
      by (simp only: utf8_unit_cases(2) [OF 2] append.simps utf8_decode_two mask6 fromCharCode_uint)
  next
    case 3
    have d: "0 \<le> uint c div 4096" "uint c div 4096 < 16" "0 \<le> uint c div 64"
      "uint c div 64 < 33554432" using b by linarith+
    have e: "uint c div 4096 * 64 + uint c div 64 mod 64 = uint c div 64"
      using div_mult_mod_eq [of "uint c div 64" 64] zdiv_zmult2_eq [of 64 "uint c" 64] by simp
    have "js_and (uint c div 4096 + 224) 15 = uint c div 4096"
      using js_and_mask [of "uint c div 4096 + 224" 15 4] d
        add_multiple_mod [of "uint c div 4096" 16 14] by simp
    moreover have "js_shl (uint c div 4096) 12 = uint c div 4096 * 4096"
      using js_shl_small [of "uint c div 4096" 12] d by simp
    moreover have "js_shl (uint c div 64 mod 64) 6 = uint c div 64 mod 64 * 64"
      using js_shl_small [of "uint c div 64 mod 64" 6] by simp
    moreover have "js_or (uint c div 4096 * 4096) (uint c div 64 mod 64 * 64) = uint c div 64 * 64"
      using js_or_add [of "uint c div 64 mod 64 * 64" 12 "uint c div 4096"] d e by simp
    moreover have "js_or (uint c div 64 * 64) (uint c mod 64) = uint c"
      using js_or_add [of "uint c mod 64" 6 "uint c div 64"] d by simp
    moreover have "uint (fromCharCode (uint c div 4096 + 224)) = uint c div 4096 + 224"
        "uint (fromCharCode (uint c div 64 mod 64 + 128)) = uint c div 64 mod 64 + 128"
        "uint (fromCharCode (uint c mod 64 + 128)) = uint c mod 64 + 128"
        "224 \<le> uint c div 4096 + 224"
      using d by (simp_all add: mod65408)
    ultimately show ?thesis
      by (simp only: utf8_unit_cases(3) [OF 3] append.simps utf8_decode_three mask6 fromCharCode_uint)
  qed
qed

lemma utf8_decode_units: "u_utf8_decode (concat (map utf8_unit s)) = s"
  by (induction s) (simp_all add: utf8_decode_unit)

lemma utf8_encode_bytes: "bytes (u_utf8_encode s)"
  using utf8_unit_bytes by (auto simp: u_utf8_encode_def bytes_def list_all_iff)

section \<open>Base 64 round trip\<close>

lemma index_of_nth: "distinct ys \<Longrightarrow> i < length ys \<Longrightarrow> index_of [ys ! i] ys = Some i"
proof (induction ys arbitrary: i)
  case (Cons y ys)
  then show ?case by (cases i) auto
qed simp

lemma of_char_unat16: "unat (of_char c :: jchar) = of_char c"
proof -
  have "(of_char c :: nat) < 2 ^ 16" by (rule less_trans [of _ 256]) (simp_all add: nat_of_char_less_256)
  moreover have "unat (of_nat (of_char c) :: jchar) = of_char c mod 2 ^ 16"
    by (subst unat_of_nat) simp
  ultimately show ?thesis by (simp add: of_nat_of_char)
qed

lemma inj_of_char16: "inj (of_char :: char \<Rightarrow> jchar)"
proof (rule injI)
  fix c d :: char
  assume "(of_char c :: jchar) = of_char d"
  then have "unat (of_char c :: jchar) = unat (of_char d :: jchar)" by simp
  then show "c = d" by (simp add: of_char_unat16)
qed

lemma distinct_js: "distinct (js s) = distinct s"
  by (simp add: js_def distinct_map inj_on_subset [OF inj_of_char16])

lemma keyStr_facts: "distinct u_keyStr" "list_all in_key u_keyStr" "length u_keyStr = 65"
  unfolding u_keyStr_def distinct_js by (simp_all add: js_def in_key_def)

lemma key_index_char:
  assumes "0 \<le> i" "i < 65"
  shows "\<exists>k. key_char i = [k] \<and> key_index [k] = i \<and> in_key k"
proof -
  have "index_of [u_keyStr ! nat i] u_keyStr = Some (nat i)"
    by (rule index_of_nth) (use assms in \<open>simp_all add: keyStr_facts\<close>)
  moreover have "in_key (u_keyStr ! nat i)"
    using keyStr_facts(2,3) assms by (simp add: list_all_length)
  ultimately show ?thesis using assms by (simp add: key_char_def key_index_def keyStr_facts)
qed

lemma digit_pair:
  fixes x y :: int
  assumes "0 \<le> y" "y < k"
  shows "(x * k + y) div k = x" "(x * k + y) mod k = y"
  using assms by simp_all

text \<open>The sextets of a group and the bytes they give back, as arithmetic.\<close>

lemma or_shl: "0 \<le> x \<Longrightarrow> x * 2 ^ k < 2147483648 \<Longrightarrow> k < 32 \<Longrightarrow> 0 \<le> y \<Longrightarrow> y < 2 ^ k
    \<Longrightarrow> js_or (js_shl x k) y = x * 2 ^ k + y"
proof -
  assume a: "0 \<le> x" "x * 2 ^ k < 2147483648" "k < 32" "0 \<le> y" "y < 2 ^ k"
  have "x * 1 \<le> x * 2 ^ k" using a(1) by (intro mult_left_mono) simp_all
  then have "x < 2147483648" using a(2) by linarith
  then show ?thesis using a by (simp add: js_shl_small js_or_add)
qed

lemma or_shl_two: "0 \<le> x \<Longrightarrow> x < 64 \<Longrightarrow> 0 \<le> y \<Longrightarrow> y < 4 \<Longrightarrow> js_or (js_shl x 2) y = x * 4 + y"
  using or_shl [of x 2 y] by simp

lemma or_shl_four: "0 \<le> x \<Longrightarrow> x < 16 \<Longrightarrow> 0 \<le> y \<Longrightarrow> y < 16 \<Longrightarrow> js_or (js_shl x 4) y = x * 16 + y"
  using or_shl [of x 4 y] by simp

lemma or_shl_six: "0 \<le> x \<Longrightarrow> x < 4 \<Longrightarrow> 0 \<le> y \<Longrightarrow> y < 64 \<Longrightarrow> js_or (js_shl x 6) y = x * 64 + y"
  using or_shl [of x 6 y] by simp

lemma mod_bounds:
  "0 \<le> x mod 4" "x mod 4 < 4" "x mod 4 < 16" "0 \<le> x mod 16" "x mod 16 < 16" "x mod 16 < 64"
  "0 \<le> x mod 64" "x mod 64 < 64" "x mod 64 < (65 :: int)"
  by (simp_all add: less_le_trans [OF pos_mod_bound])

lemma byte_div:
  fixes x :: int
  assumes "0 \<le> x" "x < 256"
  shows "0 \<le> x div 4" "x div 4 < 64" "0 \<le> x div 16" "x div 16 < 16" "0 \<le> x div 64" "x div 64 < 4"
  using assms by linarith+

lemma byte_ops:
  assumes "0 \<le> x" "x < 256"
  shows "js_and x 3 = x mod 4" "js_and x 15 = x mod 16" "js_and x 63 = x mod 64"
    "js_shr x 2 = x div 4" "js_shr x 4 = x div 16" "js_shr x 6 = x div 64"
  using assms js_and_mask [of x 3 2] js_and_mask [of x 15 4] js_and_mask [of x 63 6]
    js_shr_small [of x 2] js_shr_small [of x 4] js_shr_small [of x 6] by simp_all

lemma sextets:
  assumes "0 \<le> a" "a < 256" "0 \<le> b" "b < 256" "0 \<le> c" "c < 256"
  shows "js_shr a 2 = a div 4"
    "js_or (js_shl (js_and a 3) 4) (js_shr b 4) = a mod 4 * 16 + b div 16"
    "js_or (js_shl (js_and b 15) 2) (js_shr c 6) = b mod 16 * 4 + c div 64"
    "js_and c 63 = c mod 64"
  unfolding byte_ops [OF assms(1,2)] byte_ops [OF assms(3,4)] byte_ops [OF assms(5,6)]
  by (rule refl or_shl_four or_shl_two mod_bounds byte_div [OF assms(3,4)] byte_div [OF assms(5,6)])+

lemma sextet_div:
  fixes x :: int
  assumes "0 \<le> x" "x < 64"
  shows "0 \<le> x div 4" "x div 4 < 16" "0 \<le> x div 16" "x div 16 < 4"
  using assms by linarith+

lemma octets:
  assumes "0 \<le> p" "p < 64" "0 \<le> q" "q < 64" "0 \<le> r" "r < 64" "0 \<le> t" "t < 64"
  shows "js_or (js_shl p 2) (js_shr q 4) = p * 4 + q div 16"
    "js_or (js_shl (js_and q 15) 4) (js_shr r 2) = q mod 16 * 16 + r div 4"
    "js_or (js_shl (js_and r 3) 6) t = r mod 4 * 64 + t"
proof -
  have b: "q < 256" "r < 256" using assms by simp_all
  show "js_or (js_shl p 2) (js_shr q 4) = p * 4 + q div 16"
    "js_or (js_shl (js_and q 15) 4) (js_shr r 2) = q mod 16 * 16 + r div 4"
    "js_or (js_shl (js_and r 3) 6) t = r mod 4 * 64 + t"
    unfolding byte_ops [OF assms(3) b(1)] byte_ops [OF assms(5) b(2)]
    by (rule or_shl_two or_shl_four or_shl_six mod_bounds assms
        sextet_div [OF assms(3,4)] sextet_div [OF assms(5,6)])+
qed

text \<open>A group of four characters and what it decodes to.\<close>

definition group_of :: "jstr \<Rightarrow> jstr \<Rightarrow> bool" where
  "group_of ks bs =
     (case ks of [k1, k2, k3, k4] \<Rightarrow>
        list_all in_key ks
        \<and> dec_group (key_index [k1]) (key_index [k2]) (key_index [k3]) (key_index [k4]) = bs
      | _ \<Rightarrow> False)"

lemma group_of_keys:
  assumes "0 \<le> p" "p < 65" "0 \<le> q" "q < 65" "0 \<le> r" "r < 65" "0 \<le> t" "t < 65"
    and "dec_group p q r t = bs"
  shows "group_of (key_char p @ key_char q @ key_char r @ key_char t) bs"
proof -
  obtain k1 k2 k3 k4 where
    "key_char p = [k1] \<and> key_index [k1] = p \<and> in_key k1" "key_char q = [k2] \<and> key_index [k2] = q \<and> in_key k2"
    "key_char r = [k3] \<and> key_index [k3] = r \<and> in_key k3" "key_char t = [k4] \<and> key_index [k4] = t \<and> in_key k4"
    using key_index_char assms(1-8) by metis
  then show ?thesis using assms(9) by (simp add: group_of_def)
qed

lemma sextet_bounds:
  fixes x y :: int
  shows "0 \<le> x \<Longrightarrow> x < 4 \<Longrightarrow> 0 \<le> y \<Longrightarrow> y < 16 \<Longrightarrow> 0 \<le> x * 16 + y"
    "0 \<le> x \<Longrightarrow> x < 4 \<Longrightarrow> 0 \<le> y \<Longrightarrow> y < 16 \<Longrightarrow> x * 16 + y < 64"
    "0 \<le> x \<Longrightarrow> x < 16 \<Longrightarrow> 0 \<le> y \<Longrightarrow> y < 4 \<Longrightarrow> 0 \<le> x * 4 + y"
    "0 \<le> x \<Longrightarrow> x < 16 \<Longrightarrow> 0 \<le> y \<Longrightarrow> y < 4 \<Longrightarrow> x * 4 + y < 64"
  by linarith+

lemma dec_group_arith:
  fixes a b c :: int
  assumes "0 \<le> a" "a < 256" "0 \<le> b" "b < 256" "0 \<le> c" "c < 256"
  defines "p \<equiv> a div 4" and "q \<equiv> a mod 4 * 16 + b div 16" and "r \<equiv> b mod 16 * 4 + c div 64" and "t \<equiv> c mod 64"
  shows "0 \<le> p" "p < 64" "0 \<le> q" "q < 64" "0 \<le> r" "r < 64" "0 \<le> t" "t < 64"
    "js_or (js_shl p 2) (js_shr q 4) = a" "js_or (js_shl (js_and q 15) 4) (js_shr r 2) = b"
    "js_or (js_shl (js_and r 3) 6) t = c"
proof -
  note d = byte_div [OF assms(1,2)] byte_div [OF assms(3,4)] byte_div [OF assms(5,6)]
  show b: "0 \<le> p" "p < 64" "0 \<le> q" "q < 64" "0 \<le> r" "r < 64" "0 \<le> t" "t < 64"
    unfolding p_def q_def r_def t_def by (rule d mod_bounds sextet_bounds)+
  have "q div 16 = a mod 4" "q mod 16 = b div 16" "r div 4 = b mod 16" "r mod 4 = c div 64"
    unfolding q_def r_def by (rule digit_pair d)+
  then show "js_or (js_shl p 2) (js_shr q 4) = a" "js_or (js_shl (js_and q 15) 4) (js_shr r 2) = b"
      "js_or (js_shl (js_and r 3) 6) t = c"
    by (simp_all only: octets [OF b], simp_all only: p_def t_def div_mult_mod_eq)
qed

lemma keys_decode:
  assumes "0 \<le> p" "p < 64" "0 \<le> q" "q < 64" "0 \<le> r" "r < 64" "0 \<le> t" "t < 64"
    "js_or (js_shl p 2) (js_shr q 4) = a" "js_or (js_shl (js_and q 15) 4) (js_shr r 2) = b"
    "js_or (js_shl (js_and r 3) 6) t = c"
  shows "group_of (key_char p @ key_char q @ key_char r @ key_char t)
      [fromCharCode a, fromCharCode b, fromCharCode c]"
    "group_of (key_char p @ key_char q @ key_char r @ key_char 64) [fromCharCode a, fromCharCode b]"
    "group_of (key_char p @ key_char q @ key_char 64 @ key_char 64) [fromCharCode a]"
  using assms by (intro group_of_keys; simp add: dec_group_def)+

lemma enc_group_decodes:
  assumes "0 \<le> a" "a < 256" "0 \<le> b" "b < 256" "0 \<le> c" "c < 256"
  shows "group_of (enc_group (Some a) (Some b) (Some c)) [fromCharCode a, fromCharCode b, fromCharCode c]"
    "group_of (enc_group (Some a) (Some b) None) [fromCharCode a, fromCharCode b]"
    "group_of (enc_group (Some a) None None) [fromCharCode a]"
proof -
  have z: "0 \<le> (0 :: int)" "(0 :: int) < 256" by simp_all
  note defs = enc_group_def num0_simps Let_def prod.case option.distinct if_True if_False
  show "group_of (enc_group (Some a) (Some b) (Some c)) [fromCharCode a, fromCharCode b, fromCharCode c]"
    unfolding defs sextets [OF assms] by (simp only: keys_decode(1) [OF dec_group_arith [OF assms]] simp_thms if_True if_False prod.case option.distinct)
  show "group_of (enc_group (Some a) (Some b) None) [fromCharCode a, fromCharCode b]"
    unfolding defs sextets [OF assms(1-4) z] by (simp only: keys_decode(2) [OF dec_group_arith [OF assms(1-4) z]] simp_thms if_True if_False prod.case option.distinct)
  show "group_of (enc_group (Some a) None None) [fromCharCode a]"
    unfolding defs sextets [OF assms(1,2) z z] by (simp only: keys_decode(3) [OF dec_group_arith [OF assms(1,2) z z]] simp_thms if_True if_False prod.case option.distinct)
qed


text \<open>A group starts an encoded text: decoding reads it and goes on with the rest.\<close>

lemma dec_loop_group: "group_of ks bs \<Longrightarrow> dec_loop (ks @ r) = bs @ dec_loop r"
  by (subst dec_loop.simps) (auto simp: group_of_def split: list.splits)

lemma group_of_keys_in: "group_of ks bs \<Longrightarrow> list_all in_key ks \<and> length ks = 4"
  by (auto simp: group_of_def split: list.splits)

lemma enc_loop_step:
  assumes "bytes s" "s \<noteq> []"
  shows "\<exists>ks. enc_loop s = ks @ enc_loop (drop 3 s) \<and> group_of ks (take 3 s)"
proof -
  have b: "i < length s \<Longrightarrow> 0 \<le> uint (s ! i) \<and> uint (s ! i) < 256" for i
    using assms(1) by (simp add: bytes_def is_byte_def list_all_length)
  consider x where "s = [x]" | x y where "s = [x, y]" | x y z r where "s = x # y # z # r"
    using assms(2) by (metis list.exhaust)
  then have "group_of (enc_group (charCodeAt s 0) (charCodeAt s 1) (charCodeAt s 2)) (take 3 s)"
  proof cases
    case 1
    then show ?thesis using b [of 0] enc_group_decodes(3) [of "uint x" 0 0] by (simp add: charCodeAt_def)
  next
    case 2
    then show ?thesis using b [of 0] b [of 1] enc_group_decodes(2) [of "uint x" "uint y" 0] by (simp add: charCodeAt_def)
  next
    case 3
    then show ?thesis using b [of 0] b [of 1] b [of 2] enc_group_decodes(1) [of "uint x" "uint y" "uint z"]
      by (simp add: charCodeAt_def numeral_2_eq_2 numeral_3_eq_3)
  qed
  with assms(2) show ?thesis by (subst enc_loop.simps) auto
qed

lemma bytes_drop: "bytes s \<Longrightarrow> bytes (drop n s)"
  by (auto simp: bytes_def list_all_iff dest: in_set_dropD)

lemma enc_loop_shape:
  "bytes s \<Longrightarrow> list_all in_key (enc_loop s) \<and> length (enc_loop s) = 4 * ((length s + 2) div 3)"
proof (induction s rule: enc_loop.induct)
  case (1 s)
  show ?case
  proof (cases "s = []")
    case False
    with "1.prems" obtain ks where "enc_loop s = ks @ enc_loop (drop 3 s)" "group_of ks (take 3 s)"
      using enc_loop_step by blast
    moreover have "list_all in_key (enc_loop (drop 3 s))
        \<and> length (enc_loop (drop 3 s)) = 4 * ((length s - 3 + 2) div 3)"
      using "1.IH" [OF False bytes_drop [OF "1.prems"]] by simp
    moreover have "1 + (length s - 3 + 2) div 3 = (length s + 2) div 3"
      using False by (cases s rule: remdups_adj.cases) (auto, arith+)
    ultimately show ?thesis using group_of_keys_in [of ks "take 3 s"] by (simp flip: add_mult_distrib2)
  qed (simp add: enc_loop.simps)
qed

lemma dec_enc_loop: "bytes s \<Longrightarrow> dec_loop (enc_loop s) = s"
proof (induction s rule: enc_loop.induct)
  case (1 s)
  show ?case
  proof (cases "s = []")
    case False
    with "1.prems" obtain ks where "enc_loop s = ks @ enc_loop (drop 3 s)" "group_of ks (take 3 s)"
      using enc_loop_step by blast
    with 1 False show ?thesis by (simp add: dec_loop_group bytes_drop)
  qed (simp add: enc_loop.simps dec_loop.simps)
qed

text \<open>The two layers are codecs, and \<open>encode\<close> with \<open>decode\<close> is their composition.\<close>

interpretation utf8: codec "\<lambda>s. concat (map utf8_unit s)" u_utf8_decode "\<lambda>_. True"
  by unfold_locales (rule utf8_decode_units)

interpretation b64: codec_chain "\<lambda>s. concat (map utf8_unit s)" u_utf8_decode "\<lambda>_. True"
    enc_loop "\<lambda>t. dec_loop (filter in_key t)" bytes
proof unfold_locales
  show "bytes x \<Longrightarrow> dec_loop (filter in_key (enc_loop x)) = x" for x
    using enc_loop_shape [of x] by (simp add: list_all_iff dec_enc_loop)
  show "bytes (concat (map utf8_unit x))" for x
    using utf8_unit_bytes by (auto simp: bytes_def list_all_iff)
qed

section \<open>Properties\<close>

text \<open>
  C22: decoding an encoded text gives the text back, with every carriage return and line feed
  pair turned into a line feed. That holds for every string of 16-bit units, surrogates
  included.
\<close>

theorem base64_roundtrip: "decode (encode s) = replace_all [13, 10] [10] s"
  unfolding decode_def encode_def u_utf8_encode_def by (rule b64.both.dec_enc) simp

text \<open>
  The encoded text uses only the 65 characters of the key, has four characters for every
  three bytes begun, and determines the text: two texts with the same encoding are equal up
  to the line ends.
\<close>

theorem base64_wellformed:
  "list_all in_key (encode s) \<and> length (encode s) = 4 * ((length (u_utf8_encode s) + 2) div 3)
   \<and> (encode s = encode t \<longleftrightarrow> replace_all [13, 10] [10] s = replace_all [13, 10] [10] t)"
  using enc_loop_shape [OF utf8_encode_bytes [of s]]
    b64.both.enc_inject [of "replace_all [13, 10] [10] s" "replace_all [13, 10] [10] t"]
  by (simp add: encode_def u_utf8_encode_def)

end
