(* ===== verification/Md5.thy ===== *)
theory Md5
  imports Base64
begin

text \<open>
  \<open>src/html/resource/js/jquery.md5.js\<close>: the digest the login page makes of a password.
  The JavaScript side works on numbers with the 32-bit operators of \<open>Js_Int\<close>; the reference
  is the algorithm of RFC 1321 on 32-bit words, and the main result is that they agree.
\<close>

section \<open>Words as numbers\<close>

definition rotateLeft :: "int \<Rightarrow> nat \<Rightarrow> int" where
  "rotateLeft lValue iShiftBits = js_or (js_shl lValue iShiftBits) (js_ushr lValue (32 - iShiftBits))"

definition addUnsigned :: "int \<Rightarrow> int \<Rightarrow> int" where
  "addUnsigned lX lY =
     (let lX8 = js_and lX 0x80000000;
          lY8 = js_and lY 0x80000000;
          lX4 = js_and lX 0x40000000;
          lY4 = js_and lY 0x40000000;
          lResult = js_and lX 0x3FFFFFFF + js_and lY 0x3FFFFFFF
      in if js_and lX4 lY4 \<noteq> 0 then js_xor (js_xor (js_xor lResult 0x80000000) lX8) lY8
         else if js_or lX4 lY4 \<noteq> 0 then
           (if js_and lResult 0x40000000 \<noteq> 0
            then js_xor (js_xor (js_xor lResult 0xC0000000) lX8) lY8
            else js_xor (js_xor (js_xor lResult 0x40000000) lX8) lY8)
         else js_xor (js_xor lResult lX8) lY8)"

definition md5_F :: "int \<Rightarrow> int \<Rightarrow> int \<Rightarrow> int" where
  "md5_F x y z = js_or (js_and x y) (js_and (js_not x) z)"

definition md5_G :: "int \<Rightarrow> int \<Rightarrow> int \<Rightarrow> int" where
  "md5_G x y z = js_or (js_and x z) (js_and y (js_not z))"

definition md5_H :: "int \<Rightarrow> int \<Rightarrow> int \<Rightarrow> int" where
  "md5_H x y z = js_xor (js_xor x y) z"

definition md5_I :: "int \<Rightarrow> int \<Rightarrow> int \<Rightarrow> int" where
  "md5_I x y z = js_xor y (js_or x (js_not z))"

definition FF :: "int \<Rightarrow> int \<Rightarrow> int \<Rightarrow> int \<Rightarrow> int \<Rightarrow> nat \<Rightarrow> int \<Rightarrow> int" where
  "FF a b c d x s ac =
     addUnsigned (rotateLeft (addUnsigned a (addUnsigned (addUnsigned (md5_F b c d) x) ac)) s) b"

definition GG :: "int \<Rightarrow> int \<Rightarrow> int \<Rightarrow> int \<Rightarrow> int \<Rightarrow> nat \<Rightarrow> int \<Rightarrow> int" where
  "GG a b c d x s ac =
     addUnsigned (rotateLeft (addUnsigned a (addUnsigned (addUnsigned (md5_G b c d) x) ac)) s) b"

definition HH :: "int \<Rightarrow> int \<Rightarrow> int \<Rightarrow> int \<Rightarrow> int \<Rightarrow> nat \<Rightarrow> int \<Rightarrow> int" where
  "HH a b c d x s ac =
     addUnsigned (rotateLeft (addUnsigned a (addUnsigned (addUnsigned (md5_H b c d) x) ac)) s) b"

definition II :: "int \<Rightarrow> int \<Rightarrow> int \<Rightarrow> int \<Rightarrow> int \<Rightarrow> nat \<Rightarrow> int \<Rightarrow> int" where
  "II a b c d x s ac =
     addUnsigned (rotateLeft (addUnsigned a (addUnsigned (addUnsigned (md5_I b c d) x) ac)) s) b"

section \<open>The message as an array of words\<close>

text \<open>Assigning an element past the end of an array extends it with holes.\<close>

definition array_set :: "'a option list \<Rightarrow> nat \<Rightarrow> 'a \<Rightarrow> 'a option list" where
  "array_set xs i v =
     (if i < length xs then xs[i := Some v] else xs @ replicate (i - length xs) None @ [Some v])"

definition array_get :: "'a option list \<Rightarrow> nat \<Rightarrow> 'a option" where
  "array_get xs i = (if i < length xs then xs ! i else None)"

definition or_word :: "int option list \<Rightarrow> nat \<Rightarrow> int \<Rightarrow> int option list" where
  "or_word ws lByteCount v =
     array_set ws (lByteCount div 4)
       (js_or (num0 (array_get ws (lByteCount div 4))) (js_shl v (lByteCount mod 4 * 8)))"

fun fill_words :: "jstr \<Rightarrow> nat \<Rightarrow> int option list \<Rightarrow> int option list" where
  "fill_words [] lByteCount ws = ws"
| "fill_words (c # s) lByteCount ws = fill_words s (Suc lByteCount) (or_word ws lByteCount (uint c))"

definition convertToWordArray :: "jstr \<Rightarrow> int option list" where
  "convertToWordArray string =
     (let lMessageLength = length string;
          lNumberOfWords = ((lMessageLength + 8) div 64 + 1) * 16;
          ws = replicate (lNumberOfWords - 1) None;
          ws = fill_words string 0 ws;
          ws = or_word ws lMessageLength 0x80;
          ws = array_set ws (lNumberOfWords - 2) (js_shl (int lMessageLength) 3)
      in array_set ws (lNumberOfWords - 1) (js_ushr (int lMessageLength) 29))"

section \<open>The digest\<close>

definition byte_hex :: "int \<Rightarrow> jstr" where
  "byte_hex lByte =
     (let t = [48] @ nat_hex (nat lByte) in drop (length t - 2) t)"

definition wordToHex :: "int \<Rightarrow> jstr" where
  "wordToHex lValue =
     concat (map (\<lambda>lCount. byte_hex (js_and (js_ushr lValue (lCount * 8)) 255)) [0, 1, 2, 3])"

text \<open>
  The 64 assignments of the loop, one entry for each line of the source in its order: the
  function, the variable assigned (which is also its first argument, followed by the other
  three in the cyclic order \<open>a, b, c, d\<close>), the offset in \<open>x\<close>, the shift and the constant.
\<close>

datatype md5_fun = MFF | MGG | MHH | MII

datatype md5_var = Va | Vb | Vc | Vd

definition md5_lines :: "(md5_fun \<times> md5_var \<times> nat \<times> nat \<times> int) list" where
  "md5_lines =
    [(MFF, Va, 0, 7, 0xD76AA478), (MFF, Vd, 1, 12, 0xE8C7B756), (MFF, Vc, 2, 17, 0x242070DB),
     (MFF, Vb, 3, 22, 0xC1BDCEEE), (MFF, Va, 4, 7, 0xF57C0FAF), (MFF, Vd, 5, 12, 0x4787C62A),
     (MFF, Vc, 6, 17, 0xA8304613), (MFF, Vb, 7, 22, 0xFD469501), (MFF, Va, 8, 7, 0x698098D8),
     (MFF, Vd, 9, 12, 0x8B44F7AF), (MFF, Vc, 10, 17, 0xFFFF5BB1), (MFF, Vb, 11, 22, 0x895CD7BE),
     (MFF, Va, 12, 7, 0x6B901122), (MFF, Vd, 13, 12, 0xFD987193), (MFF, Vc, 14, 17, 0xA679438E),
     (MFF, Vb, 15, 22, 0x49B40821),
     (MGG, Va, 1, 5, 0xF61E2562), (MGG, Vd, 6, 9, 0xC040B340), (MGG, Vc, 11, 14, 0x265E5A51),
     (MGG, Vb, 0, 20, 0xE9B6C7AA), (MGG, Va, 5, 5, 0xD62F105D), (MGG, Vd, 10, 9, 0x2441453),
     (MGG, Vc, 15, 14, 0xD8A1E681), (MGG, Vb, 4, 20, 0xE7D3FBC8), (MGG, Va, 9, 5, 0x21E1CDE6),
     (MGG, Vd, 14, 9, 0xC33707D6), (MGG, Vc, 3, 14, 0xF4D50D87), (MGG, Vb, 8, 20, 0x455A14ED),
     (MGG, Va, 13, 5, 0xA9E3E905), (MGG, Vd, 2, 9, 0xFCEFA3F8), (MGG, Vc, 7, 14, 0x676F02D9),
     (MGG, Vb, 12, 20, 0x8D2A4C8A),
     (MHH, Va, 5, 4, 0xFFFA3942), (MHH, Vd, 8, 11, 0x8771F681), (MHH, Vc, 11, 16, 0x6D9D6122),
     (MHH, Vb, 14, 23, 0xFDE5380C), (MHH, Va, 1, 4, 0xA4BEEA44), (MHH, Vd, 4, 11, 0x4BDECFA9),
     (MHH, Vc, 7, 16, 0xF6BB4B60), (MHH, Vb, 10, 23, 0xBEBFBC70), (MHH, Va, 13, 4, 0x289B7EC6),
     (MHH, Vd, 0, 11, 0xEAA127FA), (MHH, Vc, 3, 16, 0xD4EF3085), (MHH, Vb, 6, 23, 0x4881D05),
     (MHH, Va, 9, 4, 0xD9D4D039), (MHH, Vd, 12, 11, 0xE6DB99E5), (MHH, Vc, 15, 16, 0x1FA27CF8),
     (MHH, Vb, 2, 23, 0xC4AC5665),
     (MII, Va, 0, 6, 0xF4292244), (MII, Vd, 7, 10, 0x432AFF97), (MII, Vc, 14, 15, 0xAB9423A7),
     (MII, Vb, 5, 21, 0xFC93A039), (MII, Va, 12, 6, 0x655B59C3), (MII, Vd, 3, 10, 0x8F0CCC92),
     (MII, Vc, 10, 15, 0xFFEFF47D), (MII, Vb, 1, 21, 0x85845DD1), (MII, Va, 8, 6, 0x6FA87E4F),
     (MII, Vd, 15, 10, 0xFE2CE6E0), (MII, Vc, 6, 15, 0xA3014314), (MII, Vb, 13, 21, 0x4E0811A1),
     (MII, Va, 4, 6, 0xF7537E82), (MII, Vd, 11, 10, 0xBD3AF235), (MII, Vc, 2, 15, 0x2AD7D2BB),
     (MII, Vb, 9, 21, 0xEB86D391)]"

type_synonym md5_state = "int \<times> int \<times> int \<times> int"

definition md5_call :: "md5_fun \<Rightarrow> int \<Rightarrow> int \<Rightarrow> int \<Rightarrow> int \<Rightarrow> int \<Rightarrow> nat \<Rightarrow> int \<Rightarrow> int" where
  "md5_call f = (case f of MFF \<Rightarrow> FF | MGG \<Rightarrow> GG | MHH \<Rightarrow> HH | MII \<Rightarrow> II)"

definition md5_line :: "int option list \<Rightarrow> nat \<Rightarrow> md5_fun \<times> md5_var \<times> nat \<times> nat \<times> int \<Rightarrow> md5_state \<Rightarrow> md5_state" where
  "md5_line x k l st =
     (case (l, st) of ((f, v, j, s, ac), (a, b, c, d)) \<Rightarrow>
        let w = num0 (array_get x (k + j)) in
        case v of
          Va \<Rightarrow> (md5_call f a b c d w s ac, b, c, d)
        | Vd \<Rightarrow> (a, b, c, md5_call f d a b c w s ac)
        | Vc \<Rightarrow> (a, b, md5_call f c d a b w s ac, d)
        | Vb \<Rightarrow> (a, md5_call f b c d a w s ac, c, d))"

definition md5_block :: "int option list \<Rightarrow> nat \<Rightarrow> md5_state \<Rightarrow> md5_state" where
  "md5_block x k st =
     (case (st, fold (md5_line x k) md5_lines st) of
        ((AA, BB, CC, DD), (a, b, c, d)) \<Rightarrow>
          (addUnsigned a AA, addUnsigned b BB, addUnsigned c CC, addUnsigned d DD))"

function md5_loop :: "int option list \<Rightarrow> nat \<Rightarrow> md5_state \<Rightarrow> md5_state" where
  "md5_loop x k st = (if k < length x then md5_loop x (k + 16) (md5_block x k st) else st)"
  by pat_completeness auto
termination by (relation "measure (\<lambda>(x, k, st). length x - k)") auto

declare md5_loop.simps [simp del]

text \<open>\<open>toLowerCase\<close> on the hexadecimal text.\<close>

definition to_lower :: "jchar \<Rightarrow> jchar" where
  "to_lower c = (if 65 \<le> c \<and> c \<le> 90 then c + 32 else c)"

definition uTF8Encode :: "jstr \<Rightarrow> jstr" where
  "uTF8Encode string = concat (map utf8_unit (replace_all [0x0D, 0x0A] [0x0A] string))"

definition md5 :: "jstr \<Rightarrow> jstr" where
  "md5 string =
     (let x = convertToWordArray (uTF8Encode string);
          (a, b, c, d) = md5_loop x 0 (0x67452301, 0xEFCDAB89, 0x98BADCFE, 0x10325476)
      in map to_lower (wordToHex a @ wordToHex b @ wordToHex c @ wordToHex d))"

section \<open>The operators on words\<close>

text \<open>\<open>w32\<close> is the word a number stands for; every operator of the source respects it.\<close>

definition w32 :: "int \<Rightarrow> 32 word" where
  "w32 x = word_of_int x"

lemma word_of_int_wrap:
  "word_of_int (x mod 4294967296) = (word_of_int x :: 32 word)"
  "word_of_int (x AND y) = (word_of_int x AND word_of_int y :: 32 word)"
  "word_of_int (x OR y) = (word_of_int x OR word_of_int y :: 32 word)"
  "word_of_int (x XOR y) = (word_of_int x XOR word_of_int y :: 32 word)"
  "word_of_int (NOT x) = (NOT (word_of_int x) :: 32 word)"
  "word_of_int (push_bit k x) = (push_bit k (word_of_int x) :: 32 word)"
  "word_of_int (drop_bit k (x mod 4294967296)) = (drop_bit k (word_of_int x) :: 32 word)"
proof -
  show "word_of_int (x mod 4294967296) = (word_of_int x :: 32 word)"
    by transfer (simp add: take_bit_eq_mod)
  show "word_of_int (drop_bit k (x mod 4294967296)) = (drop_bit k (word_of_int x) :: 32 word)"
  proof transfer
    fix x :: int and k
    have "x mod 4294967296 = take_bit LENGTH(32) x" by (simp add: take_bit_eq_mod)
    then show "take_bit LENGTH(32) (drop_bit k (x mod 4294967296))
        = take_bit LENGTH(32) ((drop_bit k \<circ> take_bit LENGTH(32)) x)" by simp
  qed
qed (transfer, simp)+

lemma w32_to_int32 [simp]: "w32 (to_int32 x) = w32 x"
  by (simp add: w32_def to_int32_def word_of_int_wrap)

lemma w32_ops [simp]:
  "w32 (js_and x y) = w32 x AND w32 y" "w32 (js_or x y) = w32 x OR w32 y"
  "w32 (js_xor x y) = w32 x XOR w32 y" "w32 (js_not x) = NOT (w32 x)"
  "w32 (x + y) = w32 x + w32 y"
  using w32_to_int32 [of x] w32_to_int32 [of y]
  by (simp_all add: w32_def js_and_def js_or_def js_xor_def js_not_def word_of_int_wrap)

lemma w32_shl [simp]: "k < 32 \<Longrightarrow> w32 (js_shl x k) = push_bit k (w32 x)"
  using w32_to_int32 [of x] w32_to_int32 [of "push_bit k (to_int32 x)"]
  by (simp add: js_shl_def w32_def word_of_int_wrap)

lemma w32_ushr [simp]: "k < 32 \<Longrightarrow> w32 (js_ushr x k) = drop_bit k (w32 x)"
  by (simp add: js_ushr_def w32_def to_uint32_def word_of_int_wrap)

lemma w32_rotateLeft [simp]:
  assumes "0 < s" "s < 32"
  shows "w32 (rotateLeft x s) = word_rotl s (w32 x)"
proof -
  have "push_bit s w OR drop_bit (32 - s) w = word_rotl s w" for w :: "32 word"
  proof (rule bit_word_eqI)
    fix n assume n: "n < LENGTH(32)"
    show "bit (push_bit s w OR drop_bit (32 - s) w) n = bit (word_rotl s w) n"
    proof (cases "n < s")
      case True
      then have "(n + (32 - s)) mod 32 = 32 - s + n" using assms by simp
      then show ?thesis using True assms n by (simp add: bit_simps)
    next
      case False
      then have "n + (32 - s) = n - s + 32" using assms by simp
      then have "(n + (32 - s)) mod 32 = n - s" using n by (simp only: mod_add_self2) simp
      moreover have "\<not> bit w (32 - s + n)"
        by (rule impossible_bit) (use False assms in simp)
      ultimately show ?thesis using False assms n by (simp add: bit_simps)
    qed
  qed
  then show ?thesis using assms by (simp add: rotateLeft_def)
qed

text \<open>Adding in three parts, with the carries done by exclusive or, is addition.\<close>

lemma and_mask_cases:
  "(w :: 32 word) AND 0x80000000 = 0 \<or> w AND 0x80000000 = 0x80000000"
  "(w :: 32 word) AND 0x40000000 = 0 \<or> w AND 0x40000000 = 0x40000000"
proof -
  have b: "w AND push_bit k 1 = (if bit w k then push_bit k 1 else 0)" for k
    by (rule bit_word_eqI) (auto simp: bit_simps)
  show "w AND 0x80000000 = 0 \<or> w AND 0x80000000 = 0x80000000"
    "w AND 0x40000000 = 0 \<or> w AND 0x40000000 = 0x40000000"
    using b [of 31] b [of 30] by (auto simp: push_bit_eq_mult split: if_splits)
qed

lemma xor_mid: "(w :: 32 word) AND 0x40000000 = 0 \<Longrightarrow> w XOR 0x40000000 = w + 0x40000000"
  by (simp add: disjunctive_add_eq_xor)

lemma xor_top: "(w :: 32 word) XOR 0x80000000 = w + 0x80000000"
proof (cases "w AND 0x80000000 = 0")
  case True
  then show ?thesis by (simp add: disjunctive_add_eq_xor)
next
  case False
  then have "w AND 0x80000000 = 0x80000000" using and_mask_cases(1) [of w] by blast
  then have "(w XOR 0x80000000) AND 0x80000000 = 0" by (simp add: bit.conj_xor_distrib2)
  then have "(w XOR 0x80000000) + 0x80000000 = (w XOR 0x80000000) XOR 0x80000000"
    by (rule disjunctive_add_eq_xor)
  also have "\<dots> = w" by (simp add: xor.assoc)
  finally have "w + 0x80000000 = (w XOR 0x80000000) + 0x80000000 + 0x80000000" by (simp only:)
  also have "\<dots> = (w XOR 0x80000000) + (0x80000000 + 0x80000000)" by (rule add.assoc)
  also have "(0x80000000 :: 32 word) + 0x80000000 = 0" by simp
  finally show ?thesis by (simp only: add_0_right)
qed

lemma xor_both: "(w :: 32 word) AND 0x40000000 \<noteq> 0 \<Longrightarrow> w XOR 0xC0000000 = w + 0x40000000"
proof -
  assume "w AND 0x40000000 \<noteq> 0"
  then have "(w XOR 0x40000000) AND 0x40000000 = 0"
    using and_mask_cases(2) [of w] by (auto simp: bit.conj_xor_distrib2)
  from xor_mid [OF this] have "w = (w XOR 0x40000000) + 0x40000000" by (simp add: xor.assoc)
  then have "w XOR 0x40000000 = w - 0x40000000" by (simp add: eq_diff_eq)
  moreover have "w XOR 0xC0000000 = (w XOR 0x40000000) XOR 0x80000000" by (simp add: xor.assoc)
  ultimately show ?thesis by (simp only: xor_top) simp
qed

lemma word_parts: "(w :: 32 word) = (w AND 0x3FFFFFFF) + (w AND 0x40000000) + (w AND 0x80000000)"
proof -
  have a: "(w AND a) AND (w AND b) = w AND (a AND b)" "(w AND a) OR (w AND b) = w AND (a OR b)" for a b
    by (rule bit_word_eqI, auto simp: bit_simps)+
  have "(w AND 0x3FFFFFFF) + (w AND 0x40000000) = w AND 0x7FFFFFFF"
    by (subst disjunctive_add_eq_or) (simp_all add: a)
  moreover have "(w AND 0x7FFFFFFF) + (w AND 0x80000000) = w AND 0xFFFFFFFF"
    by (subst disjunctive_add_eq_or) (simp_all add: a)
  moreover have "(0xFFFFFFFF :: 32 word) = -1" by simp
  ultimately show ?thesis by (simp only: and.right_neutral)
qed

lemma w32_numeral [simp]: "w32 (numeral n) = numeral n" "w32 0 = 0"
  by (simp_all add: w32_def)

lemma to_int32_signed: "to_int32 x = signed_take_bit 31 x"
  by (simp add: to_int32_def signed_take_bit_eq_take_bit_shift take_bit_eq_mod)

lemma js_zero [simp]: "js_and x y = 0 \<longleftrightarrow> w32 x AND w32 y = 0" "js_or x y = 0 \<longleftrightarrow> w32 x OR w32 y = 0"
proof -
  have z: "to_int32 v = 0 \<longleftrightarrow> w32 v = 0" for v
  proof
    assume "to_int32 v = 0" then show "w32 v = 0" using w32_to_int32 [of v] by simp
  next
    assume "w32 v = 0"
    then have "v mod 2 ^ 32 = 0" unfolding w32_def by transfer (simp add: take_bit_eq_mod)
    then have "(v + 2 ^ 31) mod 2 ^ 32 = 2 ^ 31" by (subst mod_add_left_eq [symmetric]) simp
    then show "to_int32 v = 0" by (simp add: to_int32_def)
  qed
  have "js_and x y = to_int32 (js_and x y)" "js_or x y = to_int32 (js_or x y)"
    by (auto simp: to_int32_signed js_and_def js_or_def bit_eq_iff bit_simps min_def)
  then show "js_and x y = 0 \<longleftrightarrow> w32 x AND w32 y = 0" "js_or x y = 0 \<longleftrightarrow> w32 x OR w32 y = 0"
    using z [of "js_and x y"] z [of "js_or x y"] by simp_all
qed

lemma w32_addUnsigned [simp]: "w32 (addUnsigned x y) = w32 x + w32 y"
proof -
  let ?X = "w32 x" and ?Y = "w32 y"
  let ?r = "(?X AND 0x3FFFFFFF) + (?Y AND 0x3FFFFFFF)"
  have top: "v XOR (w AND 0x80000000) = v + (w AND 0x80000000)" for v w :: "32 word"
    using and_mask_cases(1) [of w] xor_top [of v] by auto
  have X: "?X + ?Y = ?r + (?X AND 0x40000000) + (?Y AND 0x40000000) + (?X AND 0x80000000) + (?Y AND 0x80000000)"
    using arg_cong2 [OF word_parts [of ?X] word_parts [of ?Y], of "(+)"] by (simp only: ac_simps)
  show ?thesis
    using and_mask_cases(2) [of ?X] and_mask_cases(2) [of ?Y]
    by (auto simp: addUnsigned_def Let_def top xor_top xor_mid xor_both X)
qed

section \<open>The reference\<close>

text \<open>
  RFC 1321 on 32-bit words. \<open>M\<close> gives the sixteen words of a block; the 64 steps are a loop
  over their number, with the registers rotated at each step.
\<close>

definition md5_T :: "32 word list" where
  "md5_T =
    [0xd76aa478, 0xe8c7b756, 0x242070db, 0xc1bdceee, 0xf57c0faf, 0x4787c62a, 0xa8304613, 0xfd469501,
     0x698098d8, 0x8b44f7af, 0xffff5bb1, 0x895cd7be, 0x6b901122, 0xfd987193, 0xa679438e, 0x49b40821,
     0xf61e2562, 0xc040b340, 0x265e5a51, 0xe9b6c7aa, 0xd62f105d, 0x02441453, 0xd8a1e681, 0xe7d3fbc8,
     0x21e1cde6, 0xc33707d6, 0xf4d50d87, 0x455a14ed, 0xa9e3e905, 0xfcefa3f8, 0x676f02d9, 0x8d2a4c8a,
     0xfffa3942, 0x8771f681, 0x6d9d6122, 0xfde5380c, 0xa4beea44, 0x4bdecfa9, 0xf6bb4b60, 0xbebfbc70,
     0x289b7ec6, 0xeaa127fa, 0xd4ef3085, 0x04881d05, 0xd9d4d039, 0xe6db99e5, 0x1fa27cf8, 0xc4ac5665,
     0xf4292244, 0x432aff97, 0xab9423a7, 0xfc93a039, 0x655b59c3, 0x8f0ccc92, 0xffeff47d, 0x85845dd1,
     0x6fa87e4f, 0xfe2ce6e0, 0xa3014314, 0x4e0811a1, 0xf7537e82, 0xbd3af235, 0x2ad7d2bb, 0xeb86d391]"

definition md5_shift :: "nat \<Rightarrow> nat" where
  "md5_shift i = [[7, 12, 17, 22], [5, 9, 14, 20], [4, 11, 16, 23], [6, 10, 15, 21]] ! (i div 16) ! (i mod 4)"

definition md5_index :: "nat \<Rightarrow> nat" where
  "md5_index i = (if i < 16 then i else if i < 32 then (5 * i + 1) mod 16
     else if i < 48 then (3 * i + 5) mod 16 else 7 * i mod 16)"

definition md5_mix :: "nat \<Rightarrow> 32 word \<Rightarrow> 32 word \<Rightarrow> 32 word \<Rightarrow> 32 word" where
  "md5_mix i X Y Z = (if i < 16 then (X AND Y) OR (NOT X AND Z) else if i < 32 then (X AND Z) OR (Y AND NOT Z)
     else if i < 48 then X XOR Y XOR Z else Y XOR (X OR NOT Z))"

type_synonym md5_words = "32 word \<times> 32 word \<times> 32 word \<times> 32 word"

definition rfc_step :: "(nat \<Rightarrow> 32 word) \<Rightarrow> nat \<Rightarrow> md5_words \<Rightarrow> md5_words" where
  "rfc_step M i = (\<lambda>(A, B, C, D).
     (D, B + word_rotl (md5_shift i) (A + md5_mix i B C D + M (md5_index i) + md5_T ! i), B, C))"

definition rfc_block :: "(nat \<Rightarrow> 32 word) \<Rightarrow> md5_words \<Rightarrow> md5_words" where
  "rfc_block M st =
     (case (st, fold (rfc_step M) [0..<64] st) of
        ((A, B, C, D), (A', B', C', D')) \<Rightarrow> (A' + A, B' + B, C' + C, D' + D))"

section \<open>One block\<close>

definition md5_fun_of :: "nat \<Rightarrow> md5_fun" where
  "md5_fun_of i = (if i < 16 then MFF else if i < 32 then MGG else if i < 48 then MHH else MII)"

definition md5_var_of :: "nat \<Rightarrow> md5_var" where
  "md5_var_of i = [Va, Vd, Vc, Vb] ! (i mod 4)"

text \<open>The lines of the source follow the reference's formulas.\<close>

lemma md5_lines_nth:
  assumes "i < 64"
  shows "md5_lines ! i = (md5_fun_of i, md5_var_of i, md5_index i, md5_shift i, uint (md5_T ! i))"
proof -
  have "\<forall>i \<in> set [0..<64].
      md5_lines ! i = (md5_fun_of i, md5_var_of i, md5_index i, md5_shift i, uint (md5_T ! i))"
    unfolding md5_lines_def md5_T_def
    by (simp add: upt_conv_Cons md5_fun_of_def md5_var_of_def md5_index_def md5_shift_def)
  then show ?thesis using assms by simp
qed

lemma length_md5_lines: "length md5_lines = 64"
  by (simp add: md5_lines_def)

lemma w32_call:
  assumes "0 < s" "s < 32"
  shows "w32 (md5_call (md5_fun_of i) a b c d x s ac) =
     w32 b + word_rotl s (w32 a + md5_mix i (w32 b) (w32 c) (w32 d) + w32 x + w32 ac)"
  using assms
  by (simp add: md5_call_def md5_fun_of_def md5_mix_def FF_def GG_def HH_def II_def
      md5_F_def md5_G_def md5_H_def md5_I_def ac_simps)

lemma md5_shift_bounds: "i < 64 \<Longrightarrow> 0 < md5_shift i \<and> md5_shift i < 32"
proof -
  assume "i < 64"
  have "\<forall>i \<in> set [0..<64]. 0 < md5_shift i \<and> md5_shift i < 32"
    by (simp add: upt_conv_Cons md5_shift_def)
  with \<open>i < 64\<close> show ?thesis by simp
qed

text \<open>The registers of the source seen from step \<open>i\<close> of the reference.\<close>

definition md5_view :: "nat \<Rightarrow> md5_state \<Rightarrow> md5_words" where
  "md5_view i = (\<lambda>(a, b, c, d).
     [(w32 a, w32 b, w32 c, w32 d), (w32 d, w32 a, w32 b, w32 c),
      (w32 c, w32 d, w32 a, w32 b), (w32 b, w32 c, w32 d, w32 a)] ! (i mod 4))"

definition val :: "int option list \<Rightarrow> nat \<Rightarrow> 32 word" where
  "val x j = w32 (num0 (array_get x j))"

lemma mod4_cases: "i mod 4 = 0 \<or> i mod 4 = 1 \<or> i mod 4 = 2 \<or> i mod 4 = (3 :: nat)"
  by linarith

lemma w32_uint [simp]: "w32 (uint w) = w"
  by (simp add: w32_def)

lemma md5_line_view:
  assumes "i < 64"
  shows "md5_view (Suc i) (md5_line x k (md5_lines ! i) st) = rfc_step (\<lambda>j. val x (k + j)) i (md5_view i st)"
proof -
  obtain a b c d where st: "st = (a, b, c, d)" by (cases st)
  note call = w32_call [OF conjunct1 conjunct2, OF md5_shift_bounds md5_shift_bounds, OF assms assms]
  show ?thesis
    using mod4_cases [of i] unfolding st md5_lines_nth [OF assms]
    by (elim disjE; simp add: md5_view_def md5_line_def md5_var_of_def rfc_step_def mod_Suc call val_def ac_simps)
qed

lemma md5_lines_view:
  assumes "n \<le> 64"
  shows "md5_view n (fold (md5_line x k) (take n md5_lines) st)
    = fold (rfc_step (\<lambda>j. val x (k + j))) [0..<n] (md5_view 0 st)"
  using assms
proof (induction n)
  case (Suc n)
  then have "take (Suc n) md5_lines = take n md5_lines @ [md5_lines ! n]"
    by (intro take_Suc_conv_app_nth) (simp add: length_md5_lines)
  with Suc show ?case by (simp add: md5_line_view)
qed simp

lemma md5_block_rfc: "md5_view 0 (md5_block x k st) = rfc_block (\<lambda>j. val x (k + j)) (md5_view 0 st)"
proof -
  have "md5_view 0 (fold (md5_line x k) md5_lines st) = fold (rfc_step (\<lambda>j. val x (k + j))) [0..<64] (md5_view 0 st)"
    using md5_lines_view [of 64 x k st] by (simp add: length_md5_lines md5_view_def)
  from this [symmetric] show ?thesis
    by (cases st; cases "fold (md5_line x k) md5_lines st")
      (simp add: md5_block_def rfc_block_def md5_view_def split: prod.splits)
qed

section \<open>The whole message\<close>

text \<open>
  Padding as RFC 1321 has it: a byte 128, zeros up to 56 modulo 64, then the length in bits as
  two words, the low one first. Bytes are packed into words with the low one first.
\<close>

definition rfc_zeros :: "nat \<Rightarrow> nat" where
  "rfc_zeros n = (119 - n mod 64) mod 64"

definition rfc_decode :: "32 word list \<Rightarrow> nat \<Rightarrow> 32 word" where
  "rfc_decode bs j = bs ! (4 * j) OR push_bit 8 (bs ! (4 * j + 1)) OR push_bit 16 (bs ! (4 * j + 2))
     OR push_bit 24 (bs ! (4 * j + 3))"

definition rfc_words :: "32 word list \<Rightarrow> 32 word list" where
  "rfc_words msg =
     (let n = length msg; bs = msg @ [128] @ replicate (rfc_zeros n) 0
      in map (rfc_decode bs) [0..<length bs div 4] @ [of_nat (8 * n), of_nat (8 * n div 2 ^ 32)])"

definition rfc_hash :: "32 word list \<Rightarrow> md5_words" where
  "rfc_hash msg =
     (let ws = rfc_words msg
      in fold (\<lambda>i. rfc_block (\<lambda>j. ws ! (16 * i + j))) [0..<length ws div 16]
           (0x67452301, 0xefcdab89, 0x98badcfe, 0x10325476))"

definition rfc_hex :: "32 word \<Rightarrow> jstr" where
  "rfc_hex w = concat (map (\<lambda>i. [hex_digit (unat w div 256 ^ i mod 256 div 16), hex_digit (unat w div 256 ^ i mod 16)]) [0..<4])"

definition rfc_md5 :: "32 word list \<Rightarrow> jstr" where
  "rfc_md5 msg = (case rfc_hash msg of (A, B, C, D) \<Rightarrow> rfc_hex A @ rfc_hex B @ rfc_hex C @ rfc_hex D)"

lemma rfc_length: "n + 1 + rfc_zeros n + 8 = 64 * ((n + 8) div 64 + 1)"
proof -
  define q r where "q = n div 64" and "r = n mod 64"
  then have n: "n = 64 * q + r" and r: "r < 64" by simp_all
  show ?thesis
  proof (cases "r \<le> 55")
    case True
    then have "119 - r = 55 - r + 64" by simp
    then have "(119 - r) mod 64 = 55 - r" by (simp only: mod_add_self2) simp
    moreover have "(n + 8) div 64 = q" using n True by simp
    ultimately show ?thesis using n True r by (simp add: rfc_zeros_def)
  next
    case False
    then have "(119 - r) mod 64 = 119 - r" by simp
    moreover have "(n + 8) div 64 = q + 1"
    proof -
      have "n + 8 = (r - 56) + 64 * (q + 1)" using n False by simp
      then show ?thesis using r by simp
    qed
    ultimately show ?thesis using n False r by (simp add: rfc_zeros_def)
  qed
qed

text \<open>The loop that fills the array, in terms of the bytes seen so far.\<close>

definition pack :: "(nat \<Rightarrow> 32 word) \<Rightarrow> nat \<Rightarrow> 32 word" where
  "pack f j = f (4 * j) OR push_bit 8 (f (4 * j + 1)) OR push_bit 16 (f (4 * j + 2)) OR push_bit 24 (f (4 * j + 3))"

lemma length_or_word [simp]: "p div 4 < length ws \<Longrightarrow> length (or_word ws p v) = length ws"
  by (simp add: or_word_def array_set_def)

lemma val_or_word:
  assumes "p div 4 < length ws"
  shows "val (or_word ws p v) j = (if j = p div 4 then val ws j OR push_bit (p mod 4 * 8) (w32 v) else val ws j)"
  using assms by (simp add: val_def or_word_def array_set_def array_get_def)

lemma pack_update:
  assumes "f p = 0"
  shows "pack (f(p := v)) j = (if j = p div 4 then pack f j OR push_bit (p mod 4 * 8) v else pack f j)"
proof (cases "j = p div 4")
  case True
  then have p: "p = 4 * j + p mod 4" by simp
  have "p mod 4 = 0 \<or> p mod 4 = 1 \<or> p mod 4 = 2 \<or> p mod 4 = 3" by (rule mod4_cases)
  then show ?thesis
  proof (elim disjE)
    assume "p mod 4 = 0" with p True assms show ?thesis by (simp add: pack_def ac_simps)
  next
    assume "p mod 4 = 1" with p True assms show ?thesis by (simp add: pack_def ac_simps)
  next
    assume "p mod 4 = 2" with p True assms show ?thesis by (simp add: pack_def ac_simps)
  next
    assume "p mod 4 = 3" with p True assms show ?thesis by (simp add: pack_def ac_simps)
  qed
next
  case False
  then have "4 * j \<noteq> p" "4 * j + 1 \<noteq> p" "4 * j + 2 \<noteq> p" "4 * j + 3 \<noteq> p" by auto
  with False show ?thesis by (simp add: pack_def)
qed


text \<open>The bytes of a message as a function, zero past its end.\<close>

definition byte_at :: "32 word list \<Rightarrow> nat \<Rightarrow> 32 word" where
  "byte_at bs p = (if p < length bs then bs ! p else 0)"

lemma byte_at_end [simp]: "byte_at bs (length bs) = 0"
  by (simp add: byte_at_def)

lemma byte_at_snoc: "byte_at (bs @ [b]) = (byte_at bs)(length bs := b)"
  by (rule ext) (auto simp: byte_at_def nth_append less_Suc_eq)

lemma fill_words_val:
  assumes "length done + length s \<le> 4 * length ws" "\<And>j. j < length ws \<Longrightarrow> val ws j = pack (byte_at done) j"
  shows "length (fill_words s (length done) ws) = length ws
    \<and> (\<forall>j < length ws. val (fill_words s (length done) ws) j
          = pack (byte_at (done @ map (\<lambda>c. w32 (uint c)) s)) j)"
  using assms
proof (induction s arbitrary: "done" ws)
  case (Cons c s)
  let ?d = "done @ [w32 (uint c)]" and ?ws = "or_word ws (length done) (uint c)"
  have p: "length done div 4 < length ws" using Cons.prems(1) by auto
  have "val ?ws j = pack (byte_at ?d) j" if "j < length ws" for j
    using Cons.prems(2) [OF that] p
    by (auto simp: val_or_word byte_at_snoc pack_update)
  then have "length (fill_words s (length ?d) ?ws) = length ?ws
    \<and> (\<forall>j < length ?ws. val (fill_words s (length ?d) ?ws) j
          = pack (byte_at (?d @ map (\<lambda>c. w32 (uint c)) s)) j)"
    using Cons.prems(1) p by (intro Cons.IH) simp_all
  then show ?case using p by simp
qed simp

lemma pack_zero: "(\<And>p. f p = 0) \<Longrightarrow> pack f j = 0"
  by (simp add: pack_def)

text \<open>The array of the source holds the words of the reference.\<close>

lemma val_array_set:
  "i \<le> length ws \<Longrightarrow> val (array_set ws i v) j = (if j = i then w32 v else val ws j)"
  by (auto simp: val_def array_set_def array_get_def nth_append)

lemma length_array_set: "length (array_set ws i v) = max (length ws) (Suc i)"
  by (auto simp: array_set_def)

lemma rfc_decode_pack:
  "4 * j + 3 < length bs + z \<Longrightarrow> rfc_decode (bs @ replicate z 0) j = pack (byte_at bs) j"
  by (auto simp: rfc_decode_def pack_def byte_at_def nth_append)

lemma drop_high:
  assumes "n < 2 ^ 32"
  shows "drop_bit 29 (w32 (int n)) = of_nat (8 * n div 2 ^ 32)"
proof -
  have "unat (w32 (int n)) = n" using assms by (simp add: w32_def unat_of_nat)
  then have "unat (drop_bit 29 (w32 (int n))) = n div 2 ^ 29"
    using unat_drop_bit_eq [of 29 "w32 (int n)"] by (simp only: drop_bit_eq_div)
  also have "\<dots> = 8 * n div 2 ^ 32" by simp
  finally have "of_nat (unat (drop_bit 29 (w32 (int n)))) = (of_nat (8 * n div 2 ^ 32) :: 32 word)"
    by (rule arg_cong)
  then show ?thesis by simp
qed

lemma convert_words:
  defines "wd \<equiv> map (\<lambda>c. w32 (uint c))"
  assumes "length s < 2 ^ 32"
  shows "length (convertToWordArray s) = length (rfc_words (wd s))
    \<and> (\<forall>j < length (rfc_words (wd s)). val (convertToWordArray s) j = rfc_words (wd s) ! j)"
proof -
  define n N where "n = length s" and "N = ((n + 8) div 64 + 1) * 16"
  let ?ws = "replicate (N - 1) None :: int option list"
  let ?fill = "fill_words s 0 ?ws"
  let ?pad = "or_word ?fill n 128"
  let ?bs = "wd s @ [128]"
  have len: "n + 1 + rfc_zeros n = 4 * (N - 2)" and N: "16 \<le> N"
    using rfc_length [of n] by (simp_all add: N_def)
  then have n: "n + 8 < 4 * N" by simp
  have conv: "convertToWordArray s =
      array_set (array_set ?pad (N - 2) (js_shl (int n) 3)) (N - 1) (js_ushr (int n) 29)"
    by (simp add: convertToWordArray_def n_def N_def Let_def)
  have "val ?ws j = pack (byte_at []) j" if "j < length ?ws" for j
    using that by (simp add: val_def array_get_def pack_zero byte_at_def)
  then have fill: "length ?fill = N - 1" "\<forall>j < N - 1. val ?fill j = pack (byte_at (wd s)) j"
    using fill_words_val [of "[]" s ?ws] n N by (auto simp: n_def wd_def)
  have pos: "n div 4 < N - 1" using n by auto
  have pad: "length ?pad = N - 1" "\<forall>j < N - 1. val ?pad j = pack (byte_at ?bs) j"
    using fill pos byte_at_end [of "wd s"] by (simp_all add: val_or_word byte_at_snoc pack_update n_def wd_def)
  have lenc: "length (convertToWordArray s) = N"
    using pad(1) N by (simp add: conv length_array_set)
  have ref: "rfc_words (wd s) = map (rfc_decode (?bs @ replicate (rfc_zeros n) 0)) [0..<N - 2]
      @ [of_nat (8 * n), of_nat (8 * n div 2 ^ 32)]"
    using len by (simp add: rfc_words_def Let_def wd_def n_def)
  have "val (convertToWordArray s) j = rfc_words (wd s) ! j" if "j < N" for j
  proof -
    consider "j < N - 2" "j \<noteq> N - 2" "j \<noteq> N - 1" "j < N - 1" | "j = N - 2" | "j = N - 1" using \<open>j < N\<close> by linarith
    then show ?thesis
    proof cases
      case 1
      then have "val (convertToWordArray s) j = pack (byte_at ?bs) j"
        using pad N by (simp add: conv val_array_set length_array_set)
      moreover have "rfc_decode (?bs @ replicate (rfc_zeros n) 0) j = pack (byte_at ?bs) j"
        using 1(1) len by (intro rfc_decode_pack) (simp add: n_def wd_def)
      ultimately show ?thesis using 1 by (simp add: ref nth_append)
    next
      case 2
      then have "val (convertToWordArray s) j = push_bit 3 (w32 (int n))"
        using pad N by (simp add: conv val_array_set length_array_set)
      also have "\<dots> = of_nat (8 * n)" by (simp add: w32_def push_bit_eq_mult)
      finally show ?thesis using 2 by (simp add: ref nth_append)
    next
      case 3
      then have "val (convertToWordArray s) j = drop_bit 29 (w32 (int n))"
        using pad N by (simp add: conv val_array_set length_array_set)
      also have "\<dots> = of_nat (8 * n div 2 ^ 32)"
        using assms(2) by (intro drop_high) (simp add: n_def)
      finally show ?thesis using 3 N by (auto simp: ref nth_append)
    qed
  qed
  moreover have "length (rfc_words (wd s)) = N" using N by (simp add: ref)
  ultimately show ?thesis using lenc by simp
qed


lemma md5_index_less: "i < 64 \<Longrightarrow> md5_index i < 16"
  by (auto simp: md5_index_def)

lemma rfc_block_cong:
  assumes "\<And>j. j < 16 \<Longrightarrow> M j = M' j"
  shows "rfc_block M st = rfc_block M' st"
proof -
  have "fold (rfc_step M) [0..<64] st = fold (rfc_step M') [0..<64] st"
    by (rule fold_cong) (auto simp: rfc_step_def assms md5_index_less)
  then show ?thesis by (simp add: rfc_block_def)
qed

lemma md5_loop_rfc:
  assumes "length x = 16 * m" "\<And>j. j < length x \<Longrightarrow> val x j = ws ! j" "i \<le> m"
  shows "md5_view 0 (md5_loop x (16 * i) st)
    = fold (\<lambda>i. rfc_block (\<lambda>j. ws ! (16 * i + j))) [i..<m] (md5_view 0 st)"
  using assms(3)
proof (induction "m - i" arbitrary: i st)
  case 0
  then show ?case using assms(1) by (simp add: md5_loop.simps)
next
  case (Suc d)
  then have i: "i < m" by simp
  have "rfc_block (\<lambda>j. val x (16 * i + j)) s = rfc_block (\<lambda>j. ws ! (16 * i + j)) s" for s
    by (rule rfc_block_cong) (use i assms(1,2) in simp)
  moreover have "md5_loop x (16 * i) st = md5_loop x (16 * Suc i) (md5_block x (16 * i) st)"
    using i assms(1) by (subst md5_loop.simps) (simp add: algebra_simps)
  ultimately show ?case
    using Suc.hyps(1) [of "Suc i" "md5_block x (16 * i) st"] Suc.hyps(2) i
    by (simp add: md5_block_rfc upt_conv_Cons)
qed

text \<open>The hexadecimal text of a word.\<close>

lemma byte_hex_nat: "v < 256 \<Longrightarrow> byte_hex (int v) = [hex_digit (v div 16), hex_digit (v mod 16)]"
  by (cases "v < 16") (auto simp: byte_hex_def nat_hex.simps [of v] nat_hex.simps [of "v div 16"] hex_digit_def [of 0])

lemma js_and_byte: "js_and y 255 = y mod 256"
proof -
  have "js_and y 255 = to_int32 y AND mask 8" by (simp add: js_and_def mask_eq_exp_minus_1)
  also have "\<dots> = take_bit 8 y"
    by (simp add: to_int32_signed take_bit_signed_take_bit flip: take_bit_eq_mask)
  finally show ?thesis by (simp add: take_bit_eq_mod)
qed

lemma wordToHex_rfc: "wordToHex x = rfc_hex (w32 x)"
proof -
  have u: "to_uint32 x = int (unat (w32 x))"
    by (simp add: to_uint32_def w32_def uint_word_of_int flip: uint_nat)
  have "js_and (js_ushr x (8 * i)) 255 = int (unat (w32 x) div 256 ^ i mod 256)" if "i < 4" for i
    using that unfolding js_and_byte
    by (simp add: js_ushr_def u drop_bit_eq_div power_mult zdiv_int zmod_int)
  then have hex: "byte_hex (js_and (js_ushr x (i * 8)) 255)
      = [hex_digit (unat (w32 x) div 256 ^ i mod 256 div 16), hex_digit (unat (w32 x) div 256 ^ i mod 16)]" if "i < 4" for i
    using that by (simp add: byte_hex_nat mult.commute mod_mod_cancel)
  have "[0, 1, 2, 3] = [0..<4 :: nat]" by (simp add: upt_conv_Cons)
  then show ?thesis unfolding wordToHex_def rfc_hex_def
    by (simp only:) (rule arg_cong [of _ _ concat], rule map_cong, simp_all only: hex set_upt atLeastLessThan_iff simp_thms)
qed

lemma to_lower_hex: "d < 16 \<Longrightarrow> to_lower (hex_digit d) = hex_digit d"
proof -
  assume "d < 16"
  have "\<forall>d \<in> set [0..<16]. to_lower (hex_digit d) = hex_digit d"
    by (simp add: upt_conv_Cons to_lower_def hex_digit_def)
  with \<open>d < 16\<close> show ?thesis by simp
qed

definition lower_hex :: "jstr \<Rightarrow> bool" where
  "lower_hex t = list_all (\<lambda>c. c \<in> hex_digit ` {..<16}) t"

lemma rfc_hex_shape: "lower_hex (rfc_hex w)" "length (rfc_hex w) = 8"
  by (auto simp: lower_hex_def rfc_hex_def list_all_iff less_mult_imp_div_less upt_conv_Cons)

lemma lower_hex_id: "lower_hex t \<Longrightarrow> map to_lower t = t"
  by (induction t) (auto simp: lower_hex_def to_lower_hex)

lemma md5_unfold:
  "md5 s = (case md5_view 0 (md5_loop (convertToWordArray (uTF8Encode s)) 0
       (0x67452301, 0xEFCDAB89, 0x98BADCFE, 0x10325476)) of
     (A, B, C, D) \<Rightarrow> rfc_hex A @ rfc_hex B @ rfc_hex C @ rfc_hex D)"
  by (auto simp: md5_def md5_view_def wordToHex_rfc lower_hex_id rfc_hex_shape split: prod.splits)

section \<open>Properties\<close>

text \<open>
  C23: the digest is the one of RFC 1321. For every text whose UTF-8 form is shorter than
  \<open>2 ^ 32\<close> bytes, the 64 lines of 32-bit arithmetic on JavaScript numbers, the padding in a
  sparse array and the hexadecimal output compute what the reference algorithm on 32-bit
  words computes.
\<close>

theorem md5_is_rfc1321:
  assumes "length (uTF8Encode s) < 2 ^ 32"
  shows "md5 s = rfc_md5 (map (\<lambda>c. w32 (uint c)) (uTF8Encode s))"
proof -
  let ?x = "convertToWordArray (uTF8Encode s)" and ?ws = "rfc_words (map (\<lambda>c. w32 (uint c)) (uTF8Encode s))"
  let ?m = "length ?ws div 16"
  have x: "length ?x = length ?ws" "\<And>j. j < length ?x \<Longrightarrow> val ?x j = ?ws ! j"
    using convert_words [OF assms] by simp_all
  have m: "length ?ws = 16 * ?m"
    using rfc_length [of "length (uTF8Encode s)"] by (simp add: rfc_words_def Let_def)
  have "md5_view 0 (md5_loop ?x (16 * 0) (0x67452301, 0xEFCDAB89, 0x98BADCFE, 0x10325476))
      = fold (\<lambda>i. rfc_block (\<lambda>j. ?ws ! (16 * i + j))) [0..<?m]
          (md5_view 0 (0x67452301, 0xEFCDAB89, 0x98BADCFE, 0x10325476))"
    by (rule md5_loop_rfc) (use x m in simp_all)
  then show ?thesis by (simp add: md5_unfold rfc_md5_def rfc_hash_def Let_def md5_view_def)
qed

theorem md5_is_rfc1321_witness: "md5 (js ''a'') = rfc_md5 [97]"
proof -
  have "uTF8Encode (js ''a'') = [97]" by (simp add: uTF8Encode_def js_def utf8_unit_cases)
  with md5_is_rfc1321 [of "js ''a''"] show ?thesis by (simp add: w32_def)
qed

text \<open>A digest has 32 characters, all of them lower-case hexadecimal digits.\<close>

theorem md5_shape: "length (md5 s) = 32 \<and> lower_hex (md5 s)"
  using rfc_hex_shape by (auto simp: md5_unfold lower_hex_def split: prod.splits)

end
