(* ===== verification/Js_Num.thy ===== *)
theory Js_Num
  imports Js_Prelude
begin

text \<open>
  Arithmetic and comparison on JavaScript numbers, the functions of \<open>Math\<close> the sources use,
  and arrays with holes. Zero has one sign.
\<close>

section \<open>Arithmetic\<close>

definition js_sub :: "jnum \<Rightarrow> jnum \<Rightarrow> jnum" where
  "js_sub x y = js_add x (neg_num y)"

definition signed_inf :: "rat \<Rightarrow> jnum" where
  "signed_inf r = (if r = 0 then NaN else if r < 0 then NegInf else PosInf)"

fun js_mul :: "jnum \<Rightarrow> jnum \<Rightarrow> jnum" where
  "js_mul (Fin a) (Fin b) = Fin (a * b)"
| "js_mul (Fin a) PosInf = signed_inf a"
| "js_mul (Fin a) NegInf = signed_inf (- a)"
| "js_mul PosInf (Fin b) = signed_inf b"
| "js_mul NegInf (Fin b) = signed_inf (- b)"
| "js_mul PosInf PosInf = PosInf"
| "js_mul PosInf NegInf = NegInf"
| "js_mul NegInf PosInf = NegInf"
| "js_mul NegInf NegInf = PosInf"
| "js_mul NaN _ = NaN"
| "js_mul _ NaN = NaN"

fun js_div :: "jnum \<Rightarrow> jnum \<Rightarrow> jnum" where
  "js_div (Fin a) (Fin b) = (if b = 0 then signed_inf a else Fin (a / b))"
| "js_div (Fin a) PosInf = Fin 0"
| "js_div (Fin a) NegInf = Fin 0"
| "js_div PosInf (Fin b) = (if b < 0 then NegInf else PosInf)"
| "js_div NegInf (Fin b) = (if b < 0 then PosInf else NegInf)"
| "js_div _ _ = NaN"

definition trunc_rat :: "rat \<Rightarrow> int" where
  "trunc_rat r = (if 0 \<le> r then \<lfloor>r\<rfloor> else \<lceil>r\<rceil>)"

fun js_rem :: "jnum \<Rightarrow> jnum \<Rightarrow> jnum" where
  "js_rem (Fin a) (Fin b) = (if b = 0 then NaN else Fin (a - b * of_int (trunc_rat (a / b))))"
| "js_rem (Fin a) PosInf = Fin a"
| "js_rem (Fin a) NegInf = Fin a"
| "js_rem _ _ = NaN"

section \<open>Comparison\<close>

fun js_lt :: "jnum \<Rightarrow> jnum \<Rightarrow> bool" where
  "js_lt (Fin a) (Fin b) = (a < b)"
| "js_lt (Fin a) PosInf = True"
| "js_lt NegInf (Fin b) = True"
| "js_lt NegInf PosInf = True"
| "js_lt _ _ = False"

definition js_ge :: "jnum \<Rightarrow> jnum \<Rightarrow> bool" where
  "js_ge x y = (x \<noteq> NaN \<and> y \<noteq> NaN \<and> \<not> js_lt x y)"

lemma js_ge_Fin [simp]: "js_ge (Fin a) (Fin b) = (b \<le> a)"
  by (auto simp: js_ge_def)

section \<open>Rounding\<close>

fun math_trunc :: "jnum \<Rightarrow> jnum" where
  "math_trunc (Fin r) = Fin (of_int (trunc_rat r))"
| "math_trunc x = x"

fun math_round :: "jnum \<Rightarrow> jnum" where
  "math_round (Fin r) = Fin (of_int \<lfloor>r + 1 / 2\<rfloor>)"
| "math_round x = x"

text \<open>\<open>x.toFixed(2)\<close>: the nearest hundredth, the larger one on a tie, with two decimals.\<close>

definition two_digits :: "nat \<Rightarrow> jstr" where
  "two_digits n = [of_nat (48 + n div 10 mod 10), of_nat (48 + n mod 10)]"

definition to_fixed2 :: "rat \<Rightarrow> jstr" where
  "to_fixed2 r =
     (let n = nat \<lfloor>\<bar>r\<bar> * 100 + 1 / 2\<rfloor>
      in (if r < 0 then js ''-'' else []) @ nat_digits (n div 100) @ js ''.'' @ two_digits (n mod 100))"

lemmas [js_ops] = js_sub_def js_ge_def

section \<open>Whole numbers\<close>

lemma trunc_of_int [simp]: "trunc_rat (of_int i) = i"
  by (simp add: trunc_rat_def)

lemma trunc_of_nat [simp]: "trunc_rat (of_nat n) = int n"
  using trunc_of_int [of "int n"] by simp

lemma trunc_div_nat: "trunc_rat (of_nat n / of_nat k) = int (n div k)"
  by (simp add: trunc_rat_def floor_divide_of_nat_eq)

lemma js_rem_nat: "0 < k \<Longrightarrow> js_rem (Fin (of_nat n)) (Fin (of_nat k)) = Fin (of_nat (n mod k))"
proof -
  assume "0 < k"
  have "(of_nat n :: rat) = of_nat (k * (n div k) + n mod k)" by simp
  then have "(of_nat n :: rat) - of_nat k * of_nat (n div k) = of_nat (n mod k)"
    by (simp only: of_nat_add of_nat_mult)
  with \<open>0 < k\<close> show ?thesis by (simp add: trunc_div_nat)
qed

lemma round_near: "\<bar>of_int \<lfloor>r + 1 / 2\<rfloor> - r\<bar> \<le> 1 / (2 :: rat)"
  by linarith

section \<open>Values\<close>

text \<open>\<open>String(value)\<close>.\<close>

fun js_String :: "jsval \<Rightarrow> jstr" where
  "js_String Undefined = js ''undefined''"
| "js_String Null = js ''null''"
| "js_String (Bool b) = (if b then js ''true'' else js ''false'')"
| "js_String (Num n) = num_str n"
| "js_String (Str s) = s"
| "js_String (Arr vs) = join_with (js '','') (map (\<lambda>v. if v \<in> {Undefined, Null} then [] else js_String v) vs)"
| "js_String (Obj ms) = js ''[object Object]''"
| "js_String Fun = js ''function''"

text \<open>What counts as true in a condition.\<close>

definition js_truthy :: "jsval \<Rightarrow> bool" where
  "js_truthy v = (v \<notin> {Undefined, Null, Bool False, Num (Fin 0), Num NaN, Str []})"

end
