(* ===== verification/Js_Date.thy ===== *)
theory Js_Date
  imports Js_Num
begin

text \<open>
  Dates of JavaScript: a time is a number of milliseconds since 1970, and the calendar
  functions are those of ECMAScript (proleptic Gregorian calendar). A time zone gives the
  value of \<open>getTimezoneOffset\<close>, in minutes, for a time in UTC and for a local time.
\<close>

section \<open>The calendar\<close>

definition day_from_year :: "int \<Rightarrow> int" where
  "day_from_year y = 365 * (y - 1970) + (y - 1969) div 4 - (y - 1901) div 100 + (y - 1601) div 400"

definition leap :: "int \<Rightarrow> bool" where
  "leap y = (day_from_year (y + 1) - day_from_year y = 366)"

text \<open>The year of a day: the average length of a year gives it up to one.\<close>

definition year_of_day :: "int \<Rightarrow> int" where
  "year_of_day d =
     (let y = 1970 + 400 * d div 146097
      in if day_from_year (y + 1) \<le> d then y + 1
         else if day_from_year y \<le> d then y else y - 1)"

definition month_start :: "bool \<Rightarrow> nat \<Rightarrow> int" where
  "month_start l m =
     (if m \<le> 1 then [0, 31] ! m
      else [59, 90, 120, 151, 181, 212, 243, 273, 304, 334] ! (m - 2) + (if l then 1 else 0))"

fun month_search :: "bool \<Rightarrow> int \<Rightarrow> nat \<Rightarrow> nat" where
  "month_search l n 0 = 0"
| "month_search l n (Suc m) = (if month_start l (Suc m) \<le> n then Suc m else month_search l n m)"

definition month_of_day :: "int \<Rightarrow> nat" where
  "month_of_day d = month_search (leap (year_of_day d)) (d - day_from_year (year_of_day d)) 11"

definition date_of_day :: "int \<Rightarrow> int" where
  "date_of_day d = d - day_from_year (year_of_day d)
     - month_start (leap (year_of_day d)) (month_of_day d) + 1"

definition make_day :: "int \<Rightarrow> int \<Rightarrow> int \<Rightarrow> int" where
  "make_day y m dt =
     (let y' = y + m div 12 in day_from_year y' + month_start (leap y') (nat (m mod 12)) + dt - 1)"

section \<open>Times\<close>

definition hour_of :: "int \<Rightarrow> int" where "hour_of t = t div 3600000 mod 24"
definition minute_of :: "int \<Rightarrow> int" where "minute_of t = t div 60000 mod 60"
definition second_of :: "int \<Rightarrow> int" where "second_of t = t div 1000 mod 60"
definition milli_of :: "int \<Rightarrow> int" where "milli_of t = t mod 1000"
definition day_of :: "int \<Rightarrow> int" where "day_of t = t div 86400000"

definition make_time :: "int \<Rightarrow> int \<Rightarrow> int \<Rightarrow> int \<Rightarrow> int" where
  "make_time h m s ms = h * 3600000 + m * 60000 + s * 1000 + ms"

definition make_date :: "int \<Rightarrow> int \<Rightarrow> int" where
  "make_date day time = day * 86400000 + time"

record time_zone =
  tz_utc :: "int \<Rightarrow> int"
  tz_local :: "int \<Rightarrow> int"

definition fixed_zone :: "int \<Rightarrow> time_zone" where
  "fixed_zone k = \<lparr>tz_utc = (\<lambda>_. k), tz_local = (\<lambda>_. k)\<rparr>"

text \<open>What the local getters (\<open>getFullYear\<close>, \<open>getHours\<close>, ...) of a date see.\<close>

definition local_time :: "time_zone \<Rightarrow> int \<Rightarrow> int" where
  "local_time z t = t - tz_utc z t * 60000"

definition utc_time :: "time_zone \<Rightarrow> int \<Rightarrow> int" where
  "utc_time z t = t + tz_local z t * 60000"

text \<open>\<open>new Date(y, m, d, h, mi, s) - 0\<close> with whole-number arguments; \<open>None\<close> is an invalid date.\<close>

definition new_date :: "time_zone \<Rightarrow> int \<Rightarrow> int \<Rightarrow> int \<Rightarrow> int \<Rightarrow> int \<Rightarrow> int \<Rightarrow> int option" where
  "new_date z y m d h mi s =
     (let y' = (if 0 \<le> y \<and> y \<le> 99 then 1900 + y else y);
          t = utc_time z (make_date (make_day y' m d) (make_time h mi s 0))
      in if \<bar>t\<bar> \<le> 8640000000000000 then Some t else None)"

section \<open>The calendar is right\<close>

lemma year_bounds: "day_from_year (year_of_day d) \<le> d \<and> d < day_from_year (year_of_day d + 1)"
proof -
  define k where "k = 400 * d div 146097"
  have k: "146097 * k \<le> 400 * d" "400 * d < 146097 * k + 146097" unfolding k_def by linarith+
  have b: "400 * day_from_year (1970 + j) < 146097 * j + 600" "146097 * j - 800 < 400 * day_from_year (1970 + j)"
    for j
  proof -
    have "4 * ((j + 1) div 4) \<le> j + 1" "j + 1 < 4 * ((j + 1) div 4) + 4"
      "100 * ((j + 69) div 100) \<le> j + 69" "j + 69 < 100 * ((j + 69) div 100) + 100"
      "400 * ((j + 369) div 400) \<le> j + 369" "j + 369 < 400 * ((j + 369) div 400) + 400"
      by linarith+
    moreover have "day_from_year (1970 + j) = 365 * j + (j + 1) div 4 - (j + 69) div 100 + (j + 369) div 400"
      by (simp add: day_from_year_def add.commute)
    ultimately show "400 * day_from_year (1970 + j) < 146097 * j + 600"
      "146097 * j - 800 < 400 * day_from_year (1970 + j)" by linarith+
  qed
  have lo: "day_from_year (1970 + k - 1) \<le> d" and hi: "d < day_from_year (1970 + k + 2)"
    using b(1) [of "k - 1"] b(2) [of "k + 2"] k by (simp_all add: algebra_simps)
  then show ?thesis
    by (auto simp: year_of_day_def Let_def simp flip: k_def)
qed

lemma div_plus_one: "0 < m \<Longrightarrow> (x + 1) div m = x div m + (if m dvd x + 1 then 1 else (0 :: int))"
proof -
  assume m: "0 < m"
  let ?q = "(x + 1) div m" and ?r = "(x + 1) mod m"
  have x: "x + 1 = m * ?q + ?r" by simp
  have r: "0 \<le> ?r" "?r < m" using m by simp_all
  show ?thesis
  proof (cases "?r = 0")
    case True
    then have "x div m = ?q - 1" using x m by (intro int_div_pos_eq [of _ _ _ "m - 1"]) (simp_all add: algebra_simps)
    with True show ?thesis by (simp add: dvd_eq_mod_eq_0)
  next
    case False
    have "x = m * ?q + (?r - 1)" using x by linarith
    moreover have "0 \<le> ?r - 1" "?r - 1 < m" using r False by linarith+
    ultimately have "x div m = ?q" by (rule int_div_pos_eq)
    with False show ?thesis by (simp add: dvd_eq_mod_eq_0)
  qed
qed

lemma year_length: "day_from_year (y + 1) = day_from_year y + (if leap y then 366 else 365)"
proof -
  have "day_from_year (y + 1) = day_from_year y + 365 + (if 4 dvd y - 1968 then 1 else 0)
      - (if 100 dvd y - 1900 then 1 else 0) + (if 400 dvd y - 1600 then 1 else 0)"
    using div_plus_one [of 4 "y - 1969"] div_plus_one [of 100 "y - 1901"] div_plus_one [of 400 "y - 1601"]
    by (simp add: day_from_year_def algebra_simps)
  moreover have "400 dvd y - 1600 \<Longrightarrow> 100 dvd y - 1900"
  proof -
    assume "400 dvd y - 1600"
    then have "100 dvd y - 1600" by (rule dvd_trans [rotated]) simp
    then have "100 dvd (y - 1600) - 300" by (rule dvd_diff) simp
    then show ?thesis by simp
  qed
  moreover have "100 dvd y - 1900 \<Longrightarrow> 4 dvd y - 1968"
  proof -
    assume "100 dvd y - 1900"
    then have "4 dvd y - 1900" by (rule dvd_trans [rotated]) simp
    then have "4 dvd (y - 1900) - 68" by (rule dvd_diff) simp
    then show ?thesis by simp
  qed
  ultimately show ?thesis by (auto simp: leap_def)
qed

lemma month_search_le: "month_search l n m \<le> m"
  by (induction m) auto

lemma month_search_bounds:
  assumes "0 \<le> n" "n < (if l then 366 else 365)"
  shows "month_start l (month_search l n 11) \<le> n \<and> n < month_start l (month_search l n 11) + 31"
  using assms by (auto simp: month_start_def numeral_eq_Suc)

lemma date_bounds: "1 \<le> date_of_day d \<and> date_of_day d \<le> 31" and month_bounds: "month_of_day d \<le> 11"
proof -
  have "0 \<le> d - day_from_year (year_of_day d)"
    "d - day_from_year (year_of_day d) < (if leap (year_of_day d) then 366 else 365)"
    using year_bounds [of d] year_length [of "year_of_day d"] by (auto split: if_splits)
  from month_search_bounds [OF this] show "1 \<le> date_of_day d \<and> date_of_day d \<le> 31"
    by (simp add: date_of_day_def month_of_day_def)
  show "month_of_day d \<le> 11" by (simp add: month_of_day_def month_search_le)
qed

lemma make_day_of_day: "make_day (year_of_day d) (int (month_of_day d)) (date_of_day d) = d"
  using month_bounds [of d] by (simp add: make_day_def date_of_day_def Let_def)

lemma time_parts: "make_date (day_of t) (make_time (hour_of t) (minute_of t) (second_of t) (milli_of t)) = t"
proof -
  have "t = 1000 * (t div 1000) + t mod 1000" by simp
  moreover have "t div 1000 = 60 * (t div 60000) + t div 1000 mod 60"
    using zdiv_zmult2_eq [of 60 t 1000] by simp
  moreover have "t div 60000 = 60 * (t div 3600000) + t div 60000 mod 60"
    using zdiv_zmult2_eq [of 60 t 60000] by simp
  moreover have "t div 3600000 = 24 * (t div 86400000) + t div 3600000 mod 24"
    using zdiv_zmult2_eq [of 24 t 3600000] by simp
  ultimately show ?thesis
    unfolding make_date_def make_time_def day_of_def hour_of_def minute_of_def second_of_def milli_of_def
    by linarith
qed

section \<open>Digits of dates\<close>

lemma digits_val_two: "n < 100 \<Longrightarrow> digits_val 10 (two_digits n) = n"
  using digit_val_dec [of "n div 10 mod 10"] digit_val_dec [of "n mod 10"]
  by (simp add: two_digits_def digits_val_def div_less_iff_less_mult del: of_nat_add)

lemma length_nat_digits: "n < 10 ^ Suc k \<Longrightarrow> length (nat_digits n) \<le> Suc k"
proof (induction k arbitrary: n)
  case 0
  then show ?case by (subst nat_digits.simps) simp
next
  case (Suc k)
  then show ?case by (subst nat_digits.simps) (simp add: div_less_iff_less_mult)
qed

lemma digits_val_replicate: "digits_val b (replicate k 48 @ s) = digits_val b s"
proof -
  have "digits_val b (replicate k 48) = 0" by (induction k) (simp_all add: digits_val_def digit_val_def)
  then show ?thesis by (simp add: digits_val_append)
qed

lemma length4: "length xs = 4 \<Longrightarrow> \<exists>a b c d. xs = [a, b, c, d]"
  by (auto simp: numeral_eq_Suc length_Suc_conv)

lemma time_ranges: "0 \<le> hour_of t" "hour_of t < 24" "0 \<le> minute_of t" "minute_of t < 60" "0 \<le> second_of t" "second_of t < 60"
  by (simp_all add: hour_of_def minute_of_def second_of_def)

end
