(* ===== verification/Comm_Format.thy ===== *)
theory Comm_Format
  imports Js_Date Base64
begin

text \<open>
  The text and number formatters of \<open>src/html/resource/js/dmt.comm.js\<close>: durations, sizes,
  dates, names of server types, escaping. Chinese text is written as its UTF-16 code units.
\<close>

section \<open>Durations\<close>

text \<open>\<open>has_trunc\<close> says whether the browser has \<open>Math.trunc\<close>.\<close>

definition dmtMathtrunc :: "bool \<Rightarrow> jnum \<Rightarrow> jnum" where
  "dmtMathtrunc has_trunc d = (if \<not> has_trunc then math_round d else math_trunc d)"

definition human_part :: "bool \<Rightarrow> rat \<Rightarrow> jstr \<Rightarrow> jstr \<times> jnum \<Rightarrow> jstr \<times> jnum" where
  "human_part has_trunc unit name = (\<lambda>(h, val).
     if js_ge val (Fin unit)
     then (h @ num_str (dmtMathtrunc has_trunc (js_div val (Fin unit))) @ name, js_rem val (Fin unit))
     else (h, val))"

definition dmtGetHumanTime :: "bool \<Rightarrow> jnum \<Rightarrow> jstr" where
  "dmtGetHumanTime has_trunc val =
     (let (h, val) = human_part has_trunc 86400 [0x5929, 0x0020] ([], val);
          (h, val) = human_part has_trunc 3600 [0x5C0F, 0x65F6, 0x0020] (h, val);
          (h, val) = human_part has_trunc 60 [0x5206, 0x949F, 0x0020] (h, val)
      in if js_ge val (Fin 1) then h @ num_str (dmtMathtrunc has_trunc val) @ [0x79D2, 0x0020] else h)"

definition dmtShowHumanStaticTime :: "int \<Rightarrow> jstr" where
  "dmtShowHumanStaticTime t =
     (if t = 1 then [0x0031, 0x5206, 0x949F]
      else if t = 5 then [0x0031, 0x5206, 0x949F]
      else if t = 10 then [0x0035, 0x5206, 0x949F]
      else if t = 15 then [0x0031, 0x0035, 0x5206, 0x949F]
      else if t = 30 then [0x0033, 0x0030, 0x5206, 0x949F]
      else if t = 60 then [0x0031, 0x5C0F, 0x65F6]
      else if t = 120 then [0x0032, 0x5C0F, 0x65F6]
      else if t = 180 then [0x0033, 0x5C0F, 0x65F6]
      else js ''unknow'')"

section \<open>Sizes\<close>

text \<open>\<open>Math.round(parseFloat(f)*100)/100\<close>; \<open>parseFloat\<close> of a number is that number.\<close>

definition hundredths :: "jnum \<Rightarrow> jnum" where
  "hundredths f = js_div (math_round (js_mul f (Fin 100))) (Fin 100)"

definition dmtShowChangeValue :: "jnum \<Rightarrow> jsval" where
  "dmtShowChangeValue value =
     (if js_ge value (Fin 1073741824)
      then Str (num_str (hundredths (js_div value (Fin 1073741824))) @ js ''G'')
      else if js_ge value (Fin 1048576)
      then Str (num_str (hundredths (js_div value (Fin 1048576))) @ js ''M'')
      else if js_ge value (Fin 1024)
      then Str (num_str (hundredths (js_div value (Fin 1024))) @ js ''K'')
      else Num value)"

definition dmtGetHumanReadDigitByKB :: "jnum option \<Rightarrow> jstr" where
  "dmtGetHumanReadDigitByKB v =
     (case v of
        None \<Rightarrow> []
      | Some val \<Rightarrow>
          if js_ge val (Fin 1048576)
          then num_str (hundredths (js_div val (Fin 1048576))) @ js '' GB''
          else if js_ge val (Fin 1024)
          then num_str (hundredths (js_div val (Fin 1024))) @ js '' MB''
          else num_str val @ js '' KB'')"

text \<open>The labels of the value axis (\<open>yAxis.axisLabel.formatter\<close> in \<open>dmtShowAttrInfo\<close>).\<close>

definition axis_label :: "rat \<Rightarrow> jsval" where
  "axis_label value =
     (if value \<ge> 1073741824 then Str (to_fixed2 (value / 1073741824) @ js ''G'')
      else if value \<ge> 1048576 then Str (to_fixed2 (value / 1048576) @ js ''M'')
      else if value \<ge> 1024 then Str (to_fixed2 (value / 1024) @ js ''K'')
      else Num (Fin value))"

definition dmtGetBytesLength :: "jstr \<Rightarrow> nat" where
  "dmtGetBytesLength str =
     fold (\<lambda>c total. let charCode = uint c in
             if charCode \<le> 0x007f then total + 1
             else if charCode \<le> 0x07ff then total + 2
             else if charCode \<le> 0xffff then total + 3
             else total + 4) str 0"

section \<open>Dates\<close>

definition pad2 :: "jstr \<Rightarrow> int \<Rightarrow> jstr" where
  "pad2 sep n = (if n < 10 then sep @ js ''0'' @ int_str n else sep @ int_str n)"

text \<open>\<open>now\<close> is the time of the call; \<open>bTime\<close> is whether the second argument is given.\<close>

definition dmtGetDateStr :: "time_zone \<Rightarrow> int \<Rightarrow> int \<Rightarrow> bool \<Rightarrow> jstr" where
  "dmtGetDateStr z now d bTime =
     (let dt = local_time z (d + tz_utc z now * 60 * 1000);
          day = day_of dt;
          dtstr = (if \<not> bTime then
                     int_str (year_of_day day)
                     @ (if month_of_day day < 9 then js ''-0'' @ int_str (int (month_of_day day) + 1)
                        else js ''-'' @ int_str (int (month_of_day day) + 1))
                     @ pad2 (js ''-'') (date_of_day day)
                   else [])
      in dtstr @ pad2 (js '' '') (hour_of dt) @ pad2 (js '':'') (minute_of dt))"

text \<open>An element of an array read as a number: \<open>undefined - 0\<close> is \<open>NaN\<close>.\<close>

definition item_num :: "jstr list \<Rightarrow> nat \<Rightarrow> jnum" where
  "item_num xs i = (if i < length xs then str_num (xs ! i) else NaN)"

definition date_num :: "time_zone \<Rightarrow> jnum \<Rightarrow> jnum \<Rightarrow> jnum \<Rightarrow> jnum \<Rightarrow> jnum \<Rightarrow> jnum \<Rightarrow> jnum" where
  "date_num z y m d h mi s =
     (case (y, m, d, h, mi, s) of
        (Fin y, Fin m, Fin d, Fin h, Fin mi, Fin s) \<Rightarrow>
          (case new_date z (trunc_rat y) (trunc_rat m) (trunc_rat d) (trunc_rat h) (trunc_rat mi) (trunc_rat s) of
             Some t \<Rightarrow> Fin (of_int t) | None \<Rightarrow> NaN)
      | _ \<Rightarrow> NaN)"

datatype time_error = TypeError

definition dmtGetTimeStamp :: "time_zone \<Rightarrow> jstr option \<Rightarrow> time_error + jnum" where
  "dmtGetTimeStamp z tstr =
     (case tstr of
        None \<Rightarrow> Inr (Fin 0)
      | Some t \<Rightarrow>
          if t = [] then Inr (Fin 0)
          else
            let tmp = split_on 32 t; temp = split_on 45 (tmp ! 0);
                y = item_num temp 0; m = item_num temp 1; d = item_num temp 2
            in if length tmp \<le> 1 then Inl TypeError
               else
                 let temp = split_on 58 (tmp ! 1);
                     h = item_num temp 0; mm = item_num temp 1; s = item_num temp 2
                 in Inr (js_div (date_num z y (js_sub m (Fin 1)) d h mm s) (Fin 1000)))"

section \<open>HTML\<close>

text \<open>The replacements of \<open>dmtEncodeHTML\<close>, in order: what is searched and what replaces it.\<close>

definition html_rules :: "(jstr \<times> jstr) list" where
  "html_rules =
     [(js ''&#39;'', [0x27]), (js ''&#160;'', js '' ''), (js ''&#92;'', [0x5C]),
      (js ''>'', js ''&gt;''), (js ''<'', js ''&lt;''),
      (js ''_r_n'', js ''<br>''), (0x5C # js ''x0A'', js ''<br>''), (0x5C # js ''x2F'', js ''/''),
      (0x5C # js ''x3B'', js '';''), (0x5C # js ''x22'', [0x22]), (0x5C # js ''x3C'', js ''<''),
      (0x5C # js ''x26'', js ''&''), (0x5C # js ''x27'', [0x27]), (0x5C # js ''x5C'', [0x5C]),
      (0x5C # js ''x3E'', js ''>'')]"

definition dmtEncodeHTML :: "jstr \<Rightarrow> jstr" where
  "dmtEncodeHTML str = (if length str = 0 then [] else fold (\<lambda>(p, r) s. replace_all p r s) html_rules str)"

definition dmtGetSyssetTypeHtml :: "jstr \<Rightarrow> jstr" where
  "dmtGetSyssetTypeHtml shtmlid =
     js ''<label>'' @ [0x670D, 0x52A1, 0x5668, 0x7C7B, 0x578B, 0xFF1A] @ js ''</label>''
     @ js ''<select name='' @ [0x22]
     @ shtmlid @ [0x22] @ js '' id='' @ [0x22]
     @ shtmlid @ [0x22] @ js ''>'' @ [0x22] @ js '' ''
     @ js ''<option value='' @ [0x22] @ js ''0'' @ [0x22] @ js ''>'' @ [0x8BF7, 0x9009, 0x62E9] @ js ''</option>''
     @ js ''<option value='' @ [0x22] @ js ''1'' @ [0x22] @ js ''>'' @ [0x65E5, 0x5FD7, 0x670D, 0x52A1, 0x5668] @ js ''</option>''
     @ js ''<option value='' @ [0x22] @ js ''2'' @ [0x22] @ js ''>'' @ [0x76D1, 0x63A7, 0x70B9, 0x670D, 0x52A1, 0x5668] @ js ''</option>''
     @ js ''<option value='' @ [0x22] @ js ''3'' @ [0x22] @ js ''>'' @ [0x006D, 0x0079, 0x0073, 0x0071, 0x006C, 0x0020, 0x76D1, 0x63A7, 0x70B9, 0x670D, 0x52A1, 0x5668] @ js ''</option>''
     @ js ''<option value='' @ [0x22] @ js ''4'' @ [0x22] @ js ''>'' @ [0x4E2D, 0x5FC3, 0x670D, 0x52A1, 0x5668] @ js ''</option>''
     @ js ''<option value='' @ [0x22] @ js ''11'' @ [0x22] @ js ''>'' @ [0x0077, 0x0065, 0x0062, 0x0020, 0x670D, 0x52A1, 0x5668] @ js ''</option>''
     @ js ''</select>''"

definition dmtGetServerTypeName :: "int \<Rightarrow> jstr" where
  "dmtGetServerTypeName type_id =
     (if type_id = 1 then [0x65E5, 0x5FD7, 0x670D, 0x52A1, 0x5668]
      else if type_id = 2 then [0x76D1, 0x63A7, 0x70B9, 0x670D, 0x52A1, 0x5668]
      else if type_id = 3 then [0x006D, 0x0079, 0x0073, 0x0071, 0x006C, 0x0020, 0x76D1, 0x63A7, 0x70B9, 0x670D, 0x52A1, 0x5668]
      else if type_id = 4 then [0x4E2D, 0x5FC3, 0x670D, 0x52A1, 0x5668]
      else if type_id = 11 then [0x0077, 0x0065, 0x0062, 0x0020, 0x670D, 0x52A1, 0x5668]
      else [0x672A, 0x77E5, 0x7C7B, 0x578B])"

section \<open>Durations and sizes\<close>

definition time_part :: "nat \<Rightarrow> jstr \<Rightarrow> jstr" where
  "time_part k name = (if k = 0 then [] else nat_digits k @ name)"

lemma num_str_nat: "num_str (Fin (of_nat n)) = nat_digits n"
  using num_str_of_int [of "int n"] by (simp add: int_str_def)

lemma trunc_part:
  assumes "0 < k"
  shows "num_str (dmtMathtrunc True (js_div (Fin (of_nat n)) (Fin (of_nat k)))) = nat_digits (n div k)"
  using assms num_str_nat [of "n div k"] trunc_div_nat [of n k] by (simp add: dmtMathtrunc_def)

lemma ge_nat: "js_ge (Fin (of_nat n)) (Fin (of_nat k)) = (k \<le> n)"
  by simp

lemma human_part_nat:
  "0 < k \<Longrightarrow> human_part True (of_nat k) name (h, Fin (of_nat m))
     = (h @ time_part (m div k) name, Fin (of_nat (m mod k)))"
  unfolding human_part_def prod.case
  by (simp only: ge_nat trunc_part js_rem_nat) (auto simp: time_part_def div_eq_0_iff)

text \<open>
  On a browser with \<open>Math.trunc\<close> a whole number of seconds is shown as its days, hours,
  minutes and seconds, each unit with its exact count and left out when the count is zero.
\<close>

theorem human_time_exact:
  "dmtGetHumanTime True (Fin (of_nat n)) =
     time_part (n div 86400) [0x5929, 0x0020] @ time_part (n mod 86400 div 3600) [0x5C0F, 0x65F6, 0x0020]
     @ time_part (n mod 86400 mod 3600 div 60) [0x5206, 0x949F, 0x0020] @ time_part (n mod 86400 mod 3600 mod 60) [0x79D2, 0x0020]"
  using human_part_nat [of 86400] human_part_nat [of 3600] human_part_nat [of 60]
  by (simp add: dmtGetHumanTime_def Let_def dmtMathtrunc_def num_str_nat) (auto simp: time_part_def)

text \<open>Without \<open>Math.trunc\<close> the code rounds: an hour and a half is shown as two hours and 30 minutes.\<close>

lemma human_time_rounded: "dmtGetHumanTime False (Fin 5400) = js ''2'' @ [0x5C0F, 0x65F6, 0x0020] @ js ''30'' @ [0x5206, 0x949F, 0x0020]"
proof -
  have "trunc_rat (5400 / 3600) = 1" "trunc_rat 30 = 30" "\<lfloor>61 / (2 :: rat)\<rfloor> = 30"
    by (simp_all add: trunc_rat_def floor_eq_iff)
  moreover have "num_str (Fin 2) = js ''2''" "num_str (Fin 30) = js ''30''"
    using num_str_nat [of 2] num_str_nat [of 30] by (simp_all add: nat_digits.simps js_def)
  ultimately show ?thesis by (simp add: dmtGetHumanTime_def human_part_def dmtMathtrunc_def)
qed

lemma hundredths_near: "\<exists>q. hundredths (Fin f) = Fin q \<and> \<bar>q - f\<bar> \<le> 1 / 200"
proof -
  have "\<bar>of_int \<lfloor>f * 100 + 1 / 2\<rfloor> - f * 100\<bar> \<le> 1 / 2" by (rule round_near)
  then have "\<bar>of_int \<lfloor>f * 100 + 1 / 2\<rfloor> / 100 - f\<bar> \<le> 1 / 200" by (simp add: abs_le_iff field_simps)
  then show ?thesis unfolding hundredths_def by (intro exI [of _ "of_int \<lfloor>f * 100 + 1 / 2\<rfloor> / 100"]) simp
qed

definition size_unit :: "rat \<Rightarrow> rat \<times> jstr" where
  "size_unit v = (if v \<ge> 1073741824 then (1073741824, js ''G'')
     else if v \<ge> 1048576 then (1048576, js ''M'') else (1024, js ''K''))"

text \<open>
  A value of at least 1024 is shown in the largest of the units K, M, G it reaches, and
  the number shown differs from the exact quotient by at most half a hundredth.
\<close>

theorem change_value_accurate:
  assumes "1024 \<le> v"
  shows "\<exists>q. dmtShowChangeValue (Fin v) = Str (num_str (Fin q) @ snd (size_unit v))
    \<and> \<bar>q - v / fst (size_unit v)\<bar> \<le> 1 / 200"
  using assms hundredths_near [of "v / 1073741824"] hundredths_near [of "v / 1048576"]
    hundredths_near [of "v / 1024"]
  by (auto simp: dmtShowChangeValue_def size_unit_def)

theorem change_value_accurate_witness:
  "\<exists>q. dmtShowChangeValue (Fin 3000) = Str (num_str (Fin q) @ js ''K'') \<and> \<bar>q - 3000 / 1024\<bar> \<le> 1 / 200"
  using change_value_accurate [of 3000] by (simp add: size_unit_def)

text \<open>
  The number of bytes \<open>dmtGetBytesLength\<close> counts is the length of the UTF-8 text that
  \<open>_utf8_encode\<close> of \<open>base64.js\<close> makes of the same units.
\<close>

theorem bytes_length_is_utf8: "dmtGetBytesLength s = length (concat (map utf8_unit s))"
proof -
  have u: "length (utf8_unit c) = (if uint c \<le> 127 then 1 else if uint c \<le> 2047 then 2 else 3)" for c
    by (auto simp: utf8_unit_def Let_def)
  have "fold (\<lambda>c total. let charCode = uint c in
             if charCode \<le> 0x007f then total + 1
             else if charCode \<le> 0x07ff then total + 2
             else if charCode \<le> 0xffff then total + 3
             else total + 4) s n = n + length (concat (map utf8_unit s))" for n
  proof (induction s arbitrary: n)
    case (Cons c s)
    have "uint c \<le> 65535" using uint16_bounds(2) [of c] by linarith
    with Cons show ?case by (simp add: u Let_def)
  qed simp
  then show ?thesis by (simp add: dmtGetBytesLength_def)
qed

section \<open>Dates read back\<close>

text \<open>A text of digits is read as their value.\<close>

lemma digits_trim: "\<forall>c \<in> set s. is_digit c \<Longrightarrow> js_trim s = s"
proof -
  assume d: "\<forall>c \<in> set s. is_digit c"
  have ws: "is_digit c \<Longrightarrow> \<not> js_ws c" for c
    by (auto simp: is_digit_def js_ws_def dest: order.trans [of "8192 :: jchar" _ 57])
  have "dropWhile js_ws s = s" using d ws by (cases s) auto
  moreover have "dropWhile js_ws (rev s) = rev s"
    using d ws by (cases s rule: rev_cases) auto
  ultimately show ?thesis by (simp add: js_trim_def)
qed

lemma str_num_digits:
  assumes "\<forall>c \<in> set s. is_digit c" "s \<noteq> []"
  shows "str_num s = Fin (of_nat (digits_val 10 s))"
proof -
  have h: "is_digit (hd s)" using assms by simp
  then have hd: "hd s \<noteq> 43" "hd s \<noteq> 45" "hd s \<noteq> 73" by (auto simp: is_digit_def)
  have dw: "takeWhile is_digit s = s" "dropWhile is_digit s = []" using assms(1) by (auto simp: takeWhile_eq_all_conv)
  have x: "\<not> starts_with (js [CHR ''0'', c]) s" if "\<not> is_digit (of_char c)" for c
    using assms that by (cases s; cases "tl s") (auto simp: js_def)
  have nx: "\<not> starts_with (js ''0x'') s" "\<not> starts_with (js ''0X'') s" "\<not> starts_with (js ''0b'') s"
    "\<not> starts_with (js ''0B'') s" "\<not> starts_with (js ''0o'') s" "\<not> starts_with (js ''0O'') s"
    by (rule x; simp add: is_digit_def)+
  have inf: "s \<noteq> js ''Infinity''" using hd(3) by (auto simp: js_def)
  have "decimal_num s = Fin (of_nat (digits_val 10 s))"
    using assms(2) by (simp add: decimal_num_def exponent_def scale10_def Let_def dw)
  then show ?thesis using assms hd nx inf by (simp add: str_num_def digits_trim)
qed

lemma int_str_digits: "0 \<le> i \<Longrightarrow> \<forall>c \<in> set (int_str i). is_digit c"
  by (auto simp: int_str_def dest: nat_digits_all_digits)

lemma str_num_int_str [simp]: "0 \<le> i \<Longrightarrow> str_num (int_str i) = Fin (of_int i)"
  by (subst str_num_digits) (auto simp: int_str_def dest: nat_digits_all_digits)

lemma str_num_zero_int_str [simp]: "0 \<le> i \<Longrightarrow> str_num (js ''0'' @ int_str i) = Fin (of_int i)"
proof -
  assume "0 \<le> i"
  moreover have "digits_val 10 (48 # ds) = digits_val 10 ds" for ds
    by (simp add: digits_val_def digit_val_def)
  ultimately show ?thesis
    using int_str_digits [of i] by (subst str_num_digits) (auto simp: js_def is_digit_def int_str_def)
qed

text \<open>A field of at least two digits, as the code pads it.\<close>

definition field :: "int \<Rightarrow> jstr" where
  "field n = (if n < 10 then js ''0'' @ int_str n else int_str n)"

lemma str_num_field: "0 \<le> n \<Longrightarrow> str_num (field n) = Fin (of_int n)"
  by (simp add: field_def)

lemma field_chars: "0 \<le> n \<Longrightarrow> c \<in> set (field n) \<Longrightarrow> is_digit c"
  using int_str_digits [of n] by (auto simp: field_def js_def is_digit_def split: if_splits)

lemma field_no_sep:
  "0 \<le> n \<Longrightarrow> 32 \<notin> set (field n)" "0 \<le> n \<Longrightarrow> 45 \<notin> set (field n)" "0 \<le> n \<Longrightarrow> 58 \<notin> set (field n)"
  by (auto dest: field_chars simp: is_digit_def)

lemma int_str_no_sep: "0 \<le> n \<Longrightarrow> 32 \<notin> set (int_str n)" "0 \<le> n \<Longrightarrow> 45 \<notin> set (int_str n)"
  using int_str_digits [of n] by (auto simp: is_digit_def)

lemma pad2_field: "pad2 sep n = sep @ field n"
  by (simp add: pad2_def field_def)

lemma date_str_shape:
  "dmtGetDateStr (fixed_zone k) now d False =
     int_str (year_of_day (day_of d)) @ 45 # field (int (month_of_day (day_of d)) + 1)
     @ 45 # field (date_of_day (day_of d)) @ 32 # field (hour_of d) @ 58 # field (minute_of d)"
  by (simp add: dmtGetDateStr_def fixed_zone_def local_time_def pad2_field Let_def field_def js_def)

lemma minute_start: "make_date (day_of t) (make_time (hour_of t) (minute_of t) 0 0) = t div 60000 * 60000"
proof -
  have "t = make_date (day_of t) (make_time (hour_of t) (minute_of t) 0 0) + (second_of t * 1000 + milli_of t)"
    using time_parts [of t] by (simp add: make_date_def make_time_def)
  moreover have "second_of t * 1000 + milli_of t = t mod 60000"
    using zmod_zmult2_eq [of 60 t 1000] by (simp add: second_of_def milli_of_def)
  ultimately show ?thesis by (simp add: minus_mod_eq_div_mult [symmetric])
qed

lemma second_start: "make_date (day_of t) (make_time (hour_of t) (minute_of t) (second_of t) 0) = t div 1000 * 1000"
proof -
  have "t = make_date (day_of t) (make_time (hour_of t) (minute_of t) (second_of t) 0) + milli_of t"
    using time_parts [of t] by (simp add: make_date_def make_time_def)
  then show ?thesis by (simp add: milli_of_def minus_mod_eq_div_mult [symmetric])
qed

lemma day_item_nums:
  assumes "0 \<le> y" "0 \<le> m" "0 \<le> d"
  shows "split_on 45 (int_str y @ 45 # field m @ 45 # field d) = [int_str y, field m, field d]"
  using assms by (simp add: split_on_append split_on_no_sep int_str_no_sep field_no_sep)

text \<open>The text of a date and time, in the form \<open>yyyy-MM-dd HH:mm:ss\<close>.\<close>

definition stamp_text :: "int \<Rightarrow> int \<Rightarrow> int \<Rightarrow> int \<Rightarrow> int \<Rightarrow> int \<Rightarrow> jstr" where
  "stamp_text y m d h mi s =
     int_str y @ 45 # field m @ 45 # field d @ 32 # field h @ 58 # field mi @ 58 # field s"

lemma timestamp_fields:
  assumes "0 \<le> y" "1 \<le> m" "0 \<le> d" "0 \<le> h" "0 \<le> mi" "0 \<le> s" "new_date z y (m - 1) d h mi s = Some t"
  shows "dmtGetTimeStamp z (Some (stamp_text y m d h mi s)) = Inr (Fin (of_int t / 1000))"
proof -
  let ?date = "int_str y @ 45 # field m @ 45 # field d"
  let ?time = "field h @ 58 # field mi @ 58 # field s"
  have m: "0 \<le> m" using assms(2) by simp
  have shown: "stamp_text y m d h mi s = ?date @ 32 # ?time" by (simp add: stamp_text_def)
  have "split_on 32 (?date @ 32 # ?time) = [?date, ?time]"
    by (subst split_on_append, simp add: int_str_no_sep field_no_sep assms m,
        subst split_on_no_sep, simp_all add: field_no_sep assms)
  moreover have "split_on 45 ?date = [int_str y, field m, field d]"
    using assms m by (simp add: day_item_nums)
  moreover have "split_on 58 ?time = [field h, field mi, field s]"
    by (simp add: split_on_append split_on_no_sep field_no_sep assms)
  moreover have "trunc_rat (of_int m - 1) = m - 1" using trunc_of_int [of "m - 1"] by (simp del: trunc_of_int)
  ultimately show ?thesis
    using assms m unfolding shown dmtGetTimeStamp_def
    by (simp add: item_num_def date_num_def str_num_field js_sub_def Let_def)
qed

lemma time_bounds: "0 \<le> hour_of t" "0 \<le> minute_of t" "0 \<le> second_of t"
  by (simp_all add: hour_of_def minute_of_def second_of_def)

text \<open>The local date and time of a moment, as a text.\<close>

definition local_text :: "time_zone \<Rightarrow> int \<Rightarrow> jstr" where
  "local_text z t =
     (let d = local_time z t
      in stamp_text (year_of_day (day_of d)) (int (month_of_day (day_of d)) + 1) (date_of_day (day_of d))
           (hour_of d) (minute_of d) (second_of d))"

text \<open>
  C33: in a time zone with a fixed offset, \<open>dmtGetTimeStamp\<close> of the local date and time of a moment
  in the form \<open>yyyy-MM-dd HH:mm:ss\<close> (the form the fields of the log page hold) is that moment in whole
  seconds since 1970. The local year is at least 100, and the moment is in the range of a \<open>Date\<close>.
\<close>

theorem timestamp_of_local_text:
  assumes "99 < year_of_day (day_of (local_time (fixed_zone k) t))" "\<bar>t div 1000 * 1000\<bar> \<le> 8640000000000000"
  shows "dmtGetTimeStamp (fixed_zone k) (Some (local_text (fixed_zone k) t)) = Inr (Fin (of_int (t div 1000)))"
proof -
  define d where "d = local_time (fixed_zone k) t"
  have y: "99 < year_of_day (day_of d)" using assms(1) by (simp add: d_def)
  have "d = t + (- k * 60) * 1000" by (simp add: d_def local_time_def fixed_zone_def)
  then have "d div 1000 = t div 1000 - k * 60" by simp
  then have s: "d div 1000 * 1000 + k * 60000 = t div 1000 * 1000" by simp
  have new: "new_date (fixed_zone k) (year_of_day (day_of d)) (int (month_of_day (day_of d)) + 1 - 1) (date_of_day (day_of d))
      (hour_of d) (minute_of d) (second_of d) = Some (t div 1000 * 1000)"
    using y assms(2) make_day_of_day [of "day_of d"] second_start [of d] s
    by (simp add: new_date_def utc_time_def fixed_zone_def Let_def)
  have "0 \<le> date_of_day (day_of d)" using date_bounds [of "day_of d"] by simp
  from timestamp_fields [OF _ _ this _ _ _ new] y show ?thesis
    by (simp add: local_text_def d_def [symmetric] time_bounds)
qed

theorem timestamp_of_local_text_witness:
  "dmtGetTimeStamp (fixed_zone (-480)) (Some (local_text (fixed_zone (-480)) 1600000000000)) = Inr (Fin 1600000000)"
  using timestamp_of_local_text [of "-480" 1600000000000]
  by (simp add: day_of_def year_of_day_def day_from_year_def local_time_def fixed_zone_def)

text \<open>
  \<open>dmtGetDateStr\<close> prints no seconds. With seconds added, \<open>dmtGetTimeStamp\<close> of its text is the start of
  the minute, moved by the offset the printer takes out: the printer treats its argument as a
  time that was already shifted to local time.
\<close>

lemma date_str_with_seconds:
  assumes "99 < year_of_day (day_of d)" "\<bar>d div 60000 * 60000 + k * 60000\<bar> \<le> 8640000000000000"
  shows "dmtGetTimeStamp (fixed_zone k) (Some (dmtGetDateStr (fixed_zone k) now d False @ js '':00''))
    = Inr (Fin (of_int (d div 60000 * 60 + k * 60)))"
proof -
  have "dmtGetDateStr (fixed_zone k) now d False @ js '':00'' =
      stamp_text (year_of_day (day_of d)) (int (month_of_day (day_of d)) + 1) (date_of_day (day_of d)) (hour_of d) (minute_of d) 0"
    by (simp add: date_str_shape stamp_text_def field_def js_def int_str_def nat_digits.simps)
  moreover have "new_date (fixed_zone k) (year_of_day (day_of d)) (int (month_of_day (day_of d)) + 1 - 1) (date_of_day (day_of d))
      (hour_of d) (minute_of d) 0 = Some (d div 60000 * 60000 + k * 60000)"
    using assms make_day_of_day [of "day_of d"] minute_start [of d]
    by (simp add: new_date_def utc_time_def fixed_zone_def Let_def)
  moreover have "0 \<le> date_of_day (day_of d)" using date_bounds [of "day_of d"] by simp
  ultimately show ?thesis
    using timestamp_fields [of "year_of_day (day_of d)" "int (month_of_day (day_of d)) + 1" "date_of_day (day_of d)"
      "hour_of d" "minute_of d" 0 "fixed_zone k"] assms(1) by (simp add: time_bounds)
qed

section \<open>Escaping\<close>

lemma replace_all_absent: "p \<noteq> [] \<Longrightarrow> hd p \<notin> set s \<Longrightarrow> replace_all p r s = s"
  by (induction s) (auto simp: starts_with_iff Cons_eq_append_conv neq_Nil_conv)

lemma replace_all_single: "replace_all [c] r s = concat (map (\<lambda>x. if x = c then r else [x]) s)"
  by (induction s) auto

definition html_escape :: "jchar \<Rightarrow> jstr" where
  "html_escape c = (if c = 62 then js ''&gt;'' else if c = 60 then js ''&lt;'' else [c])"

text \<open>
  On a text without backslash, ampersand and underscore \<open>dmtEncodeHTML\<close> escapes the two
  angle brackets and nothing else, and the result has no angle bracket.
\<close>

theorem encode_html_plain:
  assumes "set s \<inter> {0x5C, 38, 95} = {}"
  shows "dmtEncodeHTML s = concat (map html_escape s)
    \<and> 60 \<notin> set (dmtEncodeHTML s) \<and> 62 \<notin> set (dmtEncodeHTML s)"
proof -
  have gt: "replace_all (js ''>'') (js ''&gt;'') s = concat (map (\<lambda>x. if x = 62 then js ''&gt;'' else [x]) s)"
    using replace_all_single [of 62 "js ''&gt;''" s] by (simp add: js_def)
  have lt: "replace_all (js ''<'') (js ''&lt;'') (concat (map (\<lambda>x. if x = 62 then js ''&gt;'' else [x]) s))
      = concat (map html_escape s)"
    by (induction s) (auto simp: js_def replace_all_single html_escape_def)
  have c: "set (concat (map html_escape s)) \<subseteq> set s - {60, 62} \<union> {38, 103, 108, 116, 59}"
    by (auto simp: html_escape_def js_def split: if_splits)
  then have n: "0x5C \<notin> set (concat (map html_escape s))" "95 \<notin> set (concat (map html_escape s))"
      "60 \<notin> set (concat (map html_escape s))" "62 \<notin> set (concat (map html_escape s))"
    using assms by auto
  have s: "38 \<notin> set s" using assms by auto
  have amp: "replace_all (js (CHR ''&'' # p)) r s = s" for p r
    by (rule replace_all_absent) (simp_all add: js_def s)
  have us: "replace_all (js (CHR ''_'' # p)) r (concat (map html_escape s)) = concat (map html_escape s)" for p r
    by (rule replace_all_absent) (use n(2) in \<open>simp_all add: js_def\<close>)
  have bs: "replace_all (0x5C # p) r (concat (map html_escape s)) = concat (map html_escape s)" for p r
    by (rule replace_all_absent) (use n(1) in simp_all)
  have "fold (\<lambda>(p, r) s. replace_all p r s) html_rules s = concat (map html_escape s)"
    unfolding html_rules_def by (simp only: fold_simps id_apply prod.case amp gt lt us bs)
  then have "dmtEncodeHTML s = concat (map html_escape s)"
    by (simp add: dmtEncodeHTML_def)
  with n show ?thesis by simp
qed

theorem encode_html_plain_witness: "60 \<notin> set (dmtEncodeHTML (js ''a<b''))"
  by (rule encode_html_plain [THEN conjunct2, THEN conjunct1]) (simp add: js_def)

text \<open>
  A text that spells the brackets as escapes gets them back unescaped: the replacements that
  follow turn the escapes into markup.
\<close>

lemma encode_html_decodes: "dmtEncodeHTML (0x5C # js ''x3C'') = js ''<''"
  by (simp add: dmtEncodeHTML_def html_rules_def js_def)

end
