(* ===== verification/Comm_Page.thy ===== *)
theory Comm_Page
  imports Comm_Format
begin

text \<open>
  The page of \<open>src/html/resource/js/dmt.comm.js\<close>: its global variables, the parts of the
  document the functions read and change, and the calls it makes to other scripts, which are
  recorded in order as effects. This theory holds the state and the functions that size and
  redraw charts. A callback given to \<open>setTimeout\<close> is put on \<open>pg_timers\<close> and runs in a step of
  its own.
\<close>

section \<open>The state\<close>

text \<open>
  \<open>warnInfo\<close> (\<open>wi_oid\<close> identifies the object, which a chart and a pending request share), and a
  chart of \<open>g_all_charts\<close> with the options it was given, latest first.
\<close>

record warn_info =
  wi_oid :: nat
  wi_mask :: int
  wi_cfg_id :: int
  wi_cgi_path :: "jstr option"
  wi_show_class :: jstr
  wi_attr_name :: jstr

record chart =
  ch_setwidth :: jsval
  ch_resized :: nat
  ch_options :: "jsval list"
  ch_warnInfo :: "warn_info option"

text \<open>
  What the page asks other scripts to do: messages (\<open>alertMsg\<close>), dialogs (\<open>$.pdialog\<close>), requests
  (\<open>$.ajax\<close>: address and parameters), tabs, the main page, the plugins.
\<close>

datatype effect =
    Alert_error jstr
  | Alert_warn jstr
  | Alert_info jstr
  | Alert_confirm jstr
  | Dialog jstr jstr jstr jsval
  | Local_dialog jstr jstr jsval
  | Close_dialog
  | Close_tab
  | Reload_tab
  | Redirect jstr
  | Ajax jstr "(jstr \<times> jsval) list"
  | Click jstr
  | Clear_timer int
  | Plugin_change jstr
  | Main_page jstr
  | Main_size
  | Main_redraw
  | Scroll_to jstr int
  | Append jstr jstr
  | Html jstr jstr
  | Dispose jstr
  | Css jstr jstr jsval

text \<open>
  The page. \<open>pg_ids\<close> are the identifiers of the containers in the document, in the order they were
  appended, and \<open>pg_width\<close> is the inline width in pixels of the first container of an identifier
  (the one that \<open>getElementById\<close> finds), \<open>None\<close> when its style has no valid width.
\<close>

record page =
  pg_has_trunc :: bool
  pg_win_w :: int
  pg_win_h :: int
  pg_sbar :: bool
  pg_sidebar_w :: int
  pg_left_w :: int
  pg_header_h :: int
  pg_footer_h :: int
  pg_tabs_h :: int
  g_dmtChartWidth :: jsval
  g_dmtLastLeftShow :: bool
  g_dmtLastType :: "jstr option"
  g_dmtLastTypeId :: "jstr option"
  g_all_charts :: "(jstr \<times> chart) list"
  g_PluginMargin :: jnum
  g_pluginShowWidth :: int
  g_pluginShowHeight :: int
  pg_plugin_margins :: "jstr list"
  pg_progress :: "bool \<times> jstr"
  pg_timers :: "jstr list"
  pg_tab :: "jstr option"
  pg_left_hidden :: "jstr \<Rightarrow> bool"
  pg_main_selected :: bool
  pg_site_cgi_path :: "jstr option"
  pg_doc_path :: jstr
  pg_dialog :: bool
  pg_next_oid :: nat
  pg_ids :: "jstr list"
  pg_width :: "jstr \<Rightarrow> rat option"
  pg_effects :: "effect list"

definition g_dmtChartMargin :: int where "g_dmtChartMargin = 20"
definition g_dmtChartMinWidth :: int where "g_dmtChartMinWidth = 560"
definition g_dmtChartHeight :: int where "g_dmtChartHeight = 460"
definition g_dmtSingleChartMinWidth :: int where "g_dmtSingleChartMinWidth = 1100"
definition g_dmtSingleChartHeight :: int where "g_dmtSingleChartHeight = 520"
definition g_dmtRedrawChartCountShowProc :: nat where "g_dmtRedrawChartCountShowProc = 5"

definition emit :: "effect \<Rightarrow> page \<Rightarrow> page" where
  "emit e p = p\<lparr>pg_effects := pg_effects p @ [e]\<rparr>"

abbreviation num :: "int \<Rightarrow> jnum" where
  "num i \<equiv> Fin (of_int i)"

text \<open>The bug report is built and then dropped.\<close>

definition bug_message :: "jstr \<Rightarrow> jstr \<Rightarrow> jstr \<Rightarrow> jstr" where
  "bug_message file func msg =
     js ''Js bug report info -- file:'' @ file @ js ''   ''
     @ js ''function:'' @ func @ js ''   '' @ js ''info msg:'' @ msg @ js ''   ''"

definition dmtJsBugReport :: "jstr \<Rightarrow> jstr \<Rightarrow> jstr \<Rightarrow> page \<Rightarrow> page" where
  "dmtJsBugReport file func msg p = (let bugmsg = bug_message file func msg in p)"

section \<open>Sizes\<close>

definition dmtSetPluginShowWH :: "page \<Rightarrow> page \<times> bool" where
  "dmtSetPluginShowWH p =
     (let iSub = (if pg_sbar p then pg_sidebar_w p else 35);
          iContentW = pg_win_w p - iSub;
          bChanged = (iContentW \<noteq> g_pluginShowWidth p);
          p = (if bChanged then p\<lparr>g_pluginShowWidth := iContentW\<rparr> else p);
          iContentH = pg_win_h p - pg_header_h p - pg_footer_h p - pg_tabs_h p
      in if g_pluginShowHeight p \<noteq> iContentH then (p\<lparr>g_pluginShowHeight := iContentH\<rparr>, True)
         else (p, bChanged))"

text \<open>The margin of the plugin boxes; \<open>tab\<close> is \<open>None\<close> when the argument is left out.\<close>

definition plugin_margin :: "page \<Rightarrow> jnum" where
  "plugin_margin p =
     (let iSub = (if pg_sbar p then pg_sidebar_w p + 10 else 24);
          iContentW = pg_win_w p - iSub - 20 - 45;
          xLeft = js_rem (num iContentW) (Fin 452);
          xCount = dmtMathtrunc (pg_has_trunc p) (js_div (num iContentW) (Fin 452))
      in dmtMathtrunc (pg_has_trunc p) (js_div (js_div xLeft xCount) (Fin 2)))"

definition dmtSetPluginMarginInfo :: "jstr option \<Rightarrow> page \<Rightarrow> page \<times> bool" where
  "dmtSetPluginMarginInfo tab p =
     (let newM = plugin_margin p
      in if \<not> js_num_eq newM (g_PluginMargin p) then
           (let p = p\<lparr>g_PluginMargin := newM\<rparr>
            in case tab of
                 None \<Rightarrow> (p, True)
               | Some t \<Rightarrow>
                   if t = js ''dmt_plugin_open'' then
                     (p\<lparr>pg_plugin_margins :=
                          map (\<lambda>_. js ''10px '' @ num_str (g_PluginMargin p) @ js ''px'') (pg_plugin_margins p)\<rparr>, True)
                   else (dmtJsBugReport (js ''dmt.comm.js'') (js ''dmtSetPluginMarginInfo'')
                           (js ''unknow plugin tab:'' @ t) p, True))
         else (p, False))"

definition dmtIsExplorerSupport :: bool where
  "dmtIsExplorerSupport = True"

definition content_width :: "page \<Rightarrow> int" where
  "content_width p =
     (let iSub = (if pg_sbar p then pg_sidebar_w p + 10 else 24);
          iContentW = pg_win_w p - iSub - 5 - 45
      in if g_dmtLastLeftShow p then iContentW - pg_left_w p else iContentW)"

definition dmtSetChartSize :: "page \<Rightarrow> page" where
  "dmtSetChartSize p =
     (let iContentW = content_width p;
          xWidth = g_dmtChartMinWidth + g_dmtChartMargin * 2;
          xLeft = js_rem (num iContentW) (num xWidth);
          xCount = dmtMathtrunc (pg_has_trunc p) (js_div (num iContentW) (num xWidth));
          xBlank = dmtMathtrunc (pg_has_trunc p) (js_div xLeft xCount)
      in p\<lparr>g_dmtChartWidth := Num (js_add (num g_dmtChartMinWidth) xBlank)\<rparr>)"

section \<open>Redrawing\<close>

definition dmtSetRedrawChartsInfo :: "jstr option \<Rightarrow> jstr option \<Rightarrow> bool \<Rightarrow> page \<Rightarrow> page" where
  "dmtSetRedrawChartsInfo type_id type isLeftShow p =
     p\<lparr>g_dmtLastTypeId := type_id, g_dmtLastType := type, g_dmtLastLeftShow := isLeftShow\<rparr>"

definition opt_str :: "jstr option \<Rightarrow> jstr" where
  "opt_str s = (case s of Some t \<Rightarrow> t | None \<Rightarrow> js ''null'')"

text \<open>
  \<open>ct.match(keystr)\<close>: an identifier and the name of a type hold no character that is special in
  a regular expression, so the pattern is a literal text.
\<close>

definition chart_matches :: "jstr \<Rightarrow> jstr \<Rightarrow> bool" where
  "chart_matches keystr ct = js_contains keystr ct"

text \<open>The counting loop; \<open>None\<close> is its early return.\<close>

fun redraw_scan :: "jsval \<Rightarrow> jstr \<Rightarrow> (jstr \<times> chart) list \<Rightarrow> nat \<Rightarrow> nat option" where
  "redraw_scan w keystr [] n = Some n"
| "redraw_scan w keystr ((ct, c) # cs) n =
     (if chart_matches keystr ct then
        (if ch_setwidth c \<noteq> Undefined \<and> js_eq (ch_setwidth c) w then None
         else redraw_scan w keystr cs (n + 1))
      else redraw_scan w keystr cs n)"

text \<open>The progress bar is shown for many charts, and the timer is set.\<close>

definition redraw_later :: "nat \<Rightarrow> jstr \<Rightarrow> page \<Rightarrow> page" where
  "redraw_later iNeedRedraw keystr p =
     (let p = (if g_dmtRedrawChartCountShowProc < iNeedRedraw
               then p\<lparr>pg_progress := (True, [0x56FE, 0x8868, 0x91CD, 0x7ED8, 0x4E2D, 0x002C, 0x0020, 0x8BF7, 0x7A0D, 0x7B49, 0x002E, 0x002E, 0x002E])\<rparr> else p)
      in p\<lparr>pg_timers := pg_timers p @ [keystr]\<rparr>)"

text \<open>\<open>args\<close> is \<open>None\<close> for a call without arguments.\<close>

definition dmtRedrawCharts :: "(jstr option \<times> jstr option \<times> bool) option \<Rightarrow> page \<Rightarrow> page" where
  "dmtRedrawCharts args p =
     (let p = (case args of
                 Some (type_id, type, isLeftShow) \<Rightarrow> dmtSetRedrawChartsInfo type_id type isLeftShow p
               | None \<Rightarrow> p)
      in case g_dmtLastTypeId p of
           None \<Rightarrow> p
         | Some type_id \<Rightarrow>
             if g_dmtLastType p = Some (js ''plugin'') then
               (let (p, changed) = dmtSetPluginShowWH p
                in if changed then emit (Plugin_change type_id) p else p)
             else
               (let p = dmtSetChartSize p;
                    keystr = js ''_'' @ type_id @ opt_str (g_dmtLastType p)
                in case redraw_scan (g_dmtChartWidth p) keystr (g_all_charts p) 0 of
                     None \<Rightarrow> p
                   | Some iNeedRedraw \<Rightarrow> redraw_later iNeedRedraw keystr p))"

text \<open>The callback of the timer: it uses the chart width at the time it runs.\<close>

definition redraw_chart :: "jsval \<Rightarrow> chart \<Rightarrow> chart" where
  "redraw_chart w c = c\<lparr>ch_resized := ch_resized c + 1, ch_setwidth := w\<rparr>"

text \<open>
  What \<open>css('width', w)\<close> makes of the inline width \<open>x\<close>: jQuery does nothing for \<open>undefined\<close> and
  \<open>NaN\<close>, the browser ignores \<open>Infinitypx\<close>, and a negative number is set as 0.
\<close>

definition css_width :: "jsval \<Rightarrow> rat option \<Rightarrow> rat option" where
  "css_width w x = (case w of Num (Fin q) \<Rightarrow> Some (max 0 q) | _ \<Rightarrow> x)"

definition redraw_timer :: "jstr \<Rightarrow> page \<Rightarrow> page" where
  "redraw_timer keystr p =
     p\<lparr>g_all_charts := map (\<lambda>(ct, c). (ct, if chart_matches keystr ct then redraw_chart (g_dmtChartWidth p) c else c))
          (g_all_charts p),
       pg_width := (\<lambda>k. if k \<in> set (pg_ids p) \<and> k \<in> fst ` set (g_all_charts p) \<and> chart_matches keystr k
                        then css_width (g_dmtChartWidth p) (pg_width p k) else pg_width p k),
       pg_progress := (False, snd (pg_progress p))\<rparr>"

text \<open>The earliest pending callback runs.\<close>

definition run_timer :: "page \<Rightarrow> page" where
  "run_timer p =
     (case pg_timers p of [] \<Rightarrow> p | k # ks \<Rightarrow> redraw_timer k (p\<lparr>pg_timers := ks\<rparr>))"

section \<open>Tabs\<close>

definition tab_type_id :: "jstr \<Rightarrow> jstr option" where
  "tab_type_id nid = (let parts = split_on 95 nid in if 1 < length parts then Some (parts ! 1) else None)"

definition redrawChartsOnSwitchTab :: "page \<Rightarrow> page" where
  "redrawChartsOnSwitchTab p =
     (case pg_tab p of
        None \<Rightarrow> p
      | Some nid \<Rightarrow>
          let type_id = tab_type_id nid
          in if js_contains (js ''showmachine_'') nid then
               dmtRedrawCharts None (dmtSetRedrawChartsInfo type_id (Some (js ''machine''))
                 (\<not> pg_left_hidden p (js ''#dsmLeftMenu_'' @ opt_str type_id)) p)
             else if js_contains (js ''showplugin_'') nid then
               dmtRedrawCharts None (dmtSetRedrawChartsInfo type_id (Some (js ''plugin'')) False p)
             else if js_contains (js ''showview_'') nid then
               dmtRedrawCharts None (dmtSetRedrawChartsInfo type_id (Some (js ''view''))
                 (\<not> pg_left_hidden p (js ''#dsLeftMenu_'' @ opt_str type_id)) p)
             else p)"

definition redrawChartsMain :: "page \<Rightarrow> page" where
  "redrawChartsMain p = (if pg_main_selected p then emit Main_redraw (emit Main_size p) else p)"

definition redrawCharts :: "page \<Rightarrow> page" where
  "redrawCharts p =
     (case pg_tab p of
        None \<Rightarrow> emit (Main_page (js ''main'')) p
      | Some nid \<Rightarrow>
          let p = (if js_contains (js ''showmachine_'') nid \<or> js_contains (js ''showview_'') nid
                      \<or> js_contains (js ''showplugin_'') nid
                   then dmtRedrawCharts None p else p)
          in if js_contains (js ''dmt_plugin_'') nid then fst (dmtSetPluginMarginInfo (Some nid) p) else p)"

section \<open>The page at its start\<close>

definition start_page :: "bool \<Rightarrow> int \<Rightarrow> int \<Rightarrow> page" where
  "start_page has_trunc w h =
     \<lparr>pg_has_trunc = has_trunc, pg_win_w = w, pg_win_h = h, pg_sbar = False, pg_sidebar_w = 200, pg_left_w = 180,
      pg_header_h = 50, pg_footer_h = 20, pg_tabs_h = 30,
      g_dmtChartWidth = Undefined, g_dmtLastLeftShow = False, g_dmtLastType = None, g_dmtLastTypeId = None,
      g_all_charts = [], g_PluginMargin = Fin 10, g_pluginShowWidth = 0, g_pluginShowHeight = 0,
      pg_plugin_margins = [], pg_progress = (False, []), pg_timers = [], pg_tab = None,
      pg_left_hidden = (\<lambda>_. False), pg_main_selected = True, pg_site_cgi_path = None, pg_doc_path = [],
      pg_dialog = False, pg_next_oid = 0, pg_ids = [], pg_width = (\<lambda>_. None), pg_effects = []\<rparr>"

definition blank_chart :: "jsval \<Rightarrow> chart" where
  "blank_chart w = \<lparr>ch_setwidth = w, ch_resized = 0, ch_options = [], ch_warnInfo = None\<rparr>"

section \<open>A row of charts fits\<close>

lemma trunc_div_int: "0 \<le> a \<Longrightarrow> 0 < b \<Longrightarrow> trunc_rat (of_int a / of_int b) = a div b"
  by (simp add: trunc_rat_def floor_divide_of_int_eq)

lemma js_rem_int: "0 \<le> a \<Longrightarrow> 0 < b \<Longrightarrow> js_rem (num a) (num b) = num (a mod b)"
  by (simp add: trunc_div_int minus_mult_div_eq_mod [symmetric])

lemma split_width:
  assumes "0 < m" "m \<le> (w :: int)"
  shows "0 < w div m" "w div m * m + w div m * (w mod m div (w div m)) \<le> w"
    "w < w div m * m + w div m * (w mod m div (w div m)) + w div m"
proof -
  show n: "0 < w div m" using assms by (simp add: pos_imp_zdiv_pos_iff)
  have "w = w div m * m + w mod m" by simp
  moreover have "w mod m = w div m * (w mod m div (w div m)) + w mod m mod (w div m)" by simp
  moreover have "0 \<le> w mod m mod (w div m)" "w mod m mod (w div m) < w div m" using n by simp_all
  ultimately show "w div m * m + w div m * (w mod m div (w div m)) \<le> w"
    "w < w div m * m + w div m * (w mod m div (w div m)) + w div m" by linarith+
qed

lemma chart_width:
  assumes "pg_has_trunc p" "600 \<le> content_width p"
  shows "g_dmtChartWidth (dmtSetChartSize p) = NumI (560 + content_width p mod 600 div (content_width p div 600))"
proof -
  let ?W = "content_width p"
  have n: "0 < ?W div 600" using assms(2) by simp
  have r: "js_rem (num ?W) (num 600) = num (?W mod 600)" using assms(2) by (intro js_rem_int) auto
  have t: "trunc_rat (of_int ?W / 600) = ?W div 600"
    using trunc_div_int [of ?W 600] assms(2) by simp
  have b: "trunc_rat (of_int (?W mod 600) / of_int (?W div 600)) = ?W mod 600 div (?W div 600)"
    using n by (intro trunc_div_int) auto
  show ?thesis
    using assms(1) n r unfolding dmtSetChartSize_def Let_def g_dmtChartMinWidth_def g_dmtChartMargin_def
    by (simp add: dmtMathtrunc_def t b del: js_rem.simps)
qed

text \<open>
  C31: when the browser has \<open>Math.trunc\<close> and the content is at least 600 pixels wide (one chart with its
  margins), \<open>dmtSetChartSize\<close> chooses a width of at least \<open>g_dmtChartMinWidth\<close>, which is 560 (the comment
  above the function says 620), such that a row of \<open>xCount\<close> charts with their margins fits into the
  content, and one pixel more per chart would not.
\<close>

theorem chart_row_fits:
  assumes "pg_has_trunc p" "600 \<le> content_width p"
  shows "\<exists>w. g_dmtChartWidth (dmtSetChartSize p) = NumI w \<and> g_dmtChartMinWidth \<le> w
    \<and> content_width p div 600 * (w + 2 * g_dmtChartMargin) \<le> content_width p
    \<and> content_width p < content_width p div 600 * (w + 1 + 2 * g_dmtChartMargin)"
proof (intro exI conjI)
  let ?W = "content_width p"
  let ?w = "560 + ?W mod 600 div (?W div 600)"
  show "g_dmtChartWidth (dmtSetChartSize p) = NumI ?w" by (rule chart_width [OF assms])
  note f = split_width [of 600 ?W]
  have "0 \<le> ?W mod 600 div (?W div 600)" using f(1) assms(2) by (intro pos_imp_zdiv_nonneg_iff [THEN iffD2]) auto
  then show "g_dmtChartMinWidth \<le> ?w" by (simp add: g_dmtChartMinWidth_def)
  show "?W div 600 * (?w + 2 * g_dmtChartMargin) \<le> ?W" "?W < ?W div 600 * (?w + 1 + 2 * g_dmtChartMargin)"
    using f assms(2) by (simp_all add: g_dmtChartMargin_def distrib_left algebra_simps)
qed

theorem chart_row_fits_witness:
  "\<exists>w. g_dmtChartWidth (dmtSetChartSize (start_page True 1366 768)) = NumI w \<and> 560 \<le> w
    \<and> 2 * (w + 40) \<le> 1292 \<and> 1292 < 2 * (w + 41)"
  using chart_row_fits [of "start_page True 1366 768"]
  by (auto simp: start_page_def content_width_def g_dmtChartMinWidth_def g_dmtChartMargin_def)

text \<open>In a content narrower than half a chart the width is not a finite number.\<close>

lemma chart_width_narrow:
  assumes "0 < content_width p" "content_width p < 300"
  shows "g_dmtChartWidth (dmtSetChartSize p) = Num PosInf"
proof -
  let ?r = "of_int (content_width p) / 600 :: rat"
  have b: "0 < ?r" "?r < 1 / 2" using assms by (simp_all add: field_simps)
  then have t: "trunc_rat ?r = 0" "\<lfloor>?r + 1 / 2\<rfloor> = 0" by (simp_all add: trunc_rat_def floor_eq_iff)
  have "js_rem (num (content_width p)) (num 600) = num (content_width p)" using t(1) by simp
  then show ?thesis
    using t b assms unfolding dmtSetChartSize_def Let_def g_dmtChartMinWidth_def g_dmtChartMargin_def
    by (simp add: dmtMathtrunc_def signed_inf_def del: js_rem.simps)
qed

section \<open>Redrawing settles\<close>

definition key_of :: "jstr \<Rightarrow> jstr \<Rightarrow> jstr" where
  "key_of type_id type = js ''_'' @ type_id @ type"

definition charts_of :: "jstr \<Rightarrow> page \<Rightarrow> chart list" where
  "charts_of keystr p = map snd (filter (\<lambda>(ct, c). chart_matches keystr ct) (g_all_charts p))"

lemma redraw_scan_None:
  "redraw_scan w k cs n = None \<longleftrightarrow>
     (\<exists>(ct, c) \<in> set cs. chart_matches k ct \<and> ch_setwidth c \<noteq> Undefined \<and> js_eq (ch_setwidth c) w)"
  by (induction w k cs n rule: redraw_scan.induct) auto

lemma charts_of_redraw_timer:
  "charts_of k (redraw_timer k p) = map (redraw_chart (g_dmtChartWidth p)) (charts_of k p)"
proof -
  have "map snd (filter (\<lambda>(ct, c). chart_matches k ct)
      (map (\<lambda>(ct, c). (ct, if chart_matches k ct then redraw_chart w c else c)) cs))
    = map (redraw_chart w) (map snd (filter (\<lambda>(ct, c). chart_matches k ct) cs))" for w cs
    by (induction cs) auto
  then show ?thesis by (simp add: charts_of_def redraw_timer_def)
qed

lemma unmatched_redraw_timer:
  "filter (\<lambda>(ct, c). \<not> chart_matches k ct) (g_all_charts (redraw_timer k p))
     = filter (\<lambda>(ct, c). \<not> chart_matches k ct) (g_all_charts p)"
proof -
  have "filter (\<lambda>(ct, c). \<not> chart_matches k ct)
      (map (\<lambda>(ct, c). (ct, if chart_matches k ct then redraw_chart w c else c)) cs)
    = filter (\<lambda>(ct, c). \<not> chart_matches k ct) cs" for w cs
    by (induction cs) auto
  then show ?thesis by (simp add: redraw_timer_def)
qed

lemma redraw_info:
  "g_dmtLastTypeId (dmtSetRedrawChartsInfo i t l p) = i" "g_dmtLastType (dmtSetRedrawChartsInfo i t l p) = t"
  "g_dmtLastLeftShow (dmtSetRedrawChartsInfo i t l p) = l"
  by (simp_all add: dmtSetRedrawChartsInfo_def)

lemma js_eq_number: "js_eq (Num x) (Num y) \<Longrightarrow> x = y"
  by (simp add: js_eq_def js_num_eq_def)

text \<open>What the page is after \<open>dmtRedrawCharts\<close> for a view or a machine, and after its timer.\<close>

lemma redraw_started:
  fixes p :: page and left :: bool and type_id :: jstr
  assumes "type \<noteq> js ''plugin''"
  defines "q \<equiv> dmtSetChartSize (dmtSetRedrawChartsInfo (Some type_id) (Some type) left p)"
  shows "dmtRedrawCharts (Some (Some type_id, Some type, left)) p =
    (case redraw_scan (g_dmtChartWidth q) (key_of type_id type) (g_all_charts p) 0 of
       None \<Rightarrow> q | Some n \<Rightarrow> redraw_later n (key_of type_id type) q)"
proof -
  have key: "js ''_'' @ type_id @ opt_str (g_dmtLastType q) = key_of type_id type"
    by (simp add: q_def key_of_def opt_str_def dmtSetChartSize_def dmtSetRedrawChartsInfo_def Let_def)
  have "g_all_charts q = g_all_charts p"
    by (simp add: q_def dmtSetChartSize_def dmtSetRedrawChartsInfo_def Let_def)
  then show ?thesis
    unfolding dmtRedrawCharts_def Let_def option.case prod.case redraw_info q_def [symmetric] key
    using assms(1) by simp
qed

lemma chart_size_frame [simp]:
  "g_all_charts (dmtSetChartSize p) = g_all_charts p" "pg_timers (dmtSetChartSize p) = pg_timers p"
  "pg_progress (dmtSetChartSize p) = pg_progress p" "pg_width (dmtSetChartSize p) = pg_width p"
  "pg_ids (dmtSetChartSize p) = pg_ids p"
  by (simp_all add: dmtSetChartSize_def Let_def)

lemma redraw_info_frame [simp]:
  "g_all_charts (dmtSetRedrawChartsInfo i t l p) = g_all_charts p"
  "pg_timers (dmtSetRedrawChartsInfo i t l p) = pg_timers p"
  "pg_progress (dmtSetRedrawChartsInfo i t l p) = pg_progress p"
  "pg_width (dmtSetRedrawChartsInfo i t l p) = pg_width p"
  "pg_ids (dmtSetRedrawChartsInfo i t l p) = pg_ids p"
  by (simp_all add: dmtSetRedrawChartsInfo_def)

lemma redraw_later_frame [simp]:
  "g_all_charts (redraw_later n k p) = g_all_charts p" "pg_width (redraw_later n k p) = pg_width p"
  "pg_ids (redraw_later n k p) = pg_ids p" "g_dmtChartWidth (redraw_later n k p) = g_dmtChartWidth p"
  "pg_timers (redraw_later n k p) = pg_timers p @ [k]"
  by (simp_all add: redraw_later_def Let_def)

lemma charts_ofE:
  assumes "(ct, c) \<in> set (g_all_charts p)" "chart_matches k ct"
  shows "c \<in> set (charts_of k p)"
  using assms unfolding charts_of_def set_map set_filter by (intro image_eqI [of _ _ "(ct, c)"]) simp_all

text \<open>The scan gives up exactly when there is a chart to redraw and it has the new width already.\<close>

lemma scan_one_width:
  assumes "\<forall>c \<in> set (charts_of k p). ch_setwidth c = Num v"
  shows "redraw_scan w k (g_all_charts p) n = None \<longleftrightarrow> charts_of k p \<noteq> [] \<and> js_eq (Num v) w"
proof
  assume "redraw_scan w k (g_all_charts p) n = None"
  then obtain ct c where c: "(ct, c) \<in> set (g_all_charts p)" "chart_matches k ct" "js_eq (ch_setwidth c) w"
    unfolding redraw_scan_None by blast
  from charts_ofE [OF c(1,2)] assms c(3) show "charts_of k p \<noteq> [] \<and> js_eq (Num v) w" by auto
next
  assume a: "charts_of k p \<noteq> [] \<and> js_eq (Num v) w"
  then obtain ct c where c: "(ct, c) \<in> set (g_all_charts p)" "chart_matches k ct"
    by (auto simp: charts_of_def filter_empty_conv)
  from charts_ofE [OF c] assms have "ch_setwidth c = Num v" by blast
  with c a show "redraw_scan w k (g_all_charts p) n = None" unfolding redraw_scan_None by force
qed

text \<open>
  C30: take a view or a machine whose charts all have the same recorded width, and no redraw
  pending. A redraw and its timer then give every one of its charts the width \<open>dmtSetChartSize\<close>
  computes as recorded width. If that differs from the old one, each of these charts is resized
  once and the inline width of its container is set with \<open>css\<close> (a finite width of at least 0
  becomes exactly that many pixels); otherwise charts and containers stay as they are. Options and
  warning data are kept, the other charts and containers are left alone, the progress bar that
  may have been shown is hidden and no timer is left behind.
\<close>

theorem redraw_settles:
  fixes p :: page and left :: bool
  assumes "pg_timers p = []" "\<not> fst (pg_progress p)" "type \<noteq> js ''plugin''"
    and "\<forall>c \<in> set (charts_of (key_of type_id type) p). ch_setwidth c = Num v"
  defines "p' \<equiv> run_timer (dmtRedrawCharts (Some (Some type_id, Some type, left)) p)"
    and "w \<equiv> g_dmtChartWidth (dmtSetChartSize (p\<lparr>g_dmtLastLeftShow := left\<rparr>))"
  shows "map (\<lambda>c. (ch_setwidth c, ch_resized c, ch_options c, ch_warnInfo c)) (charts_of (key_of type_id type) p')
      = map (\<lambda>c. (w, if js_eq (Num v) w then ch_resized c else ch_resized c + 1, ch_options c, ch_warnInfo c))
          (charts_of (key_of type_id type) p)
    \<and> pg_width p' = (\<lambda>k. if k \<in> set (pg_ids p) \<and> k \<in> fst ` set (g_all_charts p)
            \<and> chart_matches (key_of type_id type) k \<and> \<not> js_eq (Num v) w
          then (case w of Num (Fin q) \<Rightarrow> Some (max 0 q) | _ \<Rightarrow> pg_width p k) else pg_width p k)
    \<and> filter (\<lambda>(ct, c). \<not> chart_matches (key_of type_id type) ct) (g_all_charts p')
      = filter (\<lambda>(ct, c). \<not> chart_matches (key_of type_id type) ct) (g_all_charts p)
    \<and> pg_timers p' = [] \<and> \<not> fst (pg_progress p')"
proof -
  let ?k = "key_of type_id type"
  define q where "q = dmtSetChartSize (dmtSetRedrawChartsInfo (Some type_id) (Some type) left p)"
  have w: "w = g_dmtChartWidth q"
    by (simp add: w_def q_def dmtSetChartSize_def dmtSetRedrawChartsInfo_def content_width_def Let_def)
  obtain x where x: "w = Num x" by (simp add: w_def dmtSetChartSize_def Let_def)
  note r = redraw_started [OF assms(3), of type_id left p, folded q_def w]
  show ?thesis
  proof (cases "redraw_scan w ?k (g_all_charts p) 0")
    case None
    then have v: "js_eq (Num v) w" "w = Num v"
      using scan_one_width [OF assms(4)] js_eq_number x by auto
    have "p' = q" using None r assms(1) by (simp add: p'_def run_timer_def q_def)
    moreover have "charts_of ?k q = charts_of ?k p" by (simp add: charts_of_def q_def)
    ultimately show ?thesis using v assms(2,4) assms(1) by (auto simp: q_def)
  next
    case (Some n)
    define q' where "q' = redraw_later n ?k q\<lparr>pg_timers := []\<rparr>"
    have p': "p' = redraw_timer ?k q'"
      using Some r assms(1) by (simp add: p'_def q'_def q_def run_timer_def)
    have q': "g_all_charts q' = g_all_charts p" "g_dmtChartWidth q' = w" "pg_timers q' = []"
      "pg_ids q' = pg_ids p" "pg_width q' = pg_width p" "charts_of ?k q' = charts_of ?k p"
      using w by (simp_all add: q'_def q_def charts_of_def)
    have none: "\<not> js_eq (Num v) w" if "charts_of ?k p \<noteq> []"
      using Some that scan_one_width [OF assms(4), of w 0] by auto
    have member: "charts_of ?k p \<noteq> []" if "k \<in> fst ` set (g_all_charts p)" "chart_matches ?k k" for k
      using that by (auto dest: charts_ofE)
    have charts: "map (\<lambda>c. (ch_setwidth c, ch_resized c, ch_options c, ch_warnInfo c)) (charts_of ?k p')
      = map (\<lambda>c. (w, if js_eq (Num v) w then ch_resized c else ch_resized c + 1, ch_options c, ch_warnInfo c))
          (charts_of ?k p)"
      unfolding p' charts_of_redraw_timer q' using none by (cases "charts_of ?k p") (auto simp: redraw_chart_def)
    have widths: "pg_width p' = (\<lambda>k. if k \<in> set (pg_ids p) \<and> k \<in> fst ` set (g_all_charts p)
            \<and> chart_matches ?k k \<and> \<not> js_eq (Num v) w
          then (case w of Num (Fin q) \<Rightarrow> Some (max 0 q) | _ \<Rightarrow> pg_width p k) else pg_width p k)"
      using none member by (fastforce simp: p' redraw_timer_def q' css_width_def)
    have rest: "filter (\<lambda>(ct, c). \<not> chart_matches ?k ct) (g_all_charts p')
      = filter (\<lambda>(ct, c). \<not> chart_matches ?k ct) (g_all_charts p)"
      unfolding p' unmatched_redraw_timer q' ..
    show ?thesis using charts widths rest q'(3) by (simp add: p' redraw_timer_def)
  qed
qed

theorem redraw_settles_witness:
  "map (\<lambda>c. (ch_setwidth c, ch_resized c)) (charts_of (js ''_7view'') (run_timer (dmtRedrawCharts (Some (Some (js ''7''), Some (js ''view''), False))
       (start_page True 1366 768\<lparr>g_all_charts := [(js ''attr_3_7view'', blank_chart (Num (Fin 560)))], pg_ids := [js ''attr_3_7view'']\<rparr>))))
     = [(NumI 606, 1)]
   \<and> pg_width (run_timer (dmtRedrawCharts (Some (Some (js ''7''), Some (js ''view''), False))
       (start_page True 1366 768\<lparr>g_all_charts := [(js ''attr_3_7view'', blank_chart (Num (Fin 560)))], pg_ids := [js ''attr_3_7view'']\<rparr>)))
       (js ''attr_3_7view'') = Some 606"
proof -
  let ?p = "start_page True 1366 768\<lparr>g_all_charts := [(js ''attr_3_7view'', blank_chart (Num (Fin 560)))], pg_ids := [js ''attr_3_7view'']\<rparr>"
  let ?p' = "run_timer (dmtRedrawCharts (Some (Some (js ''7''), Some (js ''view''), False)) ?p)"
  have k: "key_of (js ''7'') (js ''view'') = js ''_7view''" "chart_matches (js ''_7view'') (js ''attr_3_7view'')"
    by (simp_all add: key_of_def js_def chart_matches_def js_contains_def)
  have c: "content_width (?p\<lparr>g_dmtLastLeftShow := False\<rparr>) = 1292" by (simp add: content_width_def start_page_def)
  have w: "g_dmtChartWidth (dmtSetChartSize (?p\<lparr>g_dmtLastLeftShow := False\<rparr>)) = NumI 606"
    using chart_width [of "?p\<lparr>g_dmtLastLeftShow := False\<rparr>"] c by (simp add: start_page_def)
  have p: "charts_of (js ''_7view'') ?p = [blank_chart (Num (Fin 560))]" "g_all_charts ?p = [(js ''attr_3_7view'', blank_chart (Num (Fin 560)))]"
    "pg_ids ?p = [js ''attr_3_7view'']" "pg_timers ?p = []" "pg_progress ?p = (False, [])"
    using k by (simp_all add: charts_of_def start_page_def)
  have "map (\<lambda>c. (ch_setwidth c, ch_resized c, ch_options c, ch_warnInfo c)) (charts_of (js ''_7view'') ?p') = [(NumI 606, 1, [], None)]"
    "pg_width ?p' (js ''attr_3_7view'') = Some 606"
    using redraw_settles [of ?p "js ''view''" "js ''7''" "Fin 560" False] k w p
    by (simp_all add: blank_chart_def js_eq_def js_num_eq_def js_def)
  then show ?thesis by auto
qed

text \<open>
  Without that condition the loop of \<open>dmtRedrawCharts\<close> gives up: one chart that has the width
  already keeps all the others at their old one.
\<close>

lemma redraw_gives_up:
  "\<exists>ct c. (ct, c) \<in> set (g_all_charts (run_timer (dmtRedrawCharts (Some (Some (js ''7''), Some (js ''view''), False))
     (start_page True 1366 768\<lparr>g_all_charts := [(js ''attr_3_7view'', blank_chart (Num (Fin 560))),
        (js ''attr_4_7view'', blank_chart (Num (Fin 606)))]\<rparr>))))
     \<and> ct = js ''attr_3_7view'' \<and> ch_setwidth c = Num (Fin 560)"
  (is "\<exists>ct c. _ \<in> set (g_all_charts (run_timer (dmtRedrawCharts ?a ?p))) \<and> _")
proof -
  have w: "g_dmtChartWidth (dmtSetChartSize (?p\<lparr>g_dmtLastTypeId := Some (js ''7''), g_dmtLastType := Some (js ''view''),
      g_dmtLastLeftShow := False\<rparr>)) = NumI 606"
    by (subst chart_width) (simp_all add: start_page_def content_width_def)
  have "g_all_charts (run_timer (dmtRedrawCharts ?a ?p)) = g_all_charts ?p"
    using w by (simp add: dmtRedrawCharts_def dmtSetRedrawChartsInfo_def Let_def js_def opt_str_def chart_matches_def
      js_contains_def blank_chart_def run_timer_def dmtSetChartSize_def start_page_def)
  then show ?thesis
    by (intro exI [of _ "js ''attr_3_7view''"] exI [of _ "blank_chart (Num (Fin 560))"]) (simp add: blank_chart_def)
qed

end
