(* ===== verification/Comm_Data.thy ===== *)
theory Comm_Data
  imports Comm_Format "HOL-Library.Multiset"
begin

text \<open>
  Attribute data in \<open>src/html/resource/js/dmt.comm.js\<close>: the tree of attribute types, the list
  of attributes of a view or machine, the time axis, the data points of a curve and the
  daily growth of a counter. The objects come from the server; their members are the fields
  of the records, identifiers and counts are integers. A node of the type tree with a
  positive \<open>subcount\<close> has a \<open>list\<close>.
\<close>

section \<open>Data\<close>

record attr_info =
  ai_id :: int
  ai_name :: jstr
  ai_attr_type :: int
  ai_global :: int
  ai_pushed :: bool
  ai_show_class :: jstr
  ai_static_time :: int
  ai_static_idx_max :: nat
  ai_data_type :: int

record attr_list =
  al_view_id :: int
  al_machine_id :: int
  al_count :: int
  al_list :: "attr_info list"

datatype type_tree = TypeNode (tt_type: int) (tt_name: jstr) (tt_subcount: int) (tt_list: "type_tree list")

section \<open>The tree of attribute types\<close>

fun dmtSetTypeTree :: "type_tree \<Rightarrow> jstr"
  and type_items :: "int \<Rightarrow> type_tree list \<Rightarrow> jstr" where
  "dmtSetTypeTree (TypeNode ty name subcount listsub) =
     js ''<li><a href='' @ [0x27] @ js ''#'' @ [0x27] @ js '' '' @ js ''name='' @ int_str ty @ js ''>'' @ name @ js ''</a>''
     @ (if subcount = 0 then js ''</li>''
        else js ''<ul>'' @ type_items subcount listsub @ js ''</ul>'' @ js ''</li>'')"
| "type_items n [] = []"
| "type_items n (t # ts) = (if 0 < n then dmtSetTypeTree t @ type_items (n - 1) ts else [])"

text \<open>The text \<open>"null"\<close> for a type that is not found is \<open>None\<close>.\<close>

fun dmtGetTypeInfo :: "type_tree \<Rightarrow> int \<Rightarrow> type_tree option"
  and type_search :: "int \<Rightarrow> type_tree list \<Rightarrow> int \<Rightarrow> type_tree option" where
  "dmtGetTypeInfo (TypeNode ty name subcount listsub) ty' =
     (if ty = ty' then Some (TypeNode ty name subcount listsub) else type_search subcount listsub ty')"
| "type_search n [] ty' = None"
| "type_search n (t # ts) ty' =
     (if 0 < n then
        (case dmtGetTypeInfo t ty' of Some info \<Rightarrow> Some info | None \<Rightarrow> type_search (n - 1) ts ty')
      else None)"

section \<open>The list of attributes\<close>

fun attr_search :: "int \<Rightarrow> attr_info list \<Rightarrow> int \<Rightarrow> attr_info option" where
  "attr_search n [] attr_id = None"
| "attr_search n (a # as) attr_id =
     (if 0 < n then (if ai_id a = attr_id then Some a else attr_search (n - 1) as attr_id) else None)"

definition dmtGetAttrInfo :: "attr_list \<Rightarrow> int \<Rightarrow> attr_info option" where
  "dmtGetAttrInfo attrinfo attr_id = attr_search (al_count attrinfo) (al_list attrinfo) attr_id"

text \<open>One entry of the list: a link that scrolls to the chart of the attribute.\<close>

definition attr_entry :: "jstr \<Rightarrow> jstr \<Rightarrow> jstr \<Rightarrow> jstr \<Rightarrow> attr_info \<Rightarrow> jstr" where
  "attr_entry ctview jumpid ty clickCallBack a =
     (let attr_show_id = js ''attr_'' @ int_str (ai_id a) @ js ''_'' @ jumpid @ ty
      in js ''<li>''
         @ js ''<a onclick='' @ [0x22] @ js ''dmtJumpToAttrPic('' @ [0x27] @ attr_show_id @ [0x27] @ js '', '' @ [0x27]
         @ ctview @ [0x27] @ js '', '' @ clickCallBack @ js '')'' @ [0x22] @ js '' href='' @ [0x27] @ js ''#'' @ [0x27]
         @ js '' ctid='' @ [0x27] @ attr_show_id @ [0x27] @ js ''>''
         @ int_str (ai_id a) @ js ''_'' @ ai_name a
         @ (if ai_global a = 1
            then js ''<font color='' @ [0x27] @ js ''blue'' @ [0x27] @ js ''>&nbsp;['' @ [0x5168, 0x5C40] @ js '']</font>'' else [])
         @ js ''</a>'' @ js ''</li>'')"

text \<open>The inner loop: the entries of one type, from position \<open>i\<close> on; it marks them as pushed.\<close>

fun push_group :: "(attr_info \<Rightarrow> jstr) \<Rightarrow> int \<Rightarrow> attr_info list \<Rightarrow> attr_info list \<times> jstr \<times> int list" where
  "push_group entry ty [] = ([], [], [])"
| "push_group entry ty (a # as) =
     (let (as', html, ids) = push_group entry ty as
      in if ai_pushed a \<or> ai_attr_type a \<noteq> ty then (a # as', html, ids)
         else (a\<lparr>ai_pushed := True\<rparr> # as', entry a @ html, ai_id a # ids))"

lemma length_push_group [simp]: "length (fst (push_group entry ty as)) = length as"
  by (induction as) (auto simp: Let_def split: prod.splits)

text \<open>The outer loop; \<open>head\<close> is the text before a group and \<open>tail\<close> the text after it.\<close>

function push_groups :: "(attr_info \<Rightarrow> jstr) \<Rightarrow> (int \<Rightarrow> jstr) \<Rightarrow> attr_info list
    \<Rightarrow> attr_info list \<times> jstr \<times> int list" where
  "push_groups entry head [] = ([], [], [])"
| "push_groups entry head (a # as) =
     (if ai_pushed a then
        (let (as', html, ids) = push_groups entry head as in (a # as', html, ids))
      else
        (let group = push_group entry (ai_attr_type a) (a # as);
             rest = push_groups entry head (tl (fst group))
         in (hd (fst group) # fst rest,
             head (ai_attr_type a) @ fst (snd group) @ js ''</ul></li></ul>'' @ fst (snd rest),
             snd (snd group) @ snd (snd rest))))"
  by pat_completeness auto
termination
  by (relation "measure (\<lambda>(entry, head, as). length as)") (auto simp del: push_group.simps)

text \<open>The title of the list, the element that holds the charts and the number in their names.\<close>

definition list_target :: "attr_list \<Rightarrow> jstr \<Rightarrow> jstr \<times> jstr \<times> jstr" where
  "list_target attrinfo ty =
     (if ty = js ''view''
      then ([0x89C6, 0x56FE, 0x3010] @ int_str (al_view_id attrinfo) @ [0x3011, 0x5DF2, 0x7ED1, 0x5B9A, 0x7684, 0x76D1, 0x63A7, 0x70B9, 0x5217, 0x8868],
            js ''#ds_ct_attr_show_list_'' @ int_str (al_view_id attrinfo), int_str (al_view_id attrinfo))
      else ([0x673A, 0x5668, 0x3010] @ int_str (al_machine_id attrinfo) @ [0x3011, 0x6709, 0x4E0A, 0x62A5, 0x7684, 0x76D1, 0x63A7, 0x70B9, 0x5217, 0x8868],
            js ''#dsm_ct_attr_show_list_'' @ int_str (al_machine_id attrinfo), int_str (al_machine_id attrinfo)))"

text \<open>What opens a group; \<open>ds\<close> is \<open>ds_attr_type_list\<close>.\<close>

definition group_head :: "(int \<Rightarrow> jstr option) \<Rightarrow> jstr \<Rightarrow> int \<Rightarrow> jstr" where
  "group_head ds ty t =
     (if ty \<noteq> js ''site''
      then js ''<ul>'' @ js ''<li><a href='' @ [0x27] @ js ''#'' @ [0x27] @ js ''>''
           @ (case ds t of Some name \<Rightarrow> name | None \<Rightarrow> js ''undefined'') @ js ''</a>''
      else []) @ js ''<ul>''"

text \<open>
  The result is the text, the identifiers in the order they are pushed to
  \<open>attr_list_arry\<close>, and the list with its marks.
\<close>

definition dmtSetAttrList :: "attr_list \<Rightarrow> (int \<Rightarrow> jstr option) \<Rightarrow> jstr \<Rightarrow> int list \<Rightarrow> jstr
    \<Rightarrow> jstr \<times> int list \<times> attr_info list" where
  "dmtSetAttrList attrinfo ds ty attr_list_arry clickCallBack =
     (let (first, ctview, jumpid) = list_target attrinfo ty;
          n = nat (al_count attrinfo);
          shown = map (\<lambda>a. a\<lparr>ai_pushed := False\<rparr>) (take n (al_list attrinfo));
          (as, html, ids) = push_groups (attr_entry ctview jumpid ty clickCallBack) (group_head ds ty) shown
      in (js ''<li>'' @ js ''<a href='' @ [0x27] @ js ''#'' @ [0x27] @ js ''>'' @ first
          @ js ''('' @ [0x5171, 0x003A] @ int_str (al_count attrinfo) @ [0x4E2A] @ js '')</a>'' @ html @ js ''</li>'',
          attr_list_arry @ ids, as @ drop n (al_list attrinfo)))"

section \<open>Curves\<close>

definition dmtGetXAxisTimeInfo :: "int \<Rightarrow> nat \<Rightarrow> attr_info \<Rightarrow> int list" where
  "dmtGetXAxisTimeInfo dateStart count_day info =
     map (\<lambda>i. dateStart + int i * ai_static_time info * 60 * 1000) [0..<ai_static_idx_max info * count_day]"

definition dmtGetXAxisDayTimeInfo :: "int \<Rightarrow> nat \<Rightarrow> int list" where
  "dmtGetXAxisDayTimeInfo dateStart count_day =
     map (\<lambda>i. dateStart + int i * 24 * 60 * 60 * 1000) [0..<count_day]"

text \<open>\<open>attr_data[j] != "-" && !isNaN(attr_data[j])\<close>, and an element of an array or \<open>undefined\<close>.\<close>

definition is_value :: "jstr \<Rightarrow> bool" where
  "is_value s = (s \<noteq> js ''-'' \<and> str_num s \<noteq> NaN)"

definition item :: "'a list \<Rightarrow> nat \<Rightarrow> 'a option" where
  "item xs j = (if j < length xs then Some (xs ! j) else None)"

definition dmtGetYAxisData :: "int list \<Rightarrow> jstr \<Rightarrow> (int option \<times> jstr) list" where
  "dmtGetYAxisData time_info dstr =
     (let attr_data = split_on 44 dstr
      in map (\<lambda>j. (item time_info j, attr_data ! j))
           (filter (\<lambda>j. is_value (attr_data ! j)) [0..<length attr_data]))"

section \<open>Daily growth\<close>

text \<open>The first loop: it stops at the first value or at the end of the first day.\<close>

function first_value :: "jstr list \<Rightarrow> nat \<Rightarrow> nat \<Rightarrow> nat" where
  "first_value attr_data m t =
     (if t < m \<and> t < length attr_data then
        (if is_value (attr_data ! t) then t else first_value attr_data m (t + 1))
      else t)"
  by pat_completeness auto
termination by (relation "measure (\<lambda>(attr_data, m, t). m - t)") auto

declare first_value.simps [simp del]

text \<open>The second loop, downwards from the end of the first day to position \<open>t\<close>.\<close>

fun last_of_first_day :: "jstr list \<Rightarrow> nat \<Rightarrow> nat \<Rightarrow> jnum \<Rightarrow> jnum" where
  "last_of_first_day attr_data t 0 v = v"
| "last_of_first_day attr_data t (Suc k) v =
     (if Suc k > t \<and> Suc k < length attr_data then
        (if is_value (attr_data ! Suc k) then str_num (attr_data ! Suc k)
         else last_of_first_day attr_data t k v)
      else v)"

text \<open>The loop of a middle day: at most \<open>k\<close> steps down from position \<open>j\<close>.\<close>

fun last_of_day :: "jstr list \<Rightarrow> nat \<Rightarrow> int \<Rightarrow> jnum \<Rightarrow> jnum" where
  "last_of_day attr_data 0 j v = v"
| "last_of_day attr_data (Suc k) j v =
     (if 0 \<le> j \<and> j < int (length attr_data) then
        (if is_value (attr_data ! nat j) then str_num (attr_data ! nat j)
         else last_of_day attr_data k (j - 1) v)
      else v)"

text \<open>The loop of the last day: down from the end of the data, \<open>k\<close> positions above \<open>start\<close>.\<close>

fun last_of_data :: "jstr list \<Rightarrow> nat \<Rightarrow> nat \<Rightarrow> jnum \<Rightarrow> jnum" where
  "last_of_data attr_data start 0 v = v"
| "last_of_data attr_data start (Suc k) v =
     (if is_value (attr_data ! (start + k)) then str_num (attr_data ! (start + k))
      else last_of_data attr_data start k v)"

text \<open>
  The middle days: \<open>pre\<close> is \<open>last_pre_val\<close>, \<open>cur\<close> is \<open>last_idx_val\<close>, \<open>ds\<close> is \<open>data_start\<close>,
  \<open>i\<close> is \<open>iDays\<close>.
\<close>

fun middle_days :: "jstr list \<Rightarrow> nat \<Rightarrow> nat \<Rightarrow> int list \<Rightarrow> jnum \<Rightarrow> jnum \<Rightarrow> bool
    \<Rightarrow> (int \<times> jnum) list \<times> jnum \<times> jnum \<times> bool" where
  "middle_days attr_data m i [] pre cur ds = ([], pre, cur, ds)"
| "middle_days attr_data m i (d # days) pre cur ds =
     (let cur = last_of_day attr_data m (int ((i + 1) * m) - 1) pre;
          (iAdd, pre', ds') =
            (if \<not> js_num_eq cur (Fin 0) \<and> \<not> js_num_eq cur pre then
               (if \<not> ds \<and> js_num_eq pre (Fin 0) then (Fin 0, cur, True)
                else (js_sub cur pre, cur, ds))
             else (Fin 0, pre, ds));
          (ps, r) = middle_days attr_data m (i + 1) days pre' cur ds'
      in ((d, iAdd) # ps, r))"

text \<open>
  The result is the list of points. The condition that would use \<open>cur\<close> reads
  \<open>attr_info.length\<close>, a member that does not exist: the comparison is with \<open>undefined\<close>.
\<close>

definition dmtGetYAxisDayAddData :: "int list \<Rightarrow> attr_info \<Rightarrow> jstr \<Rightarrow> jnum \<Rightarrow> (int \<times> jnum) list" where
  "dmtGetYAxisDayAddData day_time_info info dstr cur =
     (let attr_data = split_on 44 dstr; m = ai_static_idx_max info
      in case day_time_info of
           [] \<Rightarrow> []
         | d0 # days \<Rightarrow>
             let t = first_value attr_data m 0;
                 first_idx_val = (if t < m \<and> t < length attr_data then str_num (attr_data ! t) else Fin 0);
                 last_idx_val = last_of_first_day attr_data t (m - 1) first_idx_val;
                 p0 = (d0, js_sub last_idx_val first_idx_val)
             in if days = [] then [p0]
                else
                  let (ps, pre, last_idx_val, data_start) =
                        middle_days attr_data m 1 (butlast days) last_idx_val last_idx_val False;
                      start = length days * m;
                      iAdd =
                        (if ai_data_type info \<in> {2, 4, 5, 8} \<and> \<not> js_num_eq cur (Fin 0)
                            \<and> js_lt (Fin (of_nat start)) NaN then
                           (if \<not> js_num_eq pre cur then js_sub cur pre else Fin 0)
                         else if length attr_data \<ge> start then
                           (let v = last_of_data attr_data start (length attr_data - start) last_idx_val
                            in if \<not> js_num_eq v (Fin 0) \<and> \<not> js_num_eq v pre
                                  \<and> (data_start \<or> \<not> js_num_eq pre (Fin 0))
                               then js_sub v pre else Fin 0)
                         else Fin 0)
                  in p0 # ps @ [(last days, iAdd)])"

section \<open>The type tree\<close>

text \<open>The nodes that are shown, in preorder: below a node its first \<open>subcount\<close> children.\<close>

fun visible :: "type_tree \<Rightarrow> type_tree list"
  and visibles :: "int \<Rightarrow> type_tree list \<Rightarrow> type_tree list" where
  "visible (TypeNode ty name n ts) = TypeNode ty name n ts # visibles n ts"
| "visibles n [] = []"
| "visibles n (t # ts) = (if 0 < n then visible t @ visibles (n - 1) ts else [])"

lemma find_append: "find P (xs @ ys) = (case find P xs of Some x \<Rightarrow> Some x | None \<Rightarrow> find P ys)"
  by (induction xs) auto

lemma type_search_find:
  "dmtGetTypeInfo t ty = find (\<lambda>n. tt_type n = ty) (visible t)"
  "type_search n ts ty = find (\<lambda>n. tt_type n = ty) (visibles n ts)"
  by (induction t and n ts rule: visible_visibles.induct) (auto simp: find_append split: option.splits)

text \<open>
  \<open>dmtGetTypeInfo\<close> returns the first node of the shown tree, in preorder, that has the type
  number, and the text \<open>"null"\<close> exactly when no shown node has it.
\<close>

theorem type_info_first:
  "dmtGetTypeInfo t ty = find (\<lambda>n. tt_type n = ty) (visible t)
   \<and> (dmtGetTypeInfo t ty = None \<longleftrightarrow> ty \<notin> tt_type ` set (visible t))"
  by (auto simp: type_search_find find_None_iff image_iff)

text \<open>HTML as a tree, and its text. An attribute list is kept as text.\<close>

datatype html = Text jstr | Elem string jstr "html list"

fun render :: "html \<Rightarrow> jstr" where
  "render (Text t) = t"
| "render (Elem tag atts cs) = js ''<'' @ js tag @ atts @ js ''>'' @ concat (map render cs) @ js ''</'' @ js tag @ js ''>''"

fun elements :: "string \<Rightarrow> html \<Rightarrow> nat" where
  "elements tag (Text t) = 0"
| "elements tag (Elem tag' atts cs) = (if tag' = tag then 1 else 0) + sum_list (map (elements tag) cs)"

fun type_html :: "type_tree \<Rightarrow> html"
  and types_html :: "int \<Rightarrow> type_tree list \<Rightarrow> html list" where
  "type_html (TypeNode ty name n ts) =
     Elem ''li'' []
       (Elem ''a'' (js '' href='' @ [0x27] @ js ''#'' @ [0x27] @ js '' name='' @ int_str ty) [Text name]
        # (if n = 0 then [] else [Elem ''ul'' [] (types_html n ts)]))"
| "types_html n [] = []"
| "types_html n (t # ts) = (if 0 < n then type_html t # types_html (n - 1) ts else [])"

lemma type_html_render:
  "dmtSetTypeTree t = render (type_html t)"
  "type_items n ts = concat (map render (types_html n ts))"
  by (induction t and n ts rule: visible_visibles.induct) (simp_all add: js_def)

lemma types_html_zero: "types_html 0 ts = []" "visibles 0 ts = []"
  by (cases ts; simp)+

lemma type_html_elements:
  "elements ''li'' (type_html t) = length (visible t)"
  "sum_list (map (elements ''li'') (types_html n ts)) = length (visibles n ts)"
  by (induction t and n ts rule: visible_visibles.induct) (auto simp: types_html_zero)

text \<open>
  The text \<open>dmtSetTypeTree\<close> builds is the text of a well-nested HTML tree that has exactly
  one list item for each shown node.
\<close>

theorem type_tree_html:
  "dmtSetTypeTree t = render (type_html t) \<and> elements ''li'' (type_html t) = length (visible t)"
  by (simp add: type_html_render type_html_elements)

section \<open>Grouping by type\<close>

fun firsts :: "'a list \<Rightarrow> 'a list" where
  "firsts [] = []"
| "firsts (x # xs) = x # filter (\<lambda>y. y \<noteq> x) (firsts xs)"

definition grouped :: "attr_info list \<Rightarrow> attr_info list" where
  "grouped xs = concat (map (\<lambda>t. filter (\<lambda>a. ai_attr_type a = t) xs) (firsts (map ai_attr_type xs)))"

lemma firsts_filter: "firsts (filter P xs) = filter P (firsts xs)"
  by (induction xs) (auto simp: filter_empty_conv conj_commute intro!: filter_cong)

lemma set_firsts: "set (firsts xs) = set xs"
  by (induction xs) auto

lemma distinct_firsts: "distinct (firsts xs)"
  by (induction xs) auto

lemma grouped_Nil [simp]: "grouped [] = []"
  by (simp add: grouped_def)

lemma grouped_Cons:
  "grouped (a # xs) = filter (\<lambda>b. ai_attr_type b = ai_attr_type a) (a # xs)
     @ grouped (filter (\<lambda>b. ai_attr_type b \<noteq> ai_attr_type a) xs)"
proof -
  let ?ty = "ai_attr_type a"
  have "map ai_attr_type (filter (\<lambda>b. ai_attr_type b \<noteq> ?ty) xs) = filter (\<lambda>t. t \<noteq> ?ty) (map ai_attr_type xs)"
    by (induction xs) auto
  then have "firsts (map ai_attr_type (filter (\<lambda>b. ai_attr_type b \<noteq> ?ty) xs))
      = filter (\<lambda>t. t \<noteq> ?ty) (firsts (map ai_attr_type xs))"
    by (simp add: firsts_filter)
  then show ?thesis
    by (auto simp: grouped_def filter_filter intro!: arg_cong [of _ _ concat] map_cong filter_cong)
qed

lemma mset_grouped: "mset (grouped xs) = mset xs"
proof (induction "length xs" arbitrary: xs rule: less_induct)
  case less
  show ?case
  proof (cases xs)
    case (Cons a as)
    let ?P = "\<lambda>b. ai_attr_type b = ai_attr_type a"
    have "mset (grouped (filter (\<lambda>b. \<not> ?P b) as)) = mset (filter (\<lambda>b. \<not> ?P b) as)"
      by (rule less) (simp add: Cons le_imp_less_Suc)
    then show ?thesis
      unfolding Cons grouped_Cons by (simp flip: multiset_partition)
  qed simp
qed

definition mark :: "int \<Rightarrow> attr_info \<Rightarrow> attr_info" where
  "mark ty a = (if ai_attr_type a = ty then a\<lparr>ai_pushed := True\<rparr> else a)"

lemma push_group_result:
  "fst (push_group entry ty as) = map (mark ty) as
   \<and> snd (snd (push_group entry ty as)) = map ai_id (filter (\<lambda>a. \<not> ai_pushed a \<and> ai_attr_type a = ty) as)"
  by (induction as) (auto simp: mark_def Let_def split: prod.splits)

lemma mark_simps [simp]: "ai_attr_type (mark ty a) = ai_attr_type a" "ai_id (mark ty a) = ai_id a"
  "ai_pushed (mark ty a) \<longleftrightarrow> ai_pushed a \<or> ai_attr_type a = ty"
  by (simp_all add: mark_def)

lemma unpushed_mark:
  "filter (\<lambda>a. \<not> ai_pushed a) (map (mark ty) as)
     = filter (\<lambda>a. ai_attr_type a \<noteq> ty) (filter (\<lambda>a. \<not> ai_pushed a) as)"
  by (induction as) (auto simp: mark_def)

lemma push_groups_result:
  "snd (snd (push_groups entry head as)) = map ai_id (grouped (filter (\<lambda>a. \<not> ai_pushed a) as))
   \<and> list_all ai_pushed (fst (push_groups entry head as))
   \<and> map ai_id (fst (push_groups entry head as)) = map ai_id as"
proof (induction entry head as rule: push_groups.induct)
  case (2 entry head a as)
  show ?case
  proof (cases "ai_pushed a")
    case True
    with 2 show ?thesis by (auto simp: Let_def split: prod.splits)
  next
    case False
    let ?g = "push_group entry (ai_attr_type a) (a # as)"
    have tl: "tl (fst ?g) = map (mark (ai_attr_type a)) as" "hd (fst ?g) = mark (ai_attr_type a) a"
      using push_group_result [of entry "ai_attr_type a" "a # as"] by simp_all
    have ids: "snd (snd ?g) = map ai_id (filter (\<lambda>b. \<not> ai_pushed b \<and> ai_attr_type b = ai_attr_type a) (a # as))"
      using push_group_result [of entry "ai_attr_type a" "a # as"] by (rule conjunct2)
    have ih: "snd (snd (push_groups entry head (tl (fst ?g)))) = map ai_id (grouped (filter (\<lambda>a. \<not> ai_pushed a) (tl (fst ?g))))
       \<and> list_all ai_pushed (fst (push_groups entry head (tl (fst ?g))))
       \<and> map ai_id (fst (push_groups entry head (tl (fst ?g)))) = map ai_id (tl (fst ?g))"
      using "2.IH"(2) [OF False refl] by simp
    have "filter (\<lambda>b. \<not> ai_pushed b) (a # as) = a # filter (\<lambda>b. \<not> ai_pushed b) as" using False by simp
    then have "map ai_id (grouped (filter (\<lambda>b. \<not> ai_pushed b) (a # as)))
        = snd (snd ?g) @ snd (snd (push_groups entry head (tl (fst ?g))))"
      using False ih unfolding ids tl unpushed_mark
      by (simp add: grouped_Cons filter_filter conj_commute)
    with ih False tl show ?thesis
      by (simp add: Let_def comp_def del: push_group.simps)
  qed
qed simp

text \<open>
  \<open>dmtSetAttrList\<close> pushes the identifier of every listed attribute exactly once, the
  attributes of one type together and each group in the order of the list, after what
  \<open>attr_list_arry\<close> held; all listed attributes end up marked, the others are untouched.
\<close>

theorem attr_list_grouped:
  "fst (snd (dmtSetAttrList l ds ty arr cb)) = arr @ map ai_id (grouped (take (nat (al_count l)) (al_list l)))
   \<and> mset (fst (snd (dmtSetAttrList l ds ty arr cb)))
     = mset arr + mset (map ai_id (take (nat (al_count l)) (al_list l)))
   \<and> list_all ai_pushed (take (nat (al_count l)) (snd (snd (dmtSetAttrList l ds ty arr cb))))
   \<and> drop (nat (al_count l)) (snd (snd (dmtSetAttrList l ds ty arr cb))) = drop (nat (al_count l)) (al_list l)"
proof -
  let ?n = "nat (al_count l)"
  let ?unmark = "\<lambda>a. a\<lparr>ai_pushed := False\<rparr>"
  let ?sh = "map ?unmark (take ?n (al_list l))"
  have g: "map ai_id (grouped (map ?unmark xs)) = map ai_id (grouped xs)" for xs
  proof -
    have "map ai_attr_type (map ?unmark xs) = map ai_attr_type xs" by simp
    moreover have "map ai_id (filter (\<lambda>a. ai_attr_type a = t) (map ?unmark xs)) = map ai_id (filter (\<lambda>a. ai_attr_type a = t) xs)" for t
      by (induction xs) auto
    ultimately show ?thesis by (simp add: grouped_def map_concat comp_def)
  qed
  have u: "filter (\<lambda>a. \<not> ai_pushed a) ?sh = ?sh" by (simp add: filter_id_conv)
  let ?pg = "push_groups (attr_entry (fst (snd (list_target l ty))) (snd (snd (list_target l ty))) ty cb) (group_head ds ty)"
  have ids: "fst (snd (dmtSetAttrList l ds ty arr cb)) = arr @ snd (snd (?pg ?sh))"
    and as: "snd (snd (dmtSetAttrList l ds ty arr cb)) = fst (?pg ?sh) @ drop ?n (al_list l)"
    by (simp_all add: dmtSetAttrList_def Let_def split: prod.splits)
  have r: "snd (snd (?pg ?sh)) = map ai_id (grouped (take ?n (al_list l)))"
      "list_all ai_pushed (fst (?pg ?sh))"
      "length (fst (?pg ?sh)) = length ?sh"
    using push_groups_result [of "attr_entry (fst (snd (list_target l ty))) (snd (snd (list_target l ty))) ty cb" "group_head ds ty" ?sh] u g by (auto dest: map_eq_imp_length_eq)
  have "mset (map ai_id (grouped xs)) = mset (map ai_id xs)" for xs by (simp add: mset_grouped)
  with ids as r show ?thesis by (auto simp: min_def)
qed

section \<open>Data points\<close>

text \<open>
  The points of a curve are the readable values of the data text with their times, in the
  order of the text. When there are at least as many times as values, a point is a time and
  the value at the same position.
\<close>

theorem axis_points:
  assumes "length (split_on 44 dstr) \<le> length time_info"
  shows "dmtGetYAxisData time_info dstr =
    map (\<lambda>(t, v). (Some t, v)) (filter (\<lambda>(t, v). is_value v) (zip time_info (split_on 44 dstr)))"
proof -
  let ?d = "split_on 44 dstr"
  have z: "zip time_info ?d = map (\<lambda>j. (time_info ! j, ?d ! j)) [0..<length ?d]"
    using assms by (intro nth_equalityI) auto
  show ?thesis
    unfolding z dmtGetYAxisData_def Let_def using assms
    by (auto simp: filter_map comp_def item_def)
qed

theorem axis_points_witness:
  "dmtGetYAxisData [10, 20] (js ''7,-'') = map (\<lambda>(t, v). (Some t, v))
     (filter (\<lambda>(t, v). is_value v) (zip [10, 20] [js ''7'', js ''-'']))"
  using axis_points [of "js ''7,-''" "[10, 20]"] by (simp add: js_def)

section \<open>Growth of complete data\<close>

definition day_growth :: "nat list list \<Rightarrow> nat \<Rightarrow> int" where
  "day_growth days i =
     int (last (days ! i)) - (if i = 0 then int (hd (days ! i)) else int (last (days ! (i - 1))))"

lemma str_num_nat_digits [simp]: "str_num (nat_digits n) = Fin (of_nat n)"
  using str_num_int_str [of "int n"] by (simp add: int_str_def)

lemma is_value_nat_digits [simp]: "is_value (nat_digits n)"
proof -
  have "nat_digits n \<noteq> js ''-''"
    using nat_digits_all_digits [of 45 n] by (auto simp: js_def is_digit_def)
  then show ?thesis by (simp add: is_value_def)
qed

lemma comma_not_in_digits [simp]: "44 \<notin> set (nat_digits n)"
  using nat_digits_all_digits [of 44 n] by (auto simp: is_digit_def)

lemma length_concat_uniform: "\<forall>d \<in> set days. length d = m \<Longrightarrow> length (concat days) = length days * m"
  by (induction days) auto

lemma nth_concat_uniform:
  "\<lbrakk>\<forall>d \<in> set days. length d = m; i < length days; k < m\<rbrakk> \<Longrightarrow> concat days ! (i * m + k) = days ! i ! k"
proof (induction days arbitrary: i)
  case (Cons d days)
  then show ?case by (cases i) (auto simp: nth_append add.assoc)
qed simp

lemma nth_concat_last:
  assumes "\<forall>d \<in> set days. length d = m" "i < length days" "0 < m"
  shows "concat days ! ((i + 1) * m - 1) = last (days ! i)"
proof -
  have "(i + 1) * m - 1 = i * m + (m - 1)" using assms(3) by simp
  moreover have "length (days ! i) = m" using assms by simp
  ultimately show ?thesis
    using nth_concat_uniform [OF assms(1,2), of "m - 1"] assms(3) by (auto simp: last_conv_nth)
qed

lemma last_of_day_value:
  "\<lbrakk>0 < k; n < length attr_data; is_value (attr_data ! n)\<rbrakk> \<Longrightarrow> last_of_day attr_data k (int n) v = str_num (attr_data ! n)"
  by (cases k) auto

lemma middle_days_complete:
  assumes uni: "\<forall>d \<in> set days. length d = m" and m: "0 < m" and pos: "\<forall>d \<in> set days. \<forall>x \<in> set d. 0 < x"
  shows "0 < i \<Longrightarrow> i + length ds \<le> length days \<Longrightarrow>
    \<exists>c. middle_days (map nat_digits (concat days)) m i ds (Fin (of_nat (last (days ! (i - 1))))) v False
      = (map (\<lambda>k. (ds ! k, Fin (of_int (day_growth days (i + k))))) [0..<length ds],
         Fin (of_nat (last (days ! (i + length ds - 1)))), c, False)"
proof (induction ds arbitrary: i v)
  case (Cons d ds)
  let ?A = "map nat_digits (concat days)"
  have i: "i < length days" using Cons.prems by simp
  have idx: "(i + 1) * m - 1 < length (concat days)"
  proof -
    have "(i + 1) * m \<le> length days * m" using i by (intro mult_right_mono) auto
    moreover have "0 < (i + 1) * m" using m by simp
    ultimately show ?thesis unfolding length_concat_uniform [OF uni] by linarith
  qed
  have last: "last_of_day ?A m (int ((i + 1) * m) - 1) p = Fin (of_nat (last (days ! i)))" for p
  proof -
    have "int ((i + 1) * m) - 1 = int ((i + 1) * m - 1)" using m by simp
    then show ?thesis
      using last_of_day_value [OF m, of "(i + 1) * m - 1" ?A] idx nth_concat_last [OF uni i m] by simp
  qed
  have nz: "0 < last (days ! j)" if "j < length days" for j
  proof -
    have "days ! j \<in> set days" using that by simp
    moreover from this have "days ! j \<noteq> []" using uni m by auto
    ultimately show ?thesis using pos by auto
  qed
  have g: "Fin (of_int (day_growth days i)) = js_sub (Fin (of_nat (last (days ! i)))) (Fin (of_nat (last (days ! (i - 1)))))"
    using Cons.prems(1) by (simp add: day_growth_def js_sub_def)
  have eq: "day_growth days i = 0" if "last (days ! i) = last (days ! (i - 1))"
    using that Cons.prems(1) by (simp add: day_growth_def)
  obtain c where ih: "middle_days ?A m (i + 1) ds (Fin (of_nat (last (days ! i)))) (Fin (of_nat (last (days ! i)))) False
      = (map (\<lambda>k. (ds ! k, Fin (of_int (day_growth days (i + 1 + k))))) [0..<length ds],
         Fin (of_nat (last (days ! (i + 1 + length ds - 1)))), c, False)"
    using Cons.IH [of "i + 1" "Fin (of_nat (last (days ! i)))"] Cons.prems by auto
  have up: "[0..<length (d # ds)] = 0 # map Suc [0..<length ds]"
    by (simp add: upt_conv_Cons map_Suc_upt del: upt_Suc)
  have "last (days ! i) \<noteq> 0" "last (days ! (i - 1)) \<noteq> 0" using nz [OF i] nz [of "i - 1"] i by auto
  then show ?case
    using ih eq unfolding middle_days.simps(2) last up
    by (auto simp: js_num_eq_def js_sub_def Let_def g comp_def)
qed simp

text \<open>The values at the borders of the days of complete data.\<close>

lemma first_day_complete:
  assumes "\<forall>d \<in> set days. length d = m" "0 < m" "days = d0 # ds"
  defines "A \<equiv> map nat_digits (concat days)"
  shows "first_value A m 0 = 0" "0 < length A" "A ! 0 = nat_digits (hd d0)"
    "last_of_first_day A 0 (m - 1) (Fin (of_nat (hd d0))) = Fin (of_nat (last d0))"
proof -
  have d0: "length d0 = m" "d0 \<noteq> []" using assms by auto
  have lenge: "m \<le> length A" using d0 assms by simp
  show "0 < length A" using lenge assms(2) by linarith
  show "A ! 0 = nat_digits (hd d0)"
    using d0(2) unfolding A_def assms(3) by (cases d0) simp_all
  show "first_value A m 0 = 0"
    using assms(2) lenge by (subst first_value.simps) (simp add: A_def)
  show "last_of_first_day A 0 (m - 1) (Fin (of_nat (hd d0))) = Fin (of_nat (last d0))"
  proof (cases "m - 1")
    case 0
    then have "length d0 = 1" using d0 assms(2) by simp
    then show ?thesis using 0 by (cases d0) auto
  next
    case (Suc k)
    have "Suc k < length A" using Suc lenge assms(2) by simp
    moreover from this have "A ! Suc k = nat_digits (last d0)"
      using nth_concat_last [OF assms(1), of 0] assms(2,3) Suc by (simp add: A_def del: concat.simps)
    ultimately show ?thesis using Suc by (simp add: A_def)
  qed
qed

lemma last_day_complete:
  assumes "\<forall>d \<in> set days. length d = m" "0 < m" "length days = Suc n"
  defines "A \<equiv> map nat_digits (concat days)"
  shows "n * m \<le> length A" "last_of_data A (n * m) (length A - n * m) c = Fin (of_nat (last (days ! n)))"
proof -
  have len: "length A = n * m + m" using length_concat_uniform [OF assms(1)] assms(3) by (simp add: A_def)
  then show "n * m \<le> length A" by simp
  have "A ! (n * m + (m - 1)) = nat_digits (last (days ! n))"
    using nth_concat_last [OF assms(1), of n] len assms(2,3) by (simp add: A_def add.commute)
  moreover have "length A - n * m = Suc (m - 1)" using assms(2) len by simp
  ultimately show "last_of_data A (n * m) (length A - n * m) c = Fin (of_nat (last (days ! n)))"
    by simp
qed

lemma split_complete:
  assumes "\<forall>d \<in> set days. length d = m" "0 < m" "days \<noteq> []"
  shows "split_on 44 (join_with (js '','') (map nat_digits (concat days))) = map nat_digits (concat days)"
proof -
  have "concat days \<noteq> []" using assms by (cases days) auto
  then show ?thesis
    using split_on_join [of "map nat_digits (concat days)" 44] by (fastforce simp: js_def)
qed

lemma day_add_later:
  assumes "split_on 44 dstr = A" "m = ai_static_idx_max info" "0 < m" "0 < length A"
    and "first_value A m 0 = 0" "str_num (A ! 0) = f" "last_of_first_day A 0 (m - 1) f = l"
    and "ts \<noteq> []" "middle_days A m 1 (butlast ts) l l False = (ps, pre, c, False)"
    and "length ts * m \<le> length A" "last_of_data A (length ts * m) (length A - length ts * m) c = v"
    and "\<not> js_num_eq v (Fin 0)" "\<not> js_num_eq pre (Fin 0)"
  shows "dmtGetYAxisDayAddData (t0 # ts) info dstr cur =
    (t0, js_sub l f) # ps @ [(last ts, if \<not> js_num_eq v pre then js_sub v pre else Fin 0)]"
  using assms by (simp add: dmtGetYAxisDayAddData_def)

text \<open>
  C32: for complete data (every day has the same number of values, and all of them are
  positive) the daily growth is, on the first day, the last value less the first one and, on
  every later day, the last value less the last value of the day before. This holds for every
  data type and every current value \<open>cur\<close>, also for the types 2, 4, 5 and 8 with a current value
  other than 0, for which the comment in the code wants the last day to use \<open>cur\<close>: the test for
  that branch reads \<open>attr_info.length\<close>, which is undefined, so the code never takes it.
\<close>

theorem day_growth_complete:
  assumes "0 < ai_static_idx_max info" "days \<noteq> []" "length ts = length days"
    and "\<forall>d \<in> set days. length d = ai_static_idx_max info" "\<forall>d \<in> set days. \<forall>x \<in> set d. 0 < x"
  shows "dmtGetYAxisDayAddData ts info (join_with (js '','') (map nat_digits (concat days))) cur
    = map (\<lambda>i. (ts ! i, Fin (of_int (day_growth days i)))) [0..<length days]"
proof -
  let ?m = "ai_static_idx_max info" and ?A = "map nat_digits (concat days)"
  note uni = assms(4) and m = assms(1)
  obtain d0 ds where days: "days = d0 # ds" using assms(2) by (cases days) auto
  obtain t0 ts' where ts: "ts = t0 # ts'" "length ts' = length ds" using assms(3) days by (cases ts) auto
  note split = split_complete [OF uni m assms(2)] and first = first_day_complete [OF uni m days]
  have p0: "js_sub (Fin (of_nat (last d0))) (Fin (of_nat (hd d0))) = Fin (of_int (day_growth days 0))"
    by (simp add: js_sub_def day_growth_def days)
  show ?thesis
  proof (cases "ds = []")
    case True
    then show ?thesis
      unfolding dmtGetYAxisDayAddData_def split Let_def first
      using ts p0 m first by (simp add: days)
  next
    case False
    let ?n = "length ds"
    have n: "0 < ?n" "?n < length days" using False days by auto
    obtain c where mid: "middle_days ?A ?m 1 (butlast ts') (Fin (of_nat (last d0))) (Fin (of_nat (last d0))) False
        = (map (\<lambda>k. (butlast ts' ! k, Fin (of_int (day_growth days (1 + k))))) [0..<?n - 1],
           Fin (of_nat (last (days ! (?n - 1)))), c, False)"
      using middle_days_complete [OF uni m assms(5), of 1 "butlast ts'" "Fin (of_nat (last d0))"] ts n
      by (auto simp: days)
    have nz: "last (days ! j) \<noteq> 0" if "j < length days" for j
      using last_in_set [of "days ! j"] that assms(4,5) m by (metis length_0_conv nth_mem less_irrefl)
    have gn: "(if last (days ! ?n) \<noteq> last (days ! (?n - 1))
        then js_sub (Fin (of_nat (last (days ! ?n)))) (Fin (of_nat (last (days ! (?n - 1))))) else Fin 0)
        = Fin (of_int (day_growth days ?n))"
      using n(1) by (simp add: day_growth_def js_sub_def)
    have up: "[0..<length days] = 0 # map Suc [0..<?n - 1] @ [?n]"
      using n(1) by (cases ?n) (simp_all add: days map_Suc_upt upt_conv_Cons)
    have ne: "ts' \<noteq> []" using ts n(1) by auto
    then have lt: "last ts' = ts ! ?n" "\<And>k. k < ?n - 1 \<Longrightarrow> butlast ts' ! k = ts ! Suc k"
      using ts n(1) by (auto simp: last_conv_nth nth_butlast)
    have ld: "length ts' * ?m \<le> length ?A"
        "last_of_data ?A (length ts' * ?m) (length ?A - length ts' * ?m) c = Fin (of_nat (last (days ! ?n)))"
      using last_day_complete [OF uni m, of ?n] ts(2) days by simp_all
    have "dmtGetYAxisDayAddData ts info (join_with (js '','') ?A) cur =
      (t0, Fin (of_int (day_growth days 0)))
       # map (\<lambda>k. (butlast ts' ! k, Fin (of_int (day_growth days (1 + k))))) [0..<?n - 1]
       @ [(last ts', Fin (of_int (day_growth days ?n)))]"
      unfolding ts(1) gn [symmetric] p0 [symmetric]
      using day_add_later [OF split refl m first(2,1) _ _ ne mid ld] first(3,4) nz [OF n(2)] nz [of "?n - 1"] n
      by (simp add: js_num_eq_def)
    then show ?thesis
      unfolding up using lt ts by simp
  qed
qed

theorem day_growth_complete_witness:
  "dmtGetYAxisDayAddData [0, 86400000]
     \<lparr>ai_id = 1, ai_name = js ''a'', ai_attr_type = 1, ai_global = 0, ai_pushed = False, ai_show_class = [],
       ai_static_time = 720, ai_static_idx_max = 2, ai_data_type = 1\<rparr>
     (join_with (js '','') (map nat_digits [3, 5, 6, 9])) (Fin 0)
   = [(0, Fin 2), (86400000, Fin 4)]"
  using day_growth_complete [of "\<lparr>ai_id = 1, ai_name = js ''a'', ai_attr_type = 1, ai_global = 0, ai_pushed = False,
       ai_show_class = [], ai_static_time = 720, ai_static_idx_max = 2, ai_data_type = 1\<rparr>" "[[3, 5], [6, 9]]" "[0, 86400000]" "Fin 0"]
  by (simp add: day_growth_def upt_rec numeral_2_eq_2)

end
