(* ===== verification/Comm_Warn.thy ===== *)
theory Comm_Warn
  imports Comm_Page Comm_Data
begin

text \<open>
  Warnings in \<open>src/html/resource/js/dmt.comm.js\<close>: the tool box of a chart, its titles, and the
  requests that set or mask a warning, with the response to them.
\<close>

section \<open>Data\<close>

text \<open>
  The data of one attribute and of the list they come in. \<open>av_values\<close> is \<open>value_list_str\<close>, which
  may be missing; \<open>avl_monday\<close> says whether \<open>date_time_monday\<close> is present.
\<close>

record attr_val =
  av_id :: int
  av_max :: jnum
  av_min :: jnum
  av_total :: jnum
  av_cur :: jnum
  av_warn_flag :: int
  av_warn_max :: jnum
  av_warn_min :: jnum
  av_warn_wave :: jnum
  av_warn_config_id :: int
  av_values :: "jstr option"
  av_values_yst :: jstr
  av_values_lwk :: jstr
  av_str_count :: int
  av_str_list :: "(jstr \<times> jnum) list"

record attr_val_list =
  avl_type :: int
  avl_view_id :: int
  avl_machine_id :: int
  avl_site_id :: int
  avl_site_url :: jstr
  avl_cust_date :: jstr
  avl_cgi_path :: jstr
  avl_show_single_type :: int
  avl_date_time :: jstr
  avl_date_time_cur :: jstr
  avl_date_time_yst :: jstr
  avl_date_time_wkd :: jstr
  avl_start_utc :: int
  avl_monday :: bool
  avl_list :: "attr_val list option"

text \<open>What a click on a button of the tool box calls, with the captured arguments.\<close>

datatype click =
    No_click
  | Click_single jstr jstr int jstr jstr int int "jstr option"
  | Click_mask jstr int int
  | Click_set jstr int int

record button =
  bt_show :: bool
  bt_onclick :: click

record toolbox =
  tb_unmask :: button
  tb_mask :: button
  tb_set :: button
  tb_single :: button

section \<open>Titles\<close>

text \<open>\<open>x + s\<close> for a value that is a number or a text.\<close>

definition val_str :: "jsval \<Rightarrow> jstr" where
  "val_str v = (case v of Str s \<Rightarrow> s | Num n \<Rightarrow> num_str n | _ \<Rightarrow> [])"

definition dmtGetViewSubTitle :: "jstr \<Rightarrow> attr_val_list \<Rightarrow> attr_val \<Rightarrow> attr_info \<Rightarrow> jstr" where
  "dmtGetViewSubTitle showtype vals v info =
     (let subtitle =
            (if js_lt (Fin 0) (av_max v) then
               [0x0020, 0x3010] @ [0x6700, 0x5927, 0x503C, 0xFF1A] @ val_str (dmtShowChangeValue (av_max v))
               @ [0x002C, 0x0020, 0x56FE, 0x8868, 0x7D2F, 0x8BA1, 0x4E0A, 0x62A5, 0xFF1A] @ val_str (dmtShowChangeValue (av_total v)) @ [0x002C, 0x0020, 0x5F53, 0x524D, 0x7EDF, 0x8BA1, 0x5468, 0x671F, 0xFF1A]
               @ val_str (dmtShowChangeValue (av_cur v)) @ js ''/'' @ dmtShowHumanStaticTime (ai_static_time info) @ [0x3011, 0x000A, 0x0020]
             else if js_lt (Fin 0) (av_cur v) then
               [0x0020, 0x5F53, 0x524D, 0x65F6, 0x95F4, 0xFF1A] @ avl_date_time vals @ js '', ''
               @ [0x0020, 0x5F53, 0x524D, 0x7EDF, 0x8BA1, 0x5468, 0x671F, 0xFF1A] @ val_str (dmtShowChangeValue (av_cur v)) @ js ''/''
               @ dmtShowHumanStaticTime (ai_static_time info) @ [0x000A, 0x000A]
             else [0x6682, 0x65E0, 0x6570, 0x636E, 0x4E0A, 0x62A5, 0x000A, 0x000A]);
          showclass = (if ai_show_class info = js ''percent'' then js ''%'' else []);
          flag = av_warn_flag v
      in subtitle @ [0x544A, 0x8B66, 0x914D, 0x7F6E, 0x3010, 0x0020, 0x6700, 0x5927, 0x503C, 0xFF1A]
         @ (if js_and flag 1 \<noteq> 0 then num_str (av_warn_max v) @ showclass else [0x65E0, 0x0020])
         @ [0xFF0C, 0x6700, 0x5C0F, 0x503C, 0xFF1A]
         @ (if js_and flag 2 \<noteq> 0 then num_str (av_warn_min v) @ showclass else [0x65E0, 0x0020])
         @ [0xFF0C, 0x6CE2, 0x52A8, 0x503C, 0xFF1A]
         @ (if js_and flag 4 \<noteq> 0 then num_str (av_warn_wave v) @ js ''% '' else [0x65E0, 0x0020])
         @ (if js_and flag 32 \<noteq> 0 then [0xFF0C, 0x5C4F, 0x853D, 0x72B6, 0x6001, 0xFF1A, 0x5DF2, 0x5C4F, 0x853D] else [])
         @ [0x0020, 0x3011])"

text \<open>For other types of pages the title stays \<open>undefined\<close>.\<close>

definition dmtGetViewTitle :: "jstr \<Rightarrow> attr_val_list \<Rightarrow> attr_info \<Rightarrow> jstr option" where
  "dmtGetViewTitle showtype vals info =
     (if showtype = js ''view'' then
        Some ([0x89C6, 0x56FE, 0x0049, 0x0044, 0x3010] @ int_str (avl_view_id vals) @ [0x3011]
          @ [0x76D1, 0x63A7, 0x70B9, 0x3010] @ ai_name info @ js ''-'' @ int_str (ai_id info) @ [0x3011])
      else if showtype = js ''machine'' then
        Some ([0x670D, 0x52A1, 0x5668, 0x0049, 0x0044, 0x3010] @ int_str (avl_machine_id vals) @ [0x3011]
          @ [0x76D1, 0x63A7, 0x70B9, 0x3010] @ ai_name info @ js ''-'' @ int_str (ai_id info) @ [0x3011])
      else None)"

section \<open>Dialogs\<close>

definition undef_str :: "jstr option \<Rightarrow> jstr" where
  "undef_str s = (case s of Some t \<Rightarrow> t | None \<Rightarrow> js ''undefined'')"

definition dmtShowSingle :: "jstr \<Rightarrow> jstr \<Rightarrow> int \<Rightarrow> jstr \<Rightarrow> jstr \<Rightarrow> int \<Rightarrow> int \<Rightarrow> jstr option \<Rightarrow> page \<Rightarrow> page" where
  "dmtShowSingle cust_date attr_name show_single_type cgi_path type type_id attr_id site_url p =
     (let url = cgi_path @ js ''/mt_slog_showview?action=show_single''
            @ js ''&type_id='' @ int_str type_id @ js ''&cust_date='' @ cust_date
            @ js ''&show_type='' @ type @ js ''&attr_id='' @ int_str attr_id
            @ js ''&show_single_type='' @ int_str show_single_type;
          dlg = js ''dc_dlg_show_single_'' @ int_str type_id @ js ''_'' @ int_str attr_id;
          op = Obj [(js ''mask'', Bool True), (js ''maxable'', Bool False),
                    (js ''height'', NumI g_dmtSingleChartHeight), (js ''width'', NumI g_dmtSingleChartMinWidth),
                    (js ''resizable'', Bool True)];
          title =
            (if type = js ''view'' then
               [0x89C6, 0x56FE, 0x3010] @ int_str type_id @ [0x3011] @ [0x76D1, 0x63A7, 0x70B9, 0x3010] @ int_str attr_id @ js ''_'' @ attr_name @ [0x3011]
             else if type = js ''machine'' then
               [0x670D, 0x52A1, 0x5668, 0x3010] @ int_str type_id @ [0x3011] @ [0x76D1, 0x63A7, 0x70B9, 0x3010] @ int_str attr_id @ js ''_'' @ attr_name @ [0x3011]
             else [0x76D1, 0x63A7, 0x7F51, 0x70B9, 0x3010] @ int_str attr_id @ js ''_'' @ attr_name @ [0x3011, 0x0020, 0x7AD9, 0x70B9, 0x94FE, 0x63A5, 0xFF1A] @ undef_str site_url)
      in emit (Dialog url dlg (title @ [0x0020, 0x002D, 0x0020, 0x4E0A, 0x62A5, 0x6570, 0x636E, 0x67E5, 0x770B]) op) p)"

definition dmtSetShowSingleSite :: "toolbox \<Rightarrow> jstr \<Rightarrow> attr_val_list \<Rightarrow> attr_info \<Rightarrow> toolbox" where
  "dmtSetShowSingleSite op showtype vals info =
     op\<lparr>tb_single := (tb_single op)\<lparr>bt_onclick :=
          Click_single (avl_cust_date vals) (ai_name info) (avl_show_single_type vals) (avl_cgi_path vals) showtype
            (avl_site_id vals) (ai_id info) (Some (avl_site_url vals))\<rparr>\<rparr>"

text \<open>The key of a chart, and the path of the requests.\<close>

definition chart_key :: "jstr \<Rightarrow> int \<Rightarrow> int \<Rightarrow> jstr" where
  "chart_key warn_type warn_type_id attr_id =
     js ''attr_'' @ int_str attr_id @ js ''_'' @ int_str warn_type_id @ warn_type"

definition chart_warnInfo :: "jstr \<Rightarrow> page \<Rightarrow> warn_info option" where
  "chart_warnInfo idx p = Option.bind (map_of (g_all_charts p) idx) ch_warnInfo"

definition request_path :: "page \<Rightarrow> warn_info \<Rightarrow> jstr" where
  "request_path p w =
     (if pg_site_cgi_path p \<noteq> None \<and> pg_site_cgi_path p \<noteq> Some []
      then undef_str (pg_site_cgi_path p) else undef_str (wi_cgi_path w))"

definition dmtSetWarnConfig :: "jstr \<Rightarrow> int \<Rightarrow> int \<Rightarrow> page \<Rightarrow> page" where
  "dmtSetWarnConfig warn_type warn_type_id attr_id p =
     (let cur_chart_idx = chart_key warn_type warn_type_id attr_id
      in case chart_warnInfo cur_chart_idx p of
           None \<Rightarrow> emit (Alert_error ([0x006A, 0x0061, 0x0076, 0x0061, 0x0073, 0x0063, 0x0072, 0x0069, 0x0070, 0x0074, 0x0020, 0x811A, 0x672C, 0x9519, 0x8BEF, 0x002C, 0x0020, 0x65E0, 0x544A, 0x8B66, 0x4FE1, 0x606F, 0x003A] @ cur_chart_idx)) p
         | Some w \<Rightarrow>
             let url = request_path p w @ js ''/mt_slog_warn?action=chart_set_attr_warn''
                   @ js ''&warn_cfg_id='' @ int_str (wi_cfg_id w) @ js ''&show_class='' @ wi_show_class w
                   @ js ''&attr_name='' @ wi_attr_name w @ js ''&warn_type_id='' @ int_str warn_type_id
                   @ js ''&warn_attr_id='' @ int_str attr_id @ js ''&warn_type='' @ warn_type;
                 dlg = js ''dc_dlg_set_warn_'' @ int_str warn_type_id @ js ''_'' @ int_str attr_id;
                 op = Obj [(js ''mask'', Bool True), (js ''maxable'', Bool False), (js ''height'', NumI 260),
                           (js ''width'', NumI 530), (js ''resizable'', Bool False)];
                 point = [0x76D1, 0x63A7, 0x70B9, 0x3010] @ int_str attr_id @ js ''_'' @ wi_attr_name w @ [0x3011];
                 title = (if warn_type = js ''view'' then [0x8BBE, 0x7F6E, 0x89C6, 0x56FE, 0x544A, 0x8B66, 0xFF1A, 0x89C6, 0x56FE, 0x3010] @ int_str warn_type_id @ [0x3011] @ point
                          else [0x8BBE, 0x7F6E, 0x670D, 0x52A1, 0x5668, 0x544A, 0x8B66, 0xFF1A, 0x670D, 0x52A1, 0x5668, 0x3010] @ int_str warn_type_id @ [0x3011] @ point)
             in emit (Dialog url dlg title op) p)"

section \<open>Responses\<close>

text \<open>The members every response may have, and those of a response to a warning request.\<close>

record ajax_result =
  ar_ec :: "jnum option"
  ar_msg :: "jstr option"
  ar_msgid :: "jstr option"
  ar_redirect_url :: jstr

record warn_result = ajax_result +
  wr_statusCode :: int
  wr_warn_flag :: int
  wr_warn_max :: jnum
  wr_warn_min :: jnum
  wr_warn_wave :: jnum
  wr_warn_config_id :: int

datatype js_error = ReferenceError jstr | PropertyError jstr

definition dmtPopDaemonTipMsg :: "page \<Rightarrow> page" where
  "dmtPopDaemonTipMsg p =
     (let p = (if pg_dialog p then emit Close_dialog (p\<lparr>pg_dialog := False\<rparr>) else p)
      in emit (Local_dialog (js ''dct_dlg_show_daemon_tip_msg'') [0x6F14, 0x793A, 0x7248, 0x64CD, 0x4F5C, 0x63D0, 0x793A]
           (Obj [(js ''mask'', Bool True), (js ''maxable'', Bool False), (js ''height'', NumI 280),
                 (js ''width'', NumI 410), (js ''resizable'', Bool False), (js ''drawable'', Bool True)]))
           (p\<lparr>pg_dialog := True\<rparr>))"

text \<open>
  \<open>None\<close> is \<open>undefined\<close>, \<open>null\<close> or the text \<open>"null"\<close>. The second component of the result is what
  the function returns: whether the response is dealt with.
\<close>

definition dmtFirstDealAjaxResponse :: "('a ajax_result_scheme) option \<Rightarrow> page \<Rightarrow> js_error + page \<times> bool" where
  "dmtFirstDealAjaxResponse result p =
     (case result of
        None \<Rightarrow> Inr (p, False)
      | Some r \<Rightarrow>
          (case ar_ec r of
             None \<Rightarrow> Inr (p, False)
           | Some ec \<Rightarrow>
               if js_num_eq ec (Fin 666) then Inr (dmtPopDaemonTipMsg p, True)
               else if js_num_eq ec (Fin 111) then
                 (let p = emit Close_tab p;
                      p = (if pg_dialog p then emit Close_dialog (p\<lparr>pg_dialog := False\<rparr>) else p)
                  in Inr (emit (Redirect (ar_redirect_url r)) p, True))
               else if js_num_eq ec (Fin 300) \<or> js_ge ec (Fin 1) \<and> js_lt ec (Fin 200) then
                 (let msg = [0x670D, 0x52A1, 0x5668, 0x8FD4, 0x56DE, 0x9519, 0x8BEF, 0xFF0C, 0x9519, 0x8BEF, 0x7801, 0xFF1A] @ num_str ec
                  in case ar_msg r of
                       Some m \<Rightarrow> Inr (emit (Alert_warn (msg @ [0xFF0C, 0x9519, 0x8BEF, 0x6D88, 0x606F, 0xFF1A] @ m)) p, True)
                     | None \<Rightarrow>
                         if ar_msgid r \<noteq> None then Inl (ReferenceError (js ''json''))
                         else Inr (emit (Alert_warn msg) p, True))
               else Inr (p, False)))"

section \<open>Masking\<close>

definition dmtMaskWarnConfig :: "jstr \<Rightarrow> int \<Rightarrow> int \<Rightarrow> page \<Rightarrow> page" where
  "dmtMaskWarnConfig warn_type warn_type_id attr_id p =
     (let cur_chart_idx = chart_key warn_type warn_type_id attr_id
      in case chart_warnInfo cur_chart_idx p of
           None \<Rightarrow> emit (Alert_error ([0x006A, 0x0061, 0x0076, 0x0061, 0x0073, 0x0063, 0x0072, 0x0069, 0x0070, 0x0074, 0x0020, 0x811A, 0x672C, 0x9519, 0x8BEF, 0x002C, 0x0020, 0x65E0, 0x544A, 0x8B66, 0x4FE1, 0x606F, 0x003A] @ cur_chart_idx)) p
         | Some w \<Rightarrow>
             emit (Ajax (request_path p w @ js ''mt_slog_warn'')
               [(js ''action'', Str (js ''mask_warn_config'')), (js ''mask'', NumI (wi_mask w)),
                (js ''warn_cfg_id'', NumI (wi_cfg_id w))]) p)"

text \<open>The subtitle after a response: the first line of the old one and the new configuration.\<close>

definition masked_subtitle :: "jstr \<Rightarrow> warn_info \<Rightarrow> 'a warn_result_scheme \<Rightarrow> jstr" where
  "masked_subtitle subtitles w r =
     (let subtitle = hd (split_on 10 subtitles);
          showclass = (if wi_show_class w = js ''percent'' then js ''%'' else []);
          flag = wr_warn_flag r
      in subtitle @ [0x000A, 0x0020, 0x544A, 0x8B66, 0x914D, 0x7F6E, 0x3010, 0x0020, 0x6700, 0x5927, 0x503C, 0xFF1A]
         @ (if js_and flag 1 \<noteq> 0 then num_str (wr_warn_max r) @ showclass else [0x65E0, 0x0020])
         @ [0xFF0C, 0x6700, 0x5C0F, 0x503C, 0xFF1A]
         @ (if js_and flag 2 \<noteq> 0 then num_str (wr_warn_min r) @ showclass else [0x65E0, 0x0020])
         @ [0xFF0C, 0x6CE2, 0x52A8, 0x503C, 0xFF1A]
         @ (if js_and flag 4 \<noteq> 0 then num_str (wr_warn_wave r) @ js ''% '' else [0x65E0, 0x0020])
         @ (if js_and flag 32 \<noteq> 0 then [0xFF0C, 0x5C4F, 0x853D, 0x72B6, 0x6001, 0xFF1A, 0x5DF2, 0x5C4F, 0x853D] else [])
         @ [0x0020, 0x3011])"

text \<open>The three flags (\<open>myUnMaskWarningData\<close>, \<open>myMaskWarningData\<close>, \<open>mySetWarningData\<close>) and the new \<open>mask\<close>.\<close>

definition masked_flags :: "int \<Rightarrow> (bool \<times> bool \<times> bool) \<times> int" where
  "masked_flags flag =
     (if js_and flag 32 \<noteq> 0 then ((True, False, False), 0)
      else if js_and flag 1 \<noteq> 0 \<or> js_and flag 2 \<noteq> 0 \<or> js_and flag 4 \<noteq> 0 then ((False, True, True), 1)
      else ((False, True, False), 0))"

definition masked_option :: "jstr \<Rightarrow> bool \<times> bool \<times> bool \<Rightarrow> jsval" where
  "masked_option subtitle flags =
     (let show_flag = (\<lambda>b. Obj [(js ''show'', Bool b)])
      in Obj [(js ''title'', Obj [(js ''subtext'', Str subtitle)]),
              (js ''toolbox'', Obj [(js ''feature'', Obj
                 [(js ''myUnMaskWarningData'', show_flag (fst flags)),
                  (js ''myMaskWarningData'', show_flag (fst (snd flags))),
                  (js ''mySetWarningData'', show_flag (snd (snd flags)))])])])"

text \<open>
  The response to a request that was sent for the chart \<open>idx\<close> with \<open>w\<close>, its \<open>warnInfo\<close> then. The
  object is changed wherever it is referred to. \<open>getSubtext\<close> stands for
  \<open>cur_chart.getOption().title[0].subtext\<close> of echarts, \<open>msg_of\<close> for \<open>DWZ.msg\<close>.
\<close>

definition update_warn :: "nat \<Rightarrow> (warn_info \<Rightarrow> warn_info) \<Rightarrow> page \<Rightarrow> page" where
  "update_warn oid f p =
     p\<lparr>g_all_charts := map (\<lambda>(k, c). (k, c\<lparr>ch_warnInfo :=
          map_option (\<lambda>w. if wi_oid w = oid then f w else w) (ch_warnInfo c)\<rparr>)) (g_all_charts p)\<rparr>"

definition set_option :: "jstr \<Rightarrow> jsval \<Rightarrow> page \<Rightarrow> page" where
  "set_option idx op p =
     p\<lparr>g_all_charts := map (\<lambda>(k, c). (k, if k = idx then c\<lparr>ch_options := op # ch_options c\<rparr> else c)) (g_all_charts p)\<rparr>"

definition mask_response :: "(chart \<Rightarrow> jstr) \<Rightarrow> (jstr option \<Rightarrow> jstr) \<Rightarrow> jstr \<Rightarrow> warn_info
    \<Rightarrow> 'a warn_result_scheme \<Rightarrow> page \<Rightarrow> js_error + page" where
  "mask_response getSubtext msg_of idx w r p =
     (case dmtFirstDealAjaxResponse (Some r) p of
        Inl e \<Rightarrow> Inl e
      | Inr (p, True) \<Rightarrow> Inr p
      | Inr (p, False) \<Rightarrow>
          if wr_statusCode r \<noteq> 200 then Inr (emit (Alert_warn (msg_of (ar_msgid r))) p)
          else (case map_of (g_all_charts p) idx of
                  None \<Rightarrow> Inl (PropertyError (js ''getOption''))
                | Some cur_chart \<Rightarrow>
                    let (flags, mask) = masked_flags (wr_warn_flag r);
                        op = masked_option (masked_subtitle (getSubtext cur_chart) w r) flags;
                        p = update_warn (wi_oid w) (\<lambda>w. w\<lparr>wi_cfg_id := wr_warn_config_id r, wi_mask := mask\<rparr>) p
                    in Inr (set_option idx op p)))"

section \<open>The tool box\<close>

text \<open>The result is the tool box and the completed \<open>warnInfo\<close>.\<close>

definition dmtSetCustToolBox :: "page \<Rightarrow> toolbox \<Rightarrow> jstr \<Rightarrow> attr_val_list \<Rightarrow> attr_val \<Rightarrow> attr_info \<Rightarrow> warn_info
    \<Rightarrow> toolbox \<times> warn_info" where
  "dmtSetCustToolBox p op showtype vals v info w =
     (let warn_type_id = (if showtype = js ''view'' then avl_view_id vals else avl_machine_id vals);
          single = Click_single (avl_cust_date vals) (ai_name info) (avl_show_single_type vals) (avl_cgi_path vals)
            showtype warn_type_id (ai_id info) None;
          flag = av_warn_flag v;
          w = w\<lparr>wi_cfg_id := (if js_and flag 24 \<noteq> 0 then av_warn_config_id v else 0)\<rparr>;
          w = (if pg_site_cgi_path p = None \<or> pg_site_cgi_path p \<noteq> Some []
               then w\<lparr>wi_cgi_path := Some (avl_cgi_path vals)\<rparr> else w);
          w = w\<lparr>wi_show_class := ai_show_class info, wi_attr_name := ai_name info\<rparr>;
          ((unmask, mask, set), m) =
            (if js_and flag 32 \<noteq> 0 then ((True, False, False), 0)
             else if js_and flag 1 \<noteq> 0 \<or> js_and flag 2 \<noteq> 0 \<or> js_and flag 4 \<noteq> 0 then ((False, True, True), 1)
             else ((False, False, True), 0))
      in (op\<lparr>tb_single := (tb_single op)\<lparr>bt_onclick := single\<rparr>,
             tb_unmask := \<lparr>bt_show = unmask, bt_onclick = Click_mask showtype warn_type_id (ai_id info)\<rparr>,
             tb_set := \<lparr>bt_show = set, bt_onclick = Click_set showtype warn_type_id (ai_id info)\<rparr>,
             tb_mask := \<lparr>bt_show = mask, bt_onclick = Click_mask showtype warn_type_id (ai_id info)\<rparr>\<rparr>,
          w\<lparr>wi_mask := m\<rparr>))"

definition run_click :: "click \<Rightarrow> page \<Rightarrow> page" where
  "run_click c p =
     (case c of
        No_click \<Rightarrow> p
      | Click_single d n st cgi ty i a u \<Rightarrow> dmtShowSingle d n st cgi ty i a u p
      | Click_mask ty i a \<Rightarrow> dmtMaskWarnConfig ty i a p
      | Click_set ty i a \<Rightarrow> dmtSetWarnConfig ty i a p)"

section \<open>The tool box and its requests agree\<close>

text \<open>The state of a warning: masked (bit 32), and set (one of the bits 1, 2, 4).\<close>

definition is_masked :: "int \<Rightarrow> bool" where
  "is_masked flag = (js_and flag 32 \<noteq> 0)"

definition is_set :: "int \<Rightarrow> bool" where
  "is_set flag = (js_and flag 1 \<noteq> 0 \<or> js_and flag 2 \<noteq> 0 \<or> js_and flag 4 \<noteq> 0)"

definition next_mask :: "int \<Rightarrow> int" where
  "next_mask flag = (if \<not> is_masked flag \<and> is_set flag then 1 else 0)"

lemmas warn_flag_defs = is_masked_def is_set_def next_mask_def

lemma masked_flags_next: "snd (masked_flags flag) = next_mask flag"
  by (simp add: masked_flags_def warn_flag_defs)

lemma masked_flags_shown: "fst (masked_flags flag) = (is_masked flag, \<not> is_masked flag, \<not> is_masked flag \<and> is_set flag)"
  by (auto simp: masked_flags_def warn_flag_defs)

lemma toolbox_shown:
  "bt_show (tb_unmask (fst (dmtSetCustToolBox p op ty vals v info w))) = is_masked (av_warn_flag v)"
  "bt_show (tb_mask (fst (dmtSetCustToolBox p op ty vals v info w))) =
     (\<not> is_masked (av_warn_flag v) \<and> is_set (av_warn_flag v))"
  "bt_show (tb_set (fst (dmtSetCustToolBox p op ty vals v info w))) = (\<not> is_masked (av_warn_flag v))"
  "wi_mask (snd (dmtSetCustToolBox p op ty vals v info w)) = next_mask (av_warn_flag v)"
  "wi_oid (snd (dmtSetCustToolBox p op ty vals v info w)) = wi_oid w"
  by (auto simp: dmtSetCustToolBox_def warn_flag_defs Let_def)

definition warn_owner :: "jstr \<Rightarrow> attr_val_list \<Rightarrow> int" where
  "warn_owner ty vals = (if ty = js ''view'' then avl_view_id vals else avl_machine_id vals)"

lemma toolbox_clicks:
  "bt_onclick (tb_mask (fst (dmtSetCustToolBox p op ty vals v info w))) = Click_mask ty (warn_owner ty vals) (ai_id info)"
  "bt_onclick (tb_unmask (fst (dmtSetCustToolBox p op ty vals v info w))) = Click_mask ty (warn_owner ty vals) (ai_id info)"
  by (auto simp: dmtSetCustToolBox_def warn_owner_def Let_def)

text \<open>
  C29: the tool box offers either unmasking (exactly when the warning is masked) or setting a
  warning, and masking exactly when one is set and not masked. A click on the button, once the
  chart is installed, sends one request, which asks to mask exactly when masking was offered.
\<close>

theorem mask_button_request:
  fixes v :: attr_val and info :: attr_info and vals :: attr_val_list and w :: warn_info
    and op :: toolbox and ty :: jstr and p p' :: page
  defines "r \<equiv> dmtSetCustToolBox p op ty vals v info w"
  assumes "chart_warnInfo (chart_key ty (warn_owner ty vals) (ai_id info)) p' = Some (snd r)"
  shows "bt_show (tb_set (fst r)) = (\<not> bt_show (tb_unmask (fst r)))
    \<and> bt_show (tb_unmask (fst r)) = is_masked (av_warn_flag v)
    \<and> bt_show (tb_mask (fst r)) = (\<not> is_masked (av_warn_flag v) \<and> is_set (av_warn_flag v))
    \<and> run_click (bt_onclick (tb_mask (fst r))) p' = run_click (bt_onclick (tb_unmask (fst r))) p'
    \<and> (\<exists>url. pg_effects (run_click (bt_onclick (tb_mask (fst r))) p') = pg_effects p'
         @ [Ajax url [(js ''action'', Str (js ''mask_warn_config'')),
             (js ''mask'', NumI (if bt_show (tb_mask (fst r)) then 1 else 0)),
             (js ''warn_cfg_id'', NumI (wi_cfg_id (snd r)))]])"
  using assms(2) unfolding r_def toolbox_shown toolbox_clicks
  by (simp add: run_click_def dmtMaskWarnConfig_def toolbox_shown next_mask_def emit_def)

text \<open>A value, a list of values and an attribute.\<close>

definition sample_val :: "int \<Rightarrow> attr_val" where
  "sample_val flag = \<lparr>av_id = 3, av_max = Fin 9, av_min = Fin 1, av_total = Fin 12, av_cur = Fin 2, av_warn_flag = flag,
     av_warn_max = Fin 8, av_warn_min = Fin 0, av_warn_wave = Fin 0, av_warn_config_id = 5, av_values = Some (js ''9,1''),
     av_values_yst = js ''0'', av_values_lwk = js ''0'', av_str_count = 0, av_str_list = []\<rparr>"

definition sample_list :: attr_val_list where
  "sample_list = \<lparr>avl_type = 2, avl_view_id = 7, avl_machine_id = 1, avl_site_id = 0, avl_site_url = [], avl_cust_date = [],
     avl_cgi_path = js ''/cgi-bin/'', avl_show_single_type = 2, avl_date_time = [], avl_date_time_cur = [], avl_date_time_yst = [],
     avl_date_time_wkd = [], avl_start_utc = 0, avl_monday = False, avl_list = None\<rparr>"

definition sample_info :: attr_info where
  "sample_info = \<lparr>ai_id = 3, ai_name = js ''cpu'', ai_attr_type = 1, ai_global = 0, ai_pushed = False,
     ai_show_class = js ''percent'', ai_static_time = 1, ai_static_idx_max = 2, ai_data_type = 1\<rparr>"

definition sample_warn :: warn_info where
  "sample_warn = \<lparr>wi_oid = 0, wi_mask = 0, wi_cfg_id = 0, wi_cgi_path = None, wi_show_class = [], wi_attr_name = []\<rparr>"

definition sample_box :: toolbox where
  "sample_box = (let b = \<lparr>bt_show = True, bt_onclick = No_click\<rparr> in \<lparr>tb_unmask = b, tb_mask = b, tb_set = b, tb_single = b\<rparr>)"

theorem mask_button_request_witness:
  "\<exists>url. pg_effects (run_click (Click_mask (js ''view'') 7 3)
      (start_page True 1366 768\<lparr>g_all_charts := [(js ''attr_3_7view'', (blank_chart Undefined)\<lparr>ch_warnInfo :=
         Some (snd (dmtSetCustToolBox (start_page True 1366 768) sample_box (js ''view'') sample_list (sample_val 9) sample_info sample_warn))\<rparr>)]\<rparr>))
    = [Ajax url [(js ''action'', Str (js ''mask_warn_config'')), (js ''mask'', NumI 1), (js ''warn_cfg_id'', NumI 5)]]"
proof -
  let ?w = "snd (dmtSetCustToolBox (start_page True 1366 768) sample_box (js ''view'') sample_list (sample_val 9) sample_info sample_warn)"
  let ?p = "start_page True 1366 768\<lparr>g_all_charts := [(js ''attr_3_7view'', (blank_chart Undefined)\<lparr>ch_warnInfo := Some ?w\<rparr>)]\<rparr>"
  have c: "wi_cfg_id ?w = 5" by (simp add: dmtSetCustToolBox_def Let_def sample_val_def js_and_def to_int32_def)
  have o: "warn_owner (js ''view'') sample_list = 7" by (simp add: warn_owner_def sample_list_def)
  have k: "chart_key (js ''view'') (warn_owner (js ''view'') sample_list) (ai_id sample_info) = js ''attr_3_7view''"
    unfolding o by (simp add: sample_info_def chart_key_def int_str_def nat_digits.simps js_def)
  have "is_set 9" "\<not> is_masked 9" by (simp_all add: warn_flag_defs js_and_def to_int32_def)
  then show ?thesis
    using mask_button_request [of "js ''view''" sample_list sample_info ?p "start_page True 1366 768" sample_box "sample_val 9" sample_warn] k c o
    by (simp add: chart_warnInfo_def toolbox_shown toolbox_clicks sample_val_def sample_info_def start_page_def)
qed

section \<open>The two ways to write a subtitle agree\<close>

lemma frac_digits_range: "0 \<le> r \<Longrightarrow> r < 1 \<Longrightarrow> c \<in> set (frac_digits k r) \<Longrightarrow> is_digit c"
proof (induction k arbitrary: r)
  case (Suc k)
  let ?d = "nat \<lfloor>10 * r\<rfloor>" and ?f = "10 * r - of_int \<lfloor>10 * r\<rfloor>"
  have "?d < 10" using Suc.prems by (simp add: nat_less_iff floor_less_iff)
  then have d: "is_digit (of_nat (48 + ?d))" by (rule is_digit_dec)
  have "0 \<le> ?f" "?f < 1" by linarith+
  then show ?case
    using Suc.IH [of ?f] Suc.prems d by (auto split: if_splits simp del: of_nat_add)
qed simp

lemma newline_not_digit: "\<not> is_digit 10"
  by (simp add: is_digit_def)

lemma newline_not_in_num_str: "10 \<notin> set (num_str x)"
proof (cases x)
  case (Fin r)
  have "0 \<le> \<bar>r\<bar> - of_int \<lfloor>\<bar>r\<bar>\<rfloor>" "\<bar>r\<bar> - of_int \<lfloor>\<bar>r\<bar>\<rfloor> < 1" by linarith+
  from frac_digits_range [OF this, of 10 17] have "10 \<notin> set (frac_digits 17 (\<bar>r\<bar> - of_int \<lfloor>\<bar>r\<bar>\<rfloor>))"
    using newline_not_digit by blast
  moreover have "10 \<notin> set (nat_digits n)" for n using nat_digits_all_digits newline_not_digit by blast
  ultimately show ?thesis by (simp add: num_str_def Fin Let_def js_def)
qed (simp_all add: num_str_def js_def)

lemma newline_not_in_value: "10 \<notin> set (val_str (dmtShowChangeValue x))"
  by (simp add: dmtShowChangeValue_def val_str_def newline_not_in_num_str js_def)

lemma newline_not_in_static_time: "10 \<notin> set (dmtShowHumanStaticTime t)"
  by (simp add: dmtShowHumanStaticTime_def js_def)

lemma first_line: "10 \<notin> set s \<Longrightarrow> hd (split_on 10 (s @ 10 # t)) = s"
  by (simp add: split_on_append)

text \<open>The warning of a value replaced by that of a response.\<close>

definition with_warning :: "'a warn_result_scheme \<Rightarrow> attr_val \<Rightarrow> attr_val" where
  "with_warning r v = v\<lparr>av_warn_flag := wr_warn_flag r, av_warn_max := wr_warn_max r, av_warn_min := wr_warn_min r,
     av_warn_wave := wr_warn_wave r, av_warn_config_id := wr_warn_config_id r\<rparr>"

text \<open>
  For an attribute with data, the subtitle written after a response to a warning request is
  the subtitle \<open>dmtGetViewSubTitle\<close> gives for the values with the new warning: the two copies
  of the code agree and updating the chart is the same as drawing it again.
\<close>

theorem masked_subtitle_fresh:
  assumes "js_lt (Fin 0) (av_max v)" "wi_show_class w = ai_show_class info"
  shows "masked_subtitle (dmtGetViewSubTitle ty vals v info) w r = dmtGetViewSubTitle ty vals (with_warning r v) info"
proof -
  define line where "line = [0x0020, 0x3010] @ [0x6700, 0x5927, 0x503C, 0xFF1A] @ val_str (dmtShowChangeValue (av_max v))
      @ [0x002C, 0x0020, 0x56FE, 0x8868, 0x7D2F, 0x8BA1, 0x4E0A, 0x62A5, 0xFF1A] @ val_str (dmtShowChangeValue (av_total v)) @ [0x002C, 0x0020, 0x5F53, 0x524D, 0x7EDF, 0x8BA1, 0x5468, 0x671F, 0xFF1A]
      @ val_str (dmtShowChangeValue (av_cur v)) @ js ''/'' @ dmtShowHumanStaticTime (ai_static_time info) @ [0x3011]"
  have n: "10 \<notin> set line"
    by (simp add: line_def newline_not_in_value newline_not_in_static_time js_def)
  have "\<exists>t. dmtGetViewSubTitle ty vals v info = line @ 10 # t"
    using assms(1) by (simp add: dmtGetViewSubTitle_def line_def Let_def)
  then have l: "hd (split_on 10 (dmtGetViewSubTitle ty vals v info)) = line"
    using first_line [OF n] by auto
  show ?thesis
    unfolding masked_subtitle_def l using assms
    by (simp add: dmtGetViewSubTitle_def with_warning_def line_def Let_def)
qed

theorem masked_subtitle_fresh_witness:
  "masked_subtitle (dmtGetViewSubTitle (js ''view'') sample_list (sample_val 9) sample_info)
     (sample_warn\<lparr>wi_show_class := js ''percent''\<rparr>)
     \<lparr>ar_ec = None, ar_msg = None, ar_msgid = None, ar_redirect_url = [], wr_statusCode = 200, wr_warn_flag = 41, wr_warn_max = Fin 8,
       wr_warn_min = Fin 0, wr_warn_wave = Fin 0, wr_warn_config_id = 5\<rparr>
   = dmtGetViewSubTitle (js ''view'') sample_list (sample_val 41) sample_info"
proof -
  let ?r = "\<lparr>ar_ec = None, ar_msg = None, ar_msgid = None, ar_redirect_url = [], wr_statusCode = 200, wr_warn_flag = 41, wr_warn_max = Fin 8,
       wr_warn_min = Fin 0, wr_warn_wave = Fin 0, wr_warn_config_id = 5\<rparr>"
  have "with_warning ?r (sample_val 9) = sample_val 41" by (simp add: with_warning_def sample_val_def)
  then show ?thesis
    using masked_subtitle_fresh [of "sample_val 9" "sample_warn\<lparr>wi_show_class := js ''percent''\<rparr>" sample_info "js ''view''" sample_list ?r]
    by (simp add: sample_val_def sample_info_def)
qed

section \<open>Responses\<close>

definition error_code :: "jnum \<Rightarrow> bool" where
  "error_code ec = (js_num_eq ec (Fin 300) \<or> js_ge ec (Fin 1) \<and> js_lt ec (Fin 200))"

text \<open>
  C34: \<open>dmtFirstDealAjaxResponse\<close> deals with exactly the error codes 666, 111, 300 and those from 1
  up to 200 (exclusive) and never touches a chart. It raises an exception exactly when the code is
  300 or in that range, other than 111, and the response has a message identifier and no message:
  it then reads the undeclared variable \<open>json\<close>. In every other case it returns, and what it does
  not deal with has no effect.
\<close>

theorem ajax_response_cases:
  "(dmtFirstDealAjaxResponse (Some r) p = Inl (ReferenceError (js ''json'')) \<longleftrightarrow>
      (\<exists>ec. ar_ec r = Some ec \<and> error_code ec \<and> ec \<noteq> Fin 111) \<and> ar_msg r = None \<and> ar_msgid r \<noteq> None)
   \<and> (dmtFirstDealAjaxResponse (Some r) p \<noteq> Inl (ReferenceError (js ''json'')) \<longleftrightarrow>
      (\<exists>p' handled. dmtFirstDealAjaxResponse (Some r) p = Inr (p', handled) \<and> g_all_charts p' = g_all_charts p
       \<and> handled = (\<exists>ec. ar_ec r = Some ec \<and> (ec = Fin 666 \<or> error_code ec))
       \<and> (\<exists>es. pg_effects p' = pg_effects p @ es \<and> (if handled then es \<noteq> [] else es = []))))"
  by (auto simp: dmtFirstDealAjaxResponse_def error_code_def dmtPopDaemonTipMsg_def emit_def js_num_eq_def Let_def
      split: option.splits)

end
