(* ===== verification/Comm_Charts.thy ===== *)
theory Comm_Charts
  imports Comm_Warn
begin

text \<open>
  The charts of \<open>src/html/resource/js/dmt.comm.js\<close>: the options of the pies and maps, and
  \<open>dmtShowAttrInfo\<close>, which builds a container and a chart for every attribute. An option is the
  value given to echarts; its functions are opaque there and modelled elsewhere
  (\<open>axis_label\<close>, \<open>dmtGetDateStr\<close>, the clicks of the tool box).
\<close>

section \<open>Installing a chart\<close>

text \<open>\<open>g_all_charts[id] = c\<close>: an existing entry keeps its place.\<close>

definition put_chart :: "jstr \<Rightarrow> jsval \<Rightarrow> warn_info option \<Rightarrow> page \<Rightarrow> page" where
  "put_chart ct_id op w p =
     p\<lparr>g_all_charts := put_entry ct_id
          \<lparr>ch_setwidth = g_dmtChartWidth p, ch_resized = 0, ch_options = [op],
            ch_warnInfo = w\<rparr> (g_all_charts p)\<rparr>"

abbreviation member :: "string \<Rightarrow> jsval \<Rightarrow> jstr \<times> jsval" where
  "member k v \<equiv> (js k, v)"

abbreviation text_val :: "string \<Rightarrow> jsval" where
  "text_val s \<equiv> Str (js s)"

definition str_items :: "(jstr \<times> jnum) list \<Rightarrow> jsval" where
  "str_items xs = Arr (map (\<lambda>(name, value). Obj [member ''name'' (Str name), member ''value'' (Num value)]) xs)"

section \<open>Map chart\<close>

text \<open>The option: title text, subtitle, whether there are data, the upper end of the scale, the data.\<close>

definition geo_option :: "jstr \<Rightarrow> jstr \<Rightarrow> bool \<Rightarrow> jnum \<Rightarrow> jsval \<Rightarrow> jsval" where
  "geo_option text subtext has_data vmax data =
     Obj [member ''title'' (Obj
            [member ''x'' (text_val ''left''), member ''subtext'' (Str subtext), member ''top'' (text_val ''top''),
             member ''subtextStyle'' (Obj (if has_data then []
               else [member ''color'' (text_val ''red''), member ''fontWeight'' (text_val ''bold'')])),
             member ''show'' (Bool True), member ''text'' (Str text)]),
          member ''tooltip'' (Obj
            [member ''trigger'' (text_val ''item''), member ''confine'' (Bool True),
             member ''formatter'' (Str (js ''{b}<br/>'' @ [0x8BBF, 0x95EE, 0x6B21, 0x6570] @ js '': {c}''))]),
          member ''visualMap'' (Obj
            [member ''min'' (NumI 0), member ''max'' (Num vmax), member ''realtime'' (Bool True),
             member ''calculable'' (Bool True),
             member ''inRange'' (Obj [member ''color''
               (Arr [text_val ''lightskyblue'', text_val ''yellow'', text_val ''orangered''])])]),
          member ''toolbox'' (Obj
            [member ''show'' (Bool True), member ''orient'' (text_val ''vertical''), member ''top'' (text_val ''center''),
             member ''right'' (NumI 20),
             member ''feature'' (Obj [member ''dataView'' (Obj [member ''readOnly'' (Bool False)]),
               member ''restore'' (Obj []), member ''saveAsImage'' (Obj [])])]),
          member ''legend'' (Obj
            [member ''type'' (text_val ''scroll''), member ''orient'' (text_val ''vertical''),
             member ''left'' (text_val ''left''), member ''top'' (text_val ''70''), member ''show'' (Bool True)]),
          member ''series'' (Arr [Obj
            [member ''type'' (text_val ''map''), member ''mapType'' (text_val ''china''),
             member ''label'' (Obj [member ''show'' (Bool True)]), member ''data'' data, member ''geoIndex'' (NumI 0)]])]"

definition page_title :: "jstr \<Rightarrow> attr_val_list \<Rightarrow> jstr" where
  "page_title showtype vals =
     (if showtype = js ''view'' then [0x89C6, 0x56FE, 0x0049, 0x0044, 0x3010] @ int_str (avl_view_id vals) @ [0x3011]
      else [0x670D, 0x52A1, 0x5668, 0x0049, 0x0044, 0x3010] @ int_str (avl_machine_id vals) @ [0x3011])"

text \<open>The sum over the first \<open>n\<close> items; \<open>None\<close> when the list is shorter than the count says.\<close>

fun total_of :: "nat \<Rightarrow> (jstr \<times> jnum) list \<Rightarrow> jnum \<Rightarrow> jnum option" where
  "total_of 0 xs t = Some t"
| "total_of (Suc n) [] t = None"
| "total_of (Suc n) ((_, v) # xs) t = total_of n xs (js_add t v)"

definition dmtSetStrAttrInfoChartIpGeo :: "jstr \<Rightarrow> attr_info \<Rightarrow> attr_val \<Rightarrow> attr_val_list \<Rightarrow> jstr \<Rightarrow> page
    \<Rightarrow> js_error + page" where
  "dmtSetStrAttrInfoChartIpGeo ct_id info v vals showtype p =
     (let p = emit (Css (js ''#'' @ ct_id) (js ''height'') (NumI g_dmtChartHeight)) p;
          text = page_title showtype vals @ [0x76D1, 0x63A7, 0x70B9, 0xFF1A] @ ai_name info @ js ''-'' @ int_str (ai_id info)
      in if 0 < av_str_count v then
           (case total_of (nat (av_str_count v)) (av_str_list v) (Fin 0) of
              None \<Rightarrow> Inl (PropertyError (js ''value''))
            | Some visits \<Rightarrow>
                let subtext = [0x7EDF, 0x8BA1, 0x65F6, 0x95F4, 0xFF1A] @ avl_date_time_cur vals @ [0x0028, 0x603B, 0x8BBF, 0x95EE, 0x6B21, 0x6570, 0x003A] @ num_str visits
                      @ [0x002C, 0x0020, 0x90E8, 0x5206, 0x5730, 0x7406, 0x4F4D, 0x7F6E, 0x4E0D, 0x80FD, 0x8BC6, 0x522B, 0x7684, 0x8BBF, 0x95EE, 0x5C06, 0x4E0D, 0x663E, 0x793A, 0x5728, 0x5730, 0x56FE, 0x4E0A, 0x0029, 0x0020, 0x000A]
                in Inr (put_chart ct_id (geo_option text subtext True
                     (js_add (snd (hd (av_str_list v))) (Fin 100)) (str_items (av_str_list v))) None p))
         else Inr (put_chart ct_id (geo_option text [0x6682, 0x65E0, 0x6570, 0x636E, 0x4E0A, 0x62A5] False (Fin 10000) (Arr [])) None p))"

section \<open>Pie chart\<close>

definition pie_option :: "jstr \<Rightarrow> jstr \<Rightarrow> bool \<Rightarrow> jsval \<Rightarrow> jsval" where
  "pie_option text subtext has_data data =
     Obj [member ''title'' (Obj
            [member ''x'' (text_val (if has_data then ''left'' else ''center'')), member ''subtext'' (Str subtext),
             member ''top'' (text_val (if has_data then ''top'' else ''20%'')),
             member ''subtextStyle'' (Obj (if has_data then []
               else [member ''color'' (text_val ''red''), member ''fontWeight'' (text_val ''bold'')])),
             member ''show'' (Bool True), member ''text'' (Str text)]),
          member ''tooltip'' (Obj
            [member ''trigger'' (text_val ''item''), member ''confine'' (Bool True),
             member ''formatter'' (Str ([0x4E0A, 0x62A5, 0x5B57, 0x7B26, 0x4E32, 0xFF1A] @ js ''{b}<br>'' @ [0x4E0A, 0x62A5, 0x503C] @ js '': {c} ({d}%)''))]),
          member ''legend'' (Obj
            [member ''type'' (text_val ''scroll''), member ''orient'' (text_val ''vertical''),
             member ''right'' (text_val ''right''), member ''top'' (text_val ''70''), member ''show'' (Bool True)]),
          member ''series'' (Arr [Obj
            [member ''type'' (text_val ''pie''), member ''radius'' (text_val ''55%''),
             member ''center'' (Arr [text_val ''40%'', text_val ''55%'']), member ''data'' data,
             member ''label'' (Obj [member ''show'' (Bool True), member ''emphasis'' (Obj [member ''show'' (Bool True)])]),
             member ''itemStyle'' (Obj [member ''emphasis'' (Obj
               [member ''shadowBlur'' (NumI 10), member ''shadowOffsetX'' (NumI 0),
                member ''shadowColor'' (text_val ''rgba(0, 0, 0, 0.5)'')])])]])]"

definition dmtSetStrAttrInfoChart :: "jstr \<Rightarrow> attr_info \<Rightarrow> attr_val \<Rightarrow> attr_val_list \<Rightarrow> jstr \<Rightarrow> page \<Rightarrow> page" where
  "dmtSetStrAttrInfoChart ct_id info v vals showtype p =
     (let p = emit (Css (js ''#'' @ ct_id) (js ''height'') (NumI g_dmtChartHeight)) p;
          text = page_title showtype vals @ [0x5B57, 0x7B26, 0x4E32, 0x578B, 0x76D1, 0x63A7, 0x70B9, 0xFF1A] @ ai_name info
      in if 0 < av_str_count v then
           put_chart ct_id (pie_option text ([0x7EDF, 0x8BA1, 0x65F6, 0x95F4, 0xFF1A] @ avl_date_time_cur vals @ [0x002C, 0x0020, 0x663E, 0x793A, 0x6392, 0x540D, 0x524D, 0x0020, 0x0032, 0x0030, 0x0020, 0x4E2A]) True
             (str_items (av_str_list v))) None p
         else put_chart ct_id (pie_option text [0x6682, 0x65E0, 0x6570, 0x636E, 0x4E0A, 0x62A5] False (Arr [])) None p)"

section \<open>Usage pie\<close>

text \<open>The arguments; \<open>c_items\<close> and \<open>c_sublink\<close> have the defaults 1 and the empty text.\<close>

record pie_args =
  c_name :: jstr
  c_text :: jstr
  c_subtext :: jstr
  c_val :: jnum
  c_colors :: "jstr list"
  c_items :: "int option"
  c_sublink :: "jstr option"

text \<open>\<open>colors[i] || colors[j]\<close>.\<close>

definition color_or :: "jstr list \<Rightarrow> nat \<Rightarrow> nat \<Rightarrow> jsval" where
  "color_or cs i j =
     (if i < length cs \<and> cs ! i \<noteq> [] then Str (cs ! i) else if j < length cs then Str (cs ! j) else Undefined)"

definition color_stops :: "jstr list \<Rightarrow> jsval" where
  "color_stops cs = Obj [member ''colorStops'' (Arr
     [Obj [member ''offset'' (NumI 0), member ''color'' (color_or cs 0 1)],
      Obj [member ''offset'' (NumI 1), member ''color'' (color_or cs 2 3)]])]"

definition hidden_labels :: "(jstr \<times> jsval) list" where
  "hidden_labels = [member ''label'' (Obj [member ''show'' (Bool False)]),
     member ''labelLine'' (Obj [member ''show'' (Bool False)])]"

definition dmtGetUsePerPieOption :: "pie_args \<Rightarrow> jsval" where
  "dmtGetUsePerPieOption op =
     (let items = (case c_items op of Some n \<Rightarrow> n | None \<Rightarrow> 1);
          sublink = (case c_sublink op of Some s \<Rightarrow> s | None \<Rightarrow> []);
          subtext_color = (if 4 < length (c_colors op) then c_colors op ! 4 else js ''blue'');
          text_color = (if 1 < items then js ''blue'' else js ''#044'')
      in Obj [member ''title'' (Obj
            ([member ''id'' (Str (c_name op)), member ''text'' (Str (c_text op)), member ''triggerEvent'' (Bool True),
              member ''subtext'' (Str (c_subtext op)), member ''left'' (text_val ''center''), member ''top'' (text_val ''center''),
              member ''textStyle'' (Obj [member ''color'' (Str text_color), member ''fontSize'' (NumI 14),
                member ''fontFamily'' (text_val ''PingFangSC-Regular'')]),
              member ''subtextStyle'' (Obj [member ''color'' (Str subtext_color),
                member ''fontSize'' (NumI (if 1 < items then 14 else 18)),
                member ''fontFamily'' (text_val ''PingFangSC-Regular''), member ''fontWeight'' (text_val ''bold''),
                member ''top'' (text_val ''center'')]),
              member ''itemGap'' (NumI (- 1))]
             @ (if sublink \<noteq> [] then [member ''sublink'' (Str sublink), member ''subtarget'' (text_val ''self'')] else []))),
          member ''series'' (Arr [Obj
            [member ''name'' (Str (c_name op)), member ''type'' (text_val ''pie''), member ''clockWise'' (Bool True),
             member ''radius'' (Arr [text_val ''80%'', text_val ''95%'']),
             member ''itemStyle'' (Obj [member ''normal'' (Obj hidden_labels)]),
             member ''hoverAnimation'' (Bool False),
             member ''data'' (Arr
               [Obj [member ''value'' (Num (c_val op)), member ''name'' (text_val ''completed''),
                  member ''itemStyle'' (Obj [member ''normal'' (Obj
                    ([member ''borderWidth'' (NumI 8), member ''borderColor'' (color_stops (c_colors op)),
                      member ''color'' (color_stops (c_colors op))] @ hidden_labels))])],
                Obj [member ''name'' (text_val ''gap''), member ''value'' (Num (js_sub (Fin 100) (c_val op))),
                  member ''itemStyle'' (Obj [member ''normal'' (Obj
                    (hidden_labels @ [member ''color'' (text_val ''rgba(0, 0, 0, 0)''),
                      member ''borderColor'' (text_val ''rgba(0, 0, 0, 0)''), member ''borderWidth'' (NumI 0)]))])]])]])])"

section \<open>Curves\<close>

text \<open>
  The members of the option \<open>op\<close> that \<open>dmtShowAttrInfo\<close> changes; the object is shared by all
  turns of its loop, so the values are carried from one attribute to the next.
\<close>

record view_op =
  vo_legend_show :: bool
  vo_text :: "jstr option"
  vo_subtext :: jstr
  vo_sub_color :: "jstr option"
  vo_top :: jstr
  vo_grid_bottom :: int
  vo_xshow :: bool
  vo_yshow :: bool
  vo_ymin :: "jnum option"
  vo_toolbox :: toolbox
  vo_zoom_show :: bool
  vo_series :: "(jstr \<times> (int option \<times> jstr) list) list"

definition fresh_button :: button where
  "fresh_button = \<lparr>bt_show = True, bt_onclick = No_click\<rparr>"

definition first_op :: view_op where
  "first_op = \<lparr>vo_legend_show = False, vo_text = Some [], vo_subtext = [], vo_sub_color = None, vo_top = js ''top'',
     vo_grid_bottom = 50, vo_xshow = True, vo_yshow = True, vo_ymin = None,
     vo_toolbox = \<lparr>tb_unmask = fresh_button, tb_mask = fresh_button, tb_set = fresh_button, tb_single = fresh_button\<rparr>,
     vo_zoom_show = True, vo_series = [([], []), ([], []), ([], [])]\<rparr>"

definition button_val :: "page \<Rightarrow> button \<Rightarrow> jstr \<Rightarrow> string \<Rightarrow> jsval" where
  "button_val p b title icon =
     Obj [member ''show'' (Bool (bt_show b)), member ''title'' (Str title),
          member ''icon'' (Str (js ''image://'' @ pg_doc_path p @ js icon)), member ''onclick'' Fun]"

definition points_val :: "(int option \<times> jstr) list \<Rightarrow> jsval" where
  "points_val ps = Arr (map (\<lambda>(t, v). Obj [member ''value''
     (Arr [case t of Some i \<Rightarrow> NumI i | None \<Rightarrow> Undefined, Str v])]) ps)"

definition series_val :: "jstr \<times> (int option \<times> jstr) list \<Rightarrow> jsval" where
  "series_val s =
     Obj [member ''name'' (Str (fst s)), member ''showSymbol'' (Bool False), member ''cursor'' (text_val ''pointer''),
          member ''smooth'' (Bool True), member ''smoothMonotone'' (text_val ''x''), member ''type'' (text_val ''line''),
          member ''data'' (points_val (snd s))]"

definition view_option :: "page \<Rightarrow> view_op \<Rightarrow> jsval" where
  "view_option p op =
     (let tb = vo_toolbox op in
      Obj [member ''legend'' (Obj [member ''show'' (Bool (vo_legend_show op)), member ''bottom'' (NumI 10)]),
           member ''title'' (Obj
             [member ''text'' (case vo_text op of Some t \<Rightarrow> Str t | None \<Rightarrow> Undefined), member ''x'' (text_val ''center''),
              member ''subtext'' (Str (vo_subtext op)), member ''top'' (Str (vo_top op)),
              member ''subtextStyle'' (Obj (case vo_sub_color op of Some c \<Rightarrow> [member ''color'' (Str c)] | None \<Rightarrow> [])),
              member ''show'' (Bool True)]),
           member ''useUTC'' (Bool True),
           member ''toolbox'' (Obj
             [member ''show'' (Bool True), member ''orient'' (text_val ''vertical''), member ''top'' (text_val ''center''),
              member ''right'' (NumI 20),
              member ''feature'' (Obj
                [member ''myUnMaskWarningData'' (button_val p (tb_unmask tb) [0x53D6, 0x6D88, 0x5C4F, 0x853D, 0x544A, 0x8B66] ''images/phone_sound.png''),
                 member ''myMaskWarningData'' (button_val p (tb_mask tb) [0x5C4F, 0x853D, 0x544A, 0x8B66] ''images/phone_delete.png''),
                 member ''mySetWarningData'' (button_val p (tb_set tb) [0x8BBE, 0x7F6E, 0x544A, 0x8B66] ''images/phone_edit.png''),
                 member ''myShowSingleData'' (button_val p (tb_single tb) [0x5355, 0x72EC, 0x663E, 0x793A, 0x56FE, 0x8868, 0x6570, 0x636E] ''images/arrow_out_longer.png''),
                 member ''restore'' (Obj [member ''show'' (Bool True), member ''title'' (Str [0x8FD8, 0x539F, 0x56FE, 0x8868, 0x663E, 0x793A])]),
                 member ''dataZoom'' (Obj [member ''show'' (Bool (vo_zoom_show op)), member ''xAxisIndex'' (NumI 0),
                   member ''yAxisIndex'' (Bool False)]),
                 member ''saveAsImage'' (Obj [member ''show'' (Bool True)])])]),
           member ''grid'' (Obj [member ''tooltip'' (Obj [member ''show'' (Bool True), member ''trigger'' (text_val ''axis'')]),
             member ''top'' (NumI 70), member ''bottom'' (NumI (vo_grid_bottom op))]),
           member ''xAxis'' (Obj [member ''show'' (Bool (vo_xshow op)), member ''type'' (text_val ''time''),
             member ''axisPointer'' (Obj [member ''label'' (Obj [member ''formatter'' Fun])])]),
           member ''yAxis'' (Obj
             ([member ''splitArea'' (Obj [member ''show'' (Bool True)]), member ''show'' (Bool (vo_yshow op)),
               member ''axisLabel'' (Obj [member ''formatter'' Fun]), member ''type'' (text_val ''value'')]
              @ (case vo_ymin op of Some m \<Rightarrow> [member ''min'' (Num m)] | None \<Rightarrow> []))),
           member ''tooltip'' (Obj [member ''trigger'' (text_val ''none''),
             member ''axisPointer'' (Obj [member ''type'' (text_val ''cross''), member ''snap'' (Bool True)])]),
           member ''dataZoom'' (Arr [Obj [member ''type'' (text_val ''inside''), member ''xAxisIndex'' (NumI 0)]]),
           member ''series'' (Arr (map series_val (vo_series op)))])"

text \<open>\<open>xAxis.axisPointer.label.formatter\<close>.\<close>

definition axis_pointer :: "time_zone \<Rightarrow> int \<Rightarrow> attr_val_list \<Rightarrow> int \<Rightarrow> jstr" where
  "axis_pointer z now vals value =
     (if avl_type vals \<noteq> 1 then dmtGetDateStr z now value False else dmtGetDateStr z now value True)"

definition attr_container :: "page \<Rightarrow> jstr \<Rightarrow> jstr \<Rightarrow> jstr \<Rightarrow> jstr" where
  "attr_container p showtype attr_show_id jumpid =
     js ''<div style='' @ [0x22] @ js ''width:'' @ (case g_dmtChartWidth p of Num w \<Rightarrow> num_str w | _ \<Rightarrow> js ''undefined'') @ js ''px; ''
     @ js '' height:'' @ int_str g_dmtChartHeight @ js ''px; ''
     @ js '' border:2px solid #335cad; padding-top:5px;''
     @ js '' float:left; margin:'' @ int_str g_dmtChartMargin @ js ''px;'' @ [0x22] @ js '' ''
     @ js '' type='' @ [0x22] @ showtype @ [0x22] @ js '' ''
     @ js '' id='' @ [0x22] @ attr_show_id @ [0x22] @ js '' ''
     @ js '' type_id='' @ [0x22] @ jumpid @ [0x22] @ js '' >''
     @ js ''</div>''"

definition jump_id :: "jstr \<Rightarrow> attr_val_list \<Rightarrow> jstr" where
  "jump_id showtype vals =
     (if showtype = js ''view'' then int_str (avl_view_id vals)
      else if showtype = js ''machine'' then int_str (avl_machine_id vals) else js ''undefined'')"

definition show_id :: "jstr \<Rightarrow> attr_val_list \<Rightarrow> attr_val \<Rightarrow> jstr" where
  "show_id showtype vals v = js ''attr_'' @ int_str (av_id v) @ js ''_'' @ jump_id showtype vals @ showtype"

text \<open>The three curves of a day view: today, yesterday, a week ago; and whether there are data.\<close>

definition set_series :: "int list \<Rightarrow> attr_val_list \<Rightarrow> attr_val \<Rightarrow> view_op \<Rightarrow> view_op \<times> bool" where
  "set_series time_info vals v op =
     (let has = (av_values v \<noteq> None \<and> js_lt (Fin 0) (av_max v));
          s0 = (if has then dmtGetYAxisData time_info (the (av_values v)) else []);
          op = op\<lparr>vo_series := (vo_series op)[0 := (fst (vo_series op ! 0), s0)]\<rparr>
      in if avl_type vals = 1 then
           (op\<lparr>vo_series :=
              [([0x4ECA, 0x65E5, 0x0020, 0x005B] @ avl_date_time_cur vals @ js '']'', s0),
               ([0x6628, 0x65E5, 0x0020, 0x005B] @ avl_date_time_yst vals @ js '']'',
                if av_values_yst v \<noteq> js ''0'' then dmtGetYAxisData time_info (av_values_yst v) else []),
               ([0x4E0A, 0x5468, 0x540C, 0x65E5, 0x0020, 0x005B] @ avl_date_time_wkd vals @ js '']'',
                if av_values_lwk v \<noteq> js ''0'' then dmtGetYAxisData time_info (av_values_lwk v) else [])]\<rparr>,
            has \<or> av_values_yst v \<noteq> js ''0'' \<or> av_values_lwk v \<noteq> js ''0'')
         else (op, has))"

definition mark_data :: "bool \<Rightarrow> view_op \<Rightarrow> view_op" where
  "mark_data bHasData op =
     (let tb = vo_toolbox op
      in op\<lparr>vo_sub_color := Some (if bHasData then js ''gray'' else js ''red''),
            vo_top := (if bHasData then js ''top'' else js ''20%''),
            vo_xshow := bHasData, vo_yshow := bHasData, vo_zoom_show := bHasData,
            vo_toolbox := tb\<lparr>tb_single := (tb_single tb)\<lparr>bt_show := bHasData\<rparr>\<rparr>\<rparr>)"

definition empty_warn :: "nat \<Rightarrow> warn_info" where
  "empty_warn oid = \<lparr>wi_oid = oid, wi_mask = 0, wi_cfg_id = 0, wi_cgi_path = None, wi_show_class = [], wi_attr_name = []\<rparr>"

text \<open>The chart of a numeric attribute.\<close>

definition show_curves :: "int list \<Rightarrow> attr_val_list \<Rightarrow> jstr \<Rightarrow> attr_info \<Rightarrow> attr_val \<Rightarrow> page \<times> view_op \<Rightarrow> page \<times> view_op" where
  "show_curves time_info vals showtype info v = (\<lambda>(p, op).
     let (op, bHasData) = set_series time_info vals v op;
         op = op\<lparr>vo_ymin := Some (if ai_data_type info = 5 then av_min v else Fin 0)\<rparr>;
         vals = vals\<lparr>avl_show_single_type := avl_type vals\<rparr>;
         op = op\<lparr>vo_text := dmtGetViewTitle showtype vals info, vo_subtext := dmtGetViewSubTitle showtype vals v info\<rparr>;
         (tb, warnInfo) = dmtSetCustToolBox p (vo_toolbox op) showtype vals v info (empty_warn (pg_next_oid p));
         op = mark_data bHasData (op\<lparr>vo_toolbox := tb\<rparr>)
     in (put_chart (show_id showtype vals v) (view_option p op) (Some warnInfo) (p\<lparr>pg_next_oid := pg_next_oid p + 1\<rparr>), op))"

text \<open>
  The attribute of a value: the one at the same position, or the one found by its number. When
  none is found the code goes on with the text \<open>"null"\<close>, whose members are all undefined; the
  model stops with an error there.
\<close>

definition info_of :: "attr_list \<Rightarrow> nat \<Rightarrow> attr_val \<Rightarrow> js_error + attr_info" where
  "info_of as i v =
     (if i \<ge> length (al_list as) then Inl (PropertyError (js ''id''))
      else if ai_id (al_list as ! i) = av_id v then Inr (al_list as ! i)
      else (case dmtGetAttrInfo as (av_id v) of Some info \<Rightarrow> Inr info | None \<Rightarrow> Inl (PropertyError (js ''null''))))"

text \<open>
  The inline width of a new container; \<open>undefinedpx\<close>, \<open>NaNpx\<close>, \<open>Infinitypx\<close> and negative widths are
  not valid. Containers of the same identifier go to the same \<open>ct_div\<close>, so the first one stays the
  one that \<open>getElementById\<close> finds.
\<close>

definition inline_width :: "jsval \<Rightarrow> rat option" where
  "inline_width w = (case w of Num (Fin q) \<Rightarrow> if 0 \<le> q then Some q else None | _ \<Rightarrow> None)"

definition add_container :: "jstr \<Rightarrow> jstr \<Rightarrow> jstr \<Rightarrow> jstr \<Rightarrow> page \<Rightarrow> page" where
  "add_container ct_div showtype sid jumpid p =
     (let p = (if sid \<in> set (pg_ids p)
               then emit (Html (js ''#'' @ sid) []) (dmtJsBugReport (js ''dmt.comm.js'') (js ''dmtShowAttrInfo'') (js ''bug:'' @ sid) p)
               else p)
      in emit (Append ct_div (attr_container p showtype sid jumpid))
           (p\<lparr>pg_ids := pg_ids p @ [sid],
              pg_width := (if sid \<in> set (pg_ids p) then pg_width p
                           else (pg_width p)(sid := inline_width (g_dmtChartWidth p)))\<rparr>))"

text \<open>One turn of the loop.\<close>

definition show_attr :: "int \<Rightarrow> nat \<Rightarrow> attr_list \<Rightarrow> attr_val_list \<Rightarrow> jstr \<Rightarrow> jstr \<Rightarrow> nat \<Rightarrow> attr_val
    \<Rightarrow> page \<times> view_op \<Rightarrow> js_error + page \<times> view_op" where
  "show_attr dateStart count_day as vals ct_div showtype i v = (\<lambda>(p, op).
     let sid = show_id showtype vals v;
         p = add_container ct_div showtype sid (jump_id showtype vals) p
     in case info_of as i v of
          Inl e \<Rightarrow> Inl e
        | Inr info \<Rightarrow>
            let p = (if sid \<in> fst ` set (g_all_charts p) then emit (Dispose sid) p else p)
            in if ai_data_type info = 7 then
                 (case dmtSetStrAttrInfoChartIpGeo sid info v vals showtype p of
                    Inl e \<Rightarrow> Inl e | Inr p \<Rightarrow> Inr (p, op))
               else if ai_data_type info = 6 then Inr (dmtSetStrAttrInfoChart sid info v vals showtype p, op)
               else Inr (show_curves (dmtGetXAxisTimeInfo dateStart count_day info) vals showtype info v (p, op)))"

fun show_attrs :: "int \<Rightarrow> nat \<Rightarrow> attr_list \<Rightarrow> attr_val_list \<Rightarrow> jstr \<Rightarrow> jstr \<Rightarrow> nat \<Rightarrow> attr_val list
    \<Rightarrow> page \<times> view_op \<Rightarrow> js_error + page" where
  "show_attrs dateStart count_day as vals ct_div showtype i [] s = Inr (fst s)"
| "show_attrs dateStart count_day as vals ct_div showtype i (v # vs) s =
     (case show_attr dateStart count_day as vals ct_div showtype i v s of
        Inl e \<Rightarrow> Inl e
      | Inr s' \<Rightarrow> show_attrs dateStart count_day as vals ct_div showtype (i + 1) vs s')"

text \<open>\<open>offset\<close> is \<open>new Date().getTimezoneOffset()\<close>.\<close>

definition dmtShowAttrInfo :: "int \<Rightarrow> attr_list \<Rightarrow> attr_val_list \<Rightarrow> jstr \<Rightarrow> jstr \<Rightarrow> page \<Rightarrow> js_error + page" where
  "dmtShowAttrInfo offset as vals ct_div showtype p =
     (case avl_list vals of
        None \<Rightarrow> Inr p
      | Some attr_vals \<Rightarrow>
          let dateStart = avl_start_utc vals * 1000 - offset * 60 * 1000;
              count_day = (if avl_monday vals then 7 else 1);
              op = (if avl_type vals = 1 then first_op\<lparr>vo_legend_show := True, vo_grid_bottom := 80\<rparr> else first_op)
          in show_attrs dateStart count_day as vals ct_div showtype 0 attr_vals (p, op))"

end
