(* ===== verification/Comm_Misc.thy ===== *)
theory Comm_Misc
  imports Comm_Charts
begin

text \<open>
  The remaining functions of \<open>src/html/resource/js/dmt.comm.js\<close>: full screen, export, scrolling to a
  chart, the menu, dialog timers and the choice of the fastest web server; and the plugin
  dialogs of \<open>src/html/resource/js/dmt.addplugin.js\<close>.
\<close>

section \<open>Full screen\<close>

text \<open>
  The members of \<open>document\<close> and of the element in the order the code tries them: the element in
  full screen, whether the browser has the methods, and whether it has \<open>ActiveXObject\<close>.
\<close>

record full_env =
  fe_current :: "jstr option list"
  fe_exit :: "bool list"
  fe_request :: "bool list"
  fe_activex :: bool

datatype full_act = Exit_call nat | Request_call nat | Send_F11

fun first_some :: "'a option list \<Rightarrow> 'a option" where
  "first_some [] = None"
| "first_some (Some x # xs) = Some x"
| "first_some (None # xs) = first_some xs"

fun first_true :: "bool list \<Rightarrow> nat option" where
  "first_true [] = None"
| "first_true (b # bs) = (if b then Some 0 else map_option Suc (first_true bs))"

definition dmtCheckFull :: "full_env \<Rightarrow> jstr option" where
  "dmtCheckFull e = first_some (fe_current e)"

definition dmtToggleFullScreen :: "full_env \<Rightarrow> full_act list \<times> jstr" where
  "dmtToggleFullScreen e =
     (if dmtCheckFull e \<noteq> None then
        (case first_true (fe_exit e) of
           Some i \<Rightarrow> ([Exit_call i], js ''no'')
         | None \<Rightarrow> (if fe_activex e then [Send_F11] else [], js ''no''))
      else
        (case first_true (fe_request e) of
           Some i \<Rightarrow> ([Request_call i], js ''yes'')
         | None \<Rightarrow> if fe_activex e then ([Send_F11], js ''yes'') else ([], js ''error'')))"

section \<open>Export\<close>

definition dmtExport :: "page \<Rightarrow> page" where
  "dmtExport p = emit (Alert_confirm [0x786E, 0x5B9E, 0x8981, 0x5BFC, 0x51FA, 0x8FD9, 0x4E9B, 0x8BB0, 0x5F55, 0x5417, 0x003F]) p"

definition export_ok :: "jstr \<Rightarrow> jsval \<Rightarrow> page \<Rightarrow> page" where
  "export_ok url data p = emit (Ajax url [(js ''data'', data)]) p"

record export_result =
  er_statusCode :: int
  er_msg :: jstr
  er_record_count :: int
  er_file :: jstr

definition export_response :: "export_result \<Rightarrow> page \<Rightarrow> page" where
  "export_response r p =
     (if er_statusCode r \<noteq> 0 then emit (Alert_warn (er_msg r)) p
      else if er_record_count r = 0 then emit (Alert_info [0x8BB0, 0x5F55, 0x4E3A, 0x7A7A]) p
      else emit (Redirect (er_file r)) p)"

section \<open>Scrolling to a chart\<close>

text \<open>
  \<open>callback\<close> is \<open>None\<close> when the argument is no function; otherwise it is the effect of the call and
  whether it returned \<open>false\<close>. The numbers are the scroll position of the container and the
  offsets of the container and the chart.
\<close>

definition dmtJumpToAttrPic :: "jstr \<Rightarrow> jstr \<Rightarrow> (page \<Rightarrow> page \<times> bool) option \<Rightarrow> int \<Rightarrow> int \<Rightarrow> int \<Rightarrow> page \<Rightarrow> page" where
  "dmtJumpToAttrPic attr_show_id ctview callBack sctop viewoff attroff p =
     (if attr_show_id \<notin> set (pg_ids p) then
        (let arrStr = split_on 95 attr_show_id;
             name = (if 1 < length arrStr then arrStr ! 1 else js ''undefined'');
             none = Alert_info ([0x76D1, 0x63A7, 0x70B9, 0x003A] @ name @ [0x0020, 0x65E0, 0x6570, 0x636E, 0x4E0A, 0x62A5])
         in case callBack of
              None \<Rightarrow> emit none p
            | Some f \<Rightarrow>
                let (p, is_false) = f p
                in if is_false then emit none p
                   else emit (Alert_info ([0x76D1, 0x63A7, 0x70B9, 0x003A] @ name @ [0x0020, 0x4E0A, 0x62A5, 0x6570, 0x636E, 0x83B7, 0x53D6, 0x4E2D, 0x002E, 0x002E, 0x002E])) p)
      else emit (Scroll_to ctview (attroff - viewoff + sctop)) p)"

definition dmtTriggerLeftMenu :: "page \<Rightarrow> page" where
  "dmtTriggerLeftMenu p =
     (if pg_sbar p then emit (Click (js ''#sidebar .toggleCollapse div'')) p
      else emit (Click (js ''#sidebar_s .toggleCollapse div'')) p)"

section \<open>Dialog timers\<close>

text \<open>A timer variable of a dialog (\<open>g_dclc_TimerId\<close>, \<open>g_dci_TimerId\<close>); \<open>None\<close> is undefined or null.\<close>

definition close_timer :: "int option \<Rightarrow> page \<Rightarrow> int option \<times> page" where
  "close_timer t p = (case t of Some i \<Rightarrow> (None, emit (Clear_timer i) p) | None \<Rightarrow> (None, p))"

definition dmtLv2CheckCodeDlgClose :: "int option \<Rightarrow> page \<Rightarrow> (int option \<times> page) \<times> bool" where
  "dmtLv2CheckCodeDlgClose g_dclc_TimerId p = (close_timer g_dclc_TimerId p, True)"

definition dmt_duc_dlg_modify_name_close :: "int option \<Rightarrow> page \<Rightarrow> (int option \<times> page) \<times> bool" where
  "dmt_duc_dlg_modify_name_close g_dci_TimerId p = (close_timer g_dci_TimerId p, True)"

section \<open>The fastest web server\<close>

record web_svr =
  ws_ip :: jstr
  ws_start :: "int option"
  ws_end :: "int option"

record site_info =
  si_web_list :: "web_svr list"
  si_web_fast_ms :: int
  si_web_slow_ms :: int

text \<open>
  \<open>r_siteInfo\<close> is \<open>None\<close> when it is undefined. A server that has an end and no start would be an
  exception; \<open>ws_end\<close> is only set after \<open>ws_start\<close>, and the time is then their difference.
\<close>

fun fast_loop :: "nat \<Rightarrow> web_svr list \<Rightarrow> int \<times> int \<times> nat \<Rightarrow> js_error + int \<times> int \<times> nat" where
  "fast_loop i [] r = Inr r"
| "fast_loop i (s # ss) (fast, slow, idx) =
     (case ws_end s of
        None \<Rightarrow> fast_loop (i + 1) ss (fast, slow, idx)
      | Some e \<Rightarrow>
          (case ws_start s of
             None \<Rightarrow> Inl (PropertyError (js ''getTime''))
           | Some b \<Rightarrow>
               let d = e - b; slow' = (if d > slow then d else slow)
               in if d < fast then fast_loop (i + 1) ss (d, slow', i) else fast_loop (i + 1) ss (fast, slow', idx)))"

definition dmtGetFastWebIdx :: "site_info option \<Rightarrow> js_error + site_info option \<times> nat" where
  "dmtGetFastWebIdx r_siteInfo =
     (case r_siteInfo of
        None \<Rightarrow> Inr (None, 0)
      | Some si \<Rightarrow>
          (case fast_loop 0 (si_web_list si) (24 * 60 * 60 * 1000, 0, length (si_web_list si)) of
             Inl e \<Rightarrow> Inl e
           | Inr (fast, slow, fastIdx) \<Rightarrow> Inr (Some (si\<lparr>si_web_fast_ms := fast, si_web_slow_ms := slow\<rparr>), fastIdx)))"

text \<open>\<open>now i\<close> is the time at which the loop reaches server \<open>i\<close>; the requests are sent in order.\<close>

definition test_url :: "jstr \<Rightarrow> nat \<Rightarrow> jstr" where
  "test_url ip i =
     js ''http://'' @ ip @ js ''/cgi-bin/slog_flogin?action=check_web_speed'' @ js ''&check_idx='' @ nat_digits i"

fun test_loop :: "(nat \<Rightarrow> int) \<Rightarrow> nat \<Rightarrow> web_svr list \<Rightarrow> page \<Rightarrow> web_svr list \<times> page" where
  "test_loop now i [] p = ([], p)"
| "test_loop now i (s # ss) p =
     (let r = test_loop now (i + 1) ss (emit (Ajax (test_url (ws_ip s) i) []) p)
      in (s\<lparr>ws_start := Some (now i)\<rparr> # fst r, snd r))"

definition dmtTestWebSvr :: "(nat \<Rightarrow> int) \<Rightarrow> site_info option \<Rightarrow> page \<Rightarrow> site_info option \<times> page" where
  "dmtTestWebSvr now r_siteInfo p =
     (case r_siteInfo of
        None \<Rightarrow> (None, p)
      | Some si \<Rightarrow>
          let r = test_loop now 0 (si_web_list si) p in (Some (si\<lparr>si_web_list := fst r\<rparr>), snd r))"

definition test_response :: "int \<Rightarrow> int \<Rightarrow> site_info \<Rightarrow> site_info" where
  "test_response now check_idx si =
     (if 0 \<le> check_idx \<and> check_idx < int (length (si_web_list si))
      then si\<lparr>si_web_list := (si_web_list si)[nat check_idx := (si_web_list si ! nat check_idx)\<lparr>ws_end := Some now\<rparr>]\<rparr>
      else si)"

section \<open>Plugin dialogs\<close>

record machine =
  ma_id :: int
  ma_name :: jstr
  ma_ip :: jstr

text \<open>\<open>g_ddap_machlist\<close>: its count and list; \<open>None\<close> when it is undefined.\<close>

fun mach_search :: "int \<Rightarrow> nat \<Rightarrow> machine list \<Rightarrow> js_error + machine option" where
  "mach_search i 0 ms = Inr None"
| "mach_search i (Suc n) [] = Inl (PropertyError (js ''id''))"
| "mach_search i (Suc n) (m # ms) = (if ma_id m = i then Inr (Some m) else mach_search i n ms)"

definition dmapGetMachineInfo :: "(int \<times> machine list) option \<Rightarrow> int \<Rightarrow> js_error + jstr" where
  "dmapGetMachineInfo g_ddap_machlist mach_id =
     (case g_ddap_machlist of
        None \<Rightarrow> Inr (js '' error, not find machine list ! '')
      | Some (n, ms) \<Rightarrow>
          (case mach_search mach_id (nat n) ms of
             Inl e \<Rightarrow> Inl e
           | Inr (Some m) \<Rightarrow> Inr ([0x673A, 0x5668, 0xFF1A] @ ma_name m @ js '' (IP:'' @ ma_ip m @ js '')'')
           | Inr None \<Rightarrow> Inr ([0x673A, 0x5668, 0x0049, 0x0044, 0x003A] @ int_str mach_id @ [0x0028, 0x672A, 0x627E, 0x5230, 0x76F8, 0x5173, 0x4FE1, 0x606F, 0x0029])))"

definition opr_texts :: "(int \<times> jstr) list" where
  "opr_texts =
     [(1, [0x9519, 0x8BEF, 0xFF1A, 0x673A, 0x5668, 0x672A, 0x5B89, 0x88C5, 0x8BE5, 0x63D2, 0x4EF6]), (2, [0x6700, 0x8FD1, 0x0035, 0x5206, 0x949F, 0x5185, 0x6709, 0x672A, 0x5B8C, 0x6210, 0x7684, 0x64CD, 0x4F5C, 0x002C, 0x0020, 0x8BF7, 0x7A0D, 0x540E, 0x518D, 0x8BD5]), (3, [0x64CD, 0x4F5C, 0x4E2D, 0xFF0C, 0x8BF7, 0x7A0D, 0x7B49, 0x0020, 0x002E, 0x002E, 0x002E]),
      (4, [0x670D, 0x52A1, 0x5668, 0x53D1, 0x751F, 0x9519, 0x8BEF, 0xFF0C, 0x8BF7, 0x7A0D, 0x540E, 0x518D, 0x8BD5]), (5, [0x672A, 0x627E, 0x5230, 0x64CD, 0x4F5C, 0x4EFB, 0x52A1]), (6, [0x64CD, 0x4F5C, 0x8D85, 0x65F6, 0x0028, 0x0033, 0x0030, 0x0073, 0x0020, 0x6CA1, 0x6709, 0x5B8C, 0x6210, 0x0029]),
      (7, [0x0061, 0x0067, 0x0065, 0x006E, 0x0074, 0x0020, 0x672A, 0x542F, 0x52A8, 0xFF0C, 0x4EFB, 0x52A1, 0x65E0, 0x6CD5, 0x5904, 0x7406]), (8, [0x0061, 0x0067, 0x0065, 0x006E, 0x0074, 0x0020, 0x5728, 0x673A, 0x5668, 0x4E0A, 0x672A, 0x627E, 0x5230, 0x8BE5, 0x63D2, 0x4EF6]), (12, [0x5DF2, 0x53D1, 0x5E03, 0x4EFB, 0x52A1]),
      (13, [0x4EFB, 0x52A1, 0x5DF2, 0x4E0B, 0x53D1, 0x5230, 0x673A, 0x5668]), (14, [0x64CD, 0x4F5C, 0x5931, 0x8D25, 0xFF0C, 0x4EFB, 0x52A1, 0x672A, 0x5B8C, 0x6210]), (15, [0x64CD, 0x4F5C, 0x6210, 0x529F, 0xFF0C, 0x5DF2, 0x5B8C, 0x6210]), (16, [0x0061, 0x0067, 0x0065, 0x006E, 0x0074, 0x0020, 0x54CD, 0x5E94, 0x8D85, 0x65F6])]"

definition dmapGetOprText :: "int \<Rightarrow> jstr" where
  "dmapGetOprText st = (case map_of opr_texts st of Some t \<Rightarrow> t | None \<Rightarrow> [0x672A, 0x77E5, 0x72B6, 0x6001])"

text \<open>The two interval timers of the dialogs; 0 is none.\<close>

record plugin_timers =
  g_addplugin_timerid :: int
  g_dmop_timerid :: int

definition dmapAddPlugin_reload :: "plugin_timers \<times> page \<Rightarrow> (plugin_timers \<times> page) \<times> bool" where
  "dmapAddPlugin_reload s =
     (let (t, p) = s;
          p = emit Reload_tab p;
          (t, p) = (if g_addplugin_timerid t \<noteq> 0
                    then (t\<lparr>g_addplugin_timerid := 0\<rparr>, emit (Clear_timer (g_addplugin_timerid t)) p) else (t, p));
          (t, p) = (if g_dmop_timerid t \<noteq> 0
                    then (t\<lparr>g_dmop_timerid := 0\<rparr>, emit (Clear_timer (g_dmop_timerid t)) p) else (t, p))
      in ((t, p), True))"

definition plugin_dialog :: "int \<Rightarrow> int \<Rightarrow> jsval" where
  "plugin_dialog height width =
     Obj [(js ''mask'', Bool True), (js ''maxable'', Bool False), (js ''height'', NumI height), (js ''width'', NumI width),
          (js ''close'', Fun)]"

definition ddapMachOprPlugin :: "jstr \<Rightarrow> jstr \<Rightarrow> int \<Rightarrow> int \<Rightarrow> page \<Rightarrow> page" where
  "ddapMachOprPlugin cgip machs plugid optype p =
     (let url = cgip @ js ''mt_slog?action=ddap_multi_opr_plugin&machines='' @ machs
            @ js ''&plugin='' @ int_str plugid @ js ''&opr_type='' @ int_str optype;
          op = (if optype = 1 then plugin_dialog 520 700 else plugin_dialog 460 600);
          tl = (if optype = 1 then [0x6279, 0x91CF, 0x4FEE, 0x6539, 0x63D2, 0x4EF6, 0x914D, 0x7F6E] else if optype = 2 then [0x6279, 0x91CF, 0x79FB, 0x9664, 0x63D2, 0x4EF6]
                else if optype = 3 then [0x6279, 0x91CF, 0x542F, 0x7528, 0x63D2, 0x4EF6] else if optype = 4 then [0x6279, 0x91CF, 0x7981, 0x7528, 0x63D2, 0x4EF6] else [])
      in emit (Dialog url (js ''dlg_ddap_mach_opr_plugin'') tl op) p)"

definition dmapMachOprPlugin :: "jstr \<Rightarrow> int \<Rightarrow> jstr \<Rightarrow> int \<Rightarrow> page \<Rightarrow> page" where
  "dmapMachOprPlugin cgip mach plugs optype p =
     (let url = cgip @ js ''mt_slog?action=dmap_multi_opr_plugin&machine='' @ int_str mach
            @ js ''&plugins='' @ plugs @ js ''&opr_type='' @ int_str optype;
          tl = (if optype = 2 then [0x6279, 0x91CF, 0x79FB, 0x9664, 0x63D2, 0x4EF6]
                else if optype = 3 then [0x6279, 0x91CF, 0x542F, 0x7528, 0x63D2, 0x4EF6] else if optype = 4 then [0x6279, 0x91CF, 0x7981, 0x7528, 0x63D2, 0x4EF6] else [])
      in emit (Dialog url (js ''dlg_dmap_mach_opr_plugin'') tl (plugin_dialog 460 600)) p)"

definition dmapModMachPlugin :: "jstr \<Rightarrow> int \<Rightarrow> int \<Rightarrow> page \<Rightarrow> page" where
  "dmapModMachPlugin cgip machine_id plugid p =
     (let url = cgip @ js ''mt_slog?action=ddap_multi_opr_plugin&machines='' @ int_str machine_id
            @ js ''&plugin='' @ int_str plugid @ js ''&opr_type=1''
      in emit (Dialog url (js ''dlg_ddap_mach_opr_plugin'') [0x4FEE, 0x6539, 0x63D2, 0x4EF6, 0x914D, 0x7F6E] (plugin_dialog 520 700)) p)"

definition dmapAddPlugin :: "jstr \<Rightarrow> jstr \<Rightarrow> int \<Rightarrow> int \<Rightarrow> page \<Rightarrow> page" where
  "dmapAddPlugin domain cgip machid plugid p =
     (let url = cgip @ js ''mt_slog?action=ddap_install_plugin&mach='' @ int_str machid
            @ js ''&plugin='' @ int_str plugid @ js ''&self_domain='' @ domain
      in emit (Dialog url (js ''dlg_ddap_install_plugin'') [0x4E00, 0x952E, 0x90E8, 0x7F72, 0x63D2, 0x4EF6, 0x8FDB, 0x5EA6] (plugin_dialog 440 600)) p)"

text \<open>The progress steps, appended to a list, and the failures, shown in place of a message.\<close>

definition step_texts :: "(int \<times> jstr) list" where
  "step_texts =
     [(2, [0x5DF2, 0x5206, 0x6D3E, 0x4EFB, 0x52A1]), (3, [0x63A5, 0x5165, 0x670D, 0x52A1, 0x5DF2, 0x63A5, 0x6536, 0x4EFB, 0x52A1]), (4, [0x63A5, 0x5165, 0x670D, 0x52A1, 0x5DF2, 0x4E0B, 0x53D1, 0x4EFB, 0x52A1, 0x5230, 0x673A, 0x5668]),
      (5, [0x0061, 0x0067, 0x0065, 0x006E, 0x0074, 0x0020, 0x5DF2, 0x5411, 0x4E91, 0x670D, 0x52A1, 0x67E5, 0x8BE2, 0x5230, 0x5B89, 0x88C5, 0x5305, 0x4E0B, 0x8F7D, 0x5730, 0x5740]), (6, [0x0061, 0x0067, 0x0065, 0x006E, 0x0074, 0x0020, 0x5DF2, 0x4E0B, 0x8F7D, 0x63D2, 0x4EF6, 0x90E8, 0x7F72, 0x5305]), (7, [0x0061, 0x0067, 0x0065, 0x006E, 0x0074, 0x0020, 0x5DF2, 0x90E8, 0x7F72, 0x63D2, 0x4EF6, 0x5E76, 0x542F, 0x52A8]),
      (8, [0x63A5, 0x5165, 0x670D, 0x52A1, 0x5DF2, 0x6536, 0x5230, 0x63D2, 0x4EF6, 0x6D88, 0x606F, 0xFF0C, 0x63D2, 0x4EF6, 0x90E8, 0x7F72, 0x6210, 0x529F]), (9, [0x0061, 0x0067, 0x0065, 0x006E, 0x0074, 0x0020, 0x5DF2, 0x90E8, 0x7F72, 0x63D2, 0x4EF6, 0xFF0C, 0x90E8, 0x7F72, 0x5B8C, 0x6210])]"

definition fail_texts :: "(int \<times> jstr) list" where
  "fail_texts =
     [(20, [0x90E8, 0x7F72, 0x5931, 0x8D25, 0xFF1A, 0x0061, 0x0067, 0x0065, 0x006E, 0x0074, 0x0020, 0x83B7, 0x53D6, 0x63D2, 0x4EF6, 0x90E8, 0x7F72, 0x5305, 0x5730, 0x5740, 0x5931, 0x8D25, 0x002C, 0x0020, 0x8BF7, 0x68C0, 0x67E5, 0x673A, 0x5668, 0x662F, 0x5426, 0x5B89, 0x88C5, 0x0020, 0x0077, 0x0067, 0x0065, 0x0074, 0x0020, 0x5DE5, 0x5177]),
      (21, [0x90E8, 0x7F72, 0x5931, 0x8D25, 0xFF1A, 0x0061, 0x0067, 0x0065, 0x006E, 0x0074, 0x0020, 0x83B7, 0x53D6, 0x63D2, 0x4EF6, 0x90E8, 0x7F72, 0x5305, 0x5730, 0x5740, 0x002C, 0x0020, 0x8FD4, 0x56DE, 0x9519, 0x8BEF, 0x7801]),
      (22, [0x90E8, 0x7F72, 0x5931, 0x8D25, 0xFF1A, 0x0061, 0x0067, 0x0065, 0x006E, 0x0074, 0x0020, 0x83B7, 0x53D6, 0x63D2, 0x4EF6, 0x90E8, 0x7F72, 0x5305, 0x5730, 0x5740, 0x002C, 0x0020, 0x8FD4, 0x56DE, 0x5185, 0x5BB9, 0x89E3, 0x6790, 0x9519, 0x8BEF]),
      (23, [0x90E8, 0x7F72, 0x5931, 0x8D25, 0xFF1A, 0x0061, 0x0067, 0x0065, 0x006E, 0x0074, 0x0020, 0x4E0B, 0x8F7D, 0x63D2, 0x4EF6, 0x90E8, 0x7F72, 0x5305, 0x5931, 0x8D25]),
      (24, [0x90E8, 0x7F72, 0x5931, 0x8D25, 0xFF1A, 0x0061, 0x0067, 0x0065, 0x006E, 0x0074, 0x0020, 0x89E3, 0x538B, 0x7F29, 0x90E8, 0x7F72, 0x5305, 0x5931, 0x8D25, 0x002C, 0x0020, 0x8BF7, 0x68C0, 0x67E5, 0x673A, 0x5668, 0x662F, 0x5426, 0x5B89, 0x88C5, 0x0020, 0x0074, 0x0061, 0x0072, 0x0020, 0x5DE5, 0x5177]),
      (25, [0x90E8, 0x7F72, 0x5931, 0x8D25, 0xFF1A, 0x0061, 0x0067, 0x0065, 0x006E, 0x0074, 0x0020, 0x521B, 0x5EFA, 0x90E8, 0x7F72, 0x76EE, 0x5F55, 0x5931, 0x8D25, 0x002C, 0x0020, 0x8BF7, 0x0020, 0x0061, 0x0067, 0x0065, 0x006E, 0x0074, 0x0020, 0x662F, 0x5426, 0x6709, 0x76EE, 0x5F55, 0x521B, 0x5EFA, 0x6743, 0x9650]),
      (26, [0x90E8, 0x7F72, 0x5931, 0x8D25, 0xFF1A, 0x0061, 0x0067, 0x0065, 0x006E, 0x0074, 0x0020, 0x542F, 0x52A8, 0x63D2, 0x4EF6, 0x5931, 0x8D25, 0x002C, 0x0020, 0x53EF, 0x80FD, 0x662F, 0x63D2, 0x4EF6, 0x4E0E, 0x7CFB, 0x7EDF, 0x4E0D, 0x517C, 0x5BB9, 0x5BFC, 0x81F4]),
      (27, [0x90E8, 0x7F72, 0x5931, 0x8D25, 0xFF1A, 0x0061, 0x0067, 0x0065, 0x006E, 0x0074, 0x0020, 0x4E0B, 0x8F7D, 0x5F00, 0x6E90, 0x7248, 0x914D, 0x7F6E, 0x6587, 0x4EF6, 0x5931, 0x8D25]), (28, [0x90E8, 0x7F72, 0x5931, 0x8D25, 0xFF1A, 0x4E13, 0x6709, 0x914D, 0x7F6E, 0x6587, 0x4EF6, 0x4E0B, 0x8F7D, 0x5931, 0x8D25]),
      (29, [0x90E8, 0x7F72, 0x5931, 0x8D25, 0xFF1A, 0x0061, 0x0067, 0x0065, 0x006E, 0x0074, 0x0020, 0x54CD, 0x5E94, 0x8D85, 0x65F6])]"

definition dmtAddPluginStatusShow :: "int \<Rightarrow> jstr \<Rightarrow> jstr \<Rightarrow> page \<Rightarrow> page" where
  "dmtAddPluginStatusShow step rid wid p =
     (let red = js ''<font color='' @ [0x22] @ js ''red'' @ [0x22] @ js ''>''
      in case map_of step_texts step of
           Some t \<Rightarrow> emit (Append (js ''#'' @ rid) (js ''<li>'' @ t @ js ''</li>'')) p
         | None \<Rightarrow>
             (case map_of fail_texts step of
                Some t \<Rightarrow> emit (Html (js ''#'' @ wid) (red @ t)) p
              | None \<Rightarrow> emit (Html (js ''#'' @ wid) (red @ [0x90E8, 0x7F72, 0x5931, 0x8D25, 0xFF0C, 0x8FDB, 0x5EA6, 0x9519, 0x8BEF, 0xFF1A] @ int_str step)) p))"

section \<open>The fastest server\<close>

text \<open>The measured times, with their positions.\<close>

definition measured :: "web_svr list \<Rightarrow> (nat \<times> int) set" where
  "measured ss = {(i, d). i < length ss \<and> (\<exists>b e. ws_start (ss ! i) = Some b \<and> ws_end (ss ! i) = Some e \<and> d = e - b)}"

definition all_started :: "web_svr list \<Rightarrow> bool" where
  "all_started ss = list_all (\<lambda>s. ws_end s \<noteq> None \<longrightarrow> ws_start s \<noteq> None) ss"

text \<open>What the loop has found after the servers before position \<open>i\<close>.\<close>

definition fastest_so_far :: "web_svr list \<Rightarrow> nat \<Rightarrow> int \<times> int \<times> nat \<Rightarrow> bool" where
  "fastest_so_far ss i = (\<lambda>(fast, slow, idx).
     (if idx < length ss
      then idx < i \<and> (idx, fast) \<in> measured ss \<and> fast < 86400000 \<and> (\<forall>(j, d) \<in> measured ss. j < i \<longrightarrow> fast \<le> d \<and> (d = fast \<longrightarrow> idx \<le> j))
      else fast = 86400000 \<and> idx = length ss \<and> (\<forall>(j, d) \<in> measured ss. j < i \<longrightarrow> 86400000 \<le> d))
     \<and> 0 \<le> slow \<and> (\<forall>(j, d) \<in> measured ss. j < i \<longrightarrow> d \<le> slow) \<and> (slow = 0 \<or> (\<exists>j < i. (j, slow) \<in> measured ss)))"

lemma less_Suc_cases: "(\<forall>(j, d) \<in> A. j < i + 1 \<longrightarrow> P j d) \<longleftrightarrow> (\<forall>(j, d) \<in> A. j < i \<longrightarrow> P j d) \<and> (\<forall>d. (i, d) \<in> A \<longrightarrow> P i d)"
  for i :: nat
  by (auto simp: less_Suc_eq)

lemma measured_fun: "(i, d) \<in> measured ss \<Longrightarrow> (i, d') \<in> measured ss \<Longrightarrow> d = d'"
  by (auto simp: measured_def)

lemma measured_less: "(i, d) \<in> measured ss \<Longrightarrow> i < length ss"
  by (simp add: measured_def)

lemma fastest_step:
  assumes "fastest_so_far ss i (fast, slow, idx)" "(i, d) \<in> measured ss"
  shows "fastest_so_far ss (i + 1) (if d < fast then (d, if d > slow then d else slow, i) else (fast, if d > slow then d else slow, idx))"
proof -
  have only: "(\<forall>d'. (i, d') \<in> measured ss \<longrightarrow> P d') \<longleftrightarrow> P d" for P using assms(2) measured_fun by blast
  have i: "i < length ss" using assms(2) by (rule measured_less)
  have slow: "0 \<le> slow" "\<forall>(j, d) \<in> measured ss. j < i \<longrightarrow> d \<le> slow" "slow = 0 \<or> (\<exists>j < i. (j, slow) \<in> measured ss)"
    using assms(1) by (simp_all add: fastest_so_far_def)
  let ?slow = "if d > slow then d else slow"
  have slow': "0 \<le> ?slow" "\<forall>(j, d) \<in> measured ss. j < i + 1 \<longrightarrow> d \<le> ?slow"
      "?slow = 0 \<or> (\<exists>j < i + 1. (j, ?slow) \<in> measured ss)"
    unfolding less_Suc_cases only using slow assms(2) by (auto simp: less_Suc_eq)
  show ?thesis
  proof (cases "d < fast")
    case True
    have "\<forall>(j, d') \<in> measured ss. j < i \<longrightarrow> d < d'" "d < 86400000"
      using assms(1) True by (fastforce simp: fastest_so_far_def split: if_splits)+
    then have "\<forall>(j, d') \<in> measured ss. j < i + 1 \<longrightarrow> d \<le> d' \<and> (d' = d \<longrightarrow> i \<le> j)"
      unfolding less_Suc_cases only by auto
    with True i assms(2) slow' \<open>d < 86400000\<close> show ?thesis by (simp add: fastest_so_far_def)
  next
    case False
    with assms(1) slow' i show ?thesis
      unfolding fastest_so_far_def prod.case less_Suc_cases only by (auto split: if_splits)
  qed
qed

lemma fastest_skip:
  assumes "fastest_so_far ss i r" "\<And>d. (i, d) \<notin> measured ss"
  shows "fastest_so_far ss (i + 1) r"
proof -
  obtain fast slow idx where r: "r = (fast, slow, idx)" by (cases r)
  show ?thesis
    using assms unfolding r fastest_so_far_def prod.case less_Suc_cases by (auto simp: less_Suc_eq split: if_splits)
qed

lemma fast_loop_correct:
  "n = length ss - i \<Longrightarrow> i \<le> length ss \<Longrightarrow> all_started ss \<Longrightarrow> fastest_so_far ss i r \<Longrightarrow>
     \<exists>r'. fast_loop i (drop i ss) r = Inr r' \<and> fastest_so_far ss (length ss) r'"
proof (induction n arbitrary: i r)
  case 0
  then show ?case by simp
next
  case (Suc n)
  obtain fast slow idx where r: "r = (fast, slow, idx)" by (cases r)
  have i: "i < length ss" using Suc.prems by simp
  then have d: "drop i ss = ss ! i # drop (i + 1) ss" by (simp add: Cons_nth_drop_Suc)
  have st: "ws_end (ss ! i) \<noteq> None \<Longrightarrow> ws_start (ss ! i) \<noteq> None"
    using Suc.prems(3) i by (simp add: all_started_def list_all_length)
  show ?case
  proof (cases "ws_end (ss ! i)")
    case None
    then have "fastest_so_far ss (i + 1) r" using Suc.prems(4) by (intro fastest_skip) (auto simp: measured_def)
    with None show ?thesis unfolding d r using Suc.IH [of "i + 1"] Suc.prems i r by simp
  next
    case (Some e)
    then obtain b where b: "ws_start (ss ! i) = Some b" using st by auto
    have "(i, e - b) \<in> measured ss" using Some b i by (simp add: measured_def)
    from fastest_step [OF Suc.prems(4) [unfolded r] this] Some b show ?thesis
      unfolding d r using Suc.IH [of "i + 1"] Suc.prems i by (simp add: Let_def split: if_splits)
  qed
qed

text \<open>
  \<open>dmtGetFastWebIdx\<close> returns the first of the servers with the smallest measured time, provided
  one answered within a day; otherwise it returns the number of servers. The slowest measured
  time is recorded as well.
\<close>

theorem fast_web_index:
  assumes "all_started (si_web_list si)"
  shows "\<exists>si' idx. dmtGetFastWebIdx (Some si) = Inr (Some si', idx) \<and> si_web_list si' = si_web_list si
    \<and> fastest_so_far (si_web_list si) (length (si_web_list si)) (si_web_fast_ms si', si_web_slow_ms si', idx)"
proof -
  have "fastest_so_far (si_web_list si) 0 (86400000, 0, length (si_web_list si))" by (simp add: fastest_so_far_def)
  from fast_loop_correct [OF refl _ assms this] show ?thesis by (auto simp: dmtGetFastWebIdx_def)
qed

definition sample_servers :: "web_svr list" where
  "sample_servers = [\<lparr>ws_ip = [], ws_start = Some 10, ws_end = Some 50\<rparr>, \<lparr>ws_ip = [], ws_start = Some 10, ws_end = None\<rparr>,
     \<lparr>ws_ip = [], ws_start = Some 12, ws_end = Some 30\<rparr>]"

theorem fast_web_index_witness:
  "\<exists>si' idx. dmtGetFastWebIdx (Some \<lparr>si_web_list = sample_servers, si_web_fast_ms = 0, si_web_slow_ms = 0\<rparr>) = Inr (Some si', idx)
    \<and> fastest_so_far sample_servers 3 (si_web_fast_ms si', si_web_slow_ms si', idx)"
  using fast_web_index [of "\<lparr>si_web_list = sample_servers, si_web_fast_ms = 0, si_web_slow_ms = 0\<rparr>"]
  by (auto simp: all_started_def sample_servers_def numeral_3_eq_3)

section \<open>Plugin dialogs\<close>

text \<open>
  A status of an installation is appended to the progress list exactly for the steps 2 to 9,
  and every other number replaces the message by a failure; in both cases the page does
  exactly one thing.
\<close>

theorem plugin_status_shown:
  "\<exists>e. dmtAddPluginStatusShow step rid wid p = emit e p
    \<and> (if 2 \<le> step \<and> step \<le> 9 then (\<exists>t. e = Append (js ''#'' @ rid) t) else (\<exists>t. e = Html (js ''#'' @ wid) t))"
proof -
  have "map_of step_texts step \<noteq> None \<longleftrightarrow> 2 \<le> step \<and> step \<le> 9" by (auto simp: step_texts_def)
  then show ?thesis by (auto simp: dmtAddPluginStatusShow_def Let_def split: option.splits)
qed

text \<open>
  Closing a plugin dialog reloads the tab and clears each running interval timer once; no
  timer is left and closing again clears nothing more.
\<close>

theorem plugin_reload_clears:
  "dmapAddPlugin_reload (t, p) = ((\<lparr>g_addplugin_timerid = 0, g_dmop_timerid = 0, \<dots> = plugin_timers.more t\<rparr>,
     p\<lparr>pg_effects := pg_effects p @ Reload_tab # map Clear_timer (filter (\<lambda>i. i \<noteq> 0) [g_addplugin_timerid t, g_dmop_timerid t])\<rparr>), True)"
  by (simp add: dmapAddPlugin_reload_def emit_def Let_def)

end
