(* ===== verification/Comm_Machine.thy ===== *)
theory Comm_Machine
  imports Comm_Misc
begin

text \<open>
  The page as a state machine: every function of the previous theories that changes the charts is
  a step, and so are a change of the window, a click and a response that arrives. The invariant
  of the reachable states is what the response to a warning request relies on.
\<close>

section \<open>Steps\<close>

text \<open>
  \<open>removed\<close> is a tab that is closed: its containers leave the document, the entries of
  \<open>g_all_charts\<close> stay. A call that ends with an exception is not a step.
\<close>

inductive page_step :: "page \<Rightarrow> page \<Rightarrow> bool" where
  resize: "page_step p (p\<lparr>pg_win_w := w, pg_win_h := h\<rparr>)"
| sidebar: "page_step p (p\<lparr>pg_sbar := b, pg_left_w := l\<rparr>)"
| tab: "page_step p (p\<lparr>pg_tab := t\<rparr>)"
| redraw: "page_step p (dmtRedrawCharts args p)"
| timer: "page_step p (run_timer p)"
| switch_tab: "page_step p (redrawChartsOnSwitchTab p)"
| main_tab: "page_step p (redrawChartsMain p)"
| all_tabs: "page_step p (redrawCharts p)"
| show_all: "dmtShowAttrInfo offset as vals ct_div showtype p = Inr p' \<Longrightarrow> page_step p p'"
| click: "page_step p (run_click c p)"
| response: "wi_oid w < pg_next_oid p \<Longrightarrow> mask_response getSubtext msg_of idx w (r :: warn_result) p = Inr p' \<Longrightarrow> page_step p p'"
| confirm_export: "page_step p (dmtExport p)"
| jump: "page_step p (dmtJumpToAttrPic sid ctview None sctop viewoff attroff p)"
| menu: "page_step p (dmtTriggerLeftMenu p)"
| removed: "page_step p (p\<lparr>pg_ids := filter (\<lambda>k. k \<notin> S) (pg_ids p)\<rparr>)"

inductive page_reachable :: "page \<Rightarrow> bool" where
  start: "page_reachable (start_page has_trunc w h)"
| step: "page_reachable p \<Longrightarrow> page_step p p' \<Longrightarrow> page_reachable p'"

section \<open>The invariant\<close>

definition chart_oids :: "(jstr \<times> chart) list \<Rightarrow> nat list" where
  "chart_oids cs = List.map_filter (\<lambda>(k, c). map_option wi_oid (ch_warnInfo c)) cs"

definition chart_ok :: "chart \<Rightarrow> bool" where
  "chart_ok c = (case ch_warnInfo c of Some w \<Rightarrow> wi_mask w \<in> {0, 1} | None \<Rightarrow> True)"

definition charts_ok :: "(jstr \<times> chart) list \<Rightarrow> nat \<Rightarrow> bool" where
  "charts_ok cs n = (distinct (map fst cs) \<and> distinct (chart_oids cs) \<and> (\<forall>i \<in> set (chart_oids cs). i < n)
     \<and> (\<forall>(k, c) \<in> set cs. chart_ok c))"

abbreviation page_ok :: "page \<Rightarrow> bool" where
  "page_ok p \<equiv> charts_ok (g_all_charts p) (pg_next_oid p)"

lemma chart_oids_simps [simp]:
  "chart_oids [] = []"
  "chart_oids ((k, c) # cs) = (case ch_warnInfo c of Some w \<Rightarrow> [wi_oid w] | None \<Rightarrow> []) @ chart_oids cs"
  by (auto simp: chart_oids_def List.map_filter_simps split: option.splits)

lemma oids_put_entry:
  "set (chart_oids (put_entry k c cs)) \<subseteq> set (chart_oids cs) \<union> set (chart_oids [(k, c)])"
  by (induction k c cs rule: put_entry.induct) auto

lemma distinct_oids_put_entry:
  "distinct (chart_oids cs) \<Longrightarrow> set (chart_oids [(k, c)]) \<inter> set (chart_oids cs) = {}
     \<Longrightarrow> distinct (chart_oids (put_entry k c cs))"
proof (induction k c cs rule: put_entry.induct)
  case (2 k c k' c' cs)
  then show ?case
    using oids_put_entry [of k c cs] by (fastforce split: option.splits if_splits)
qed (auto split: option.splits)

text \<open>A change of the charts that keeps keys, identities and soundness.\<close>

lemma charts_ok_map:
  assumes "charts_ok cs n" "\<And>k c. chart_ok c \<Longrightarrow> chart_ok (f k c)"
    and "\<And>k c. map_option wi_oid (ch_warnInfo (f k c)) = map_option wi_oid (ch_warnInfo c)"
  shows "charts_ok (map (\<lambda>(k, c). (k, f k c)) cs) n"
proof -
  have oid: "chart_oids [(k, f k c)] = chart_oids [(k, c)]" for k c
    using assms(3) [of k c] by (cases "ch_warnInfo c"; cases "ch_warnInfo (f k c)") simp_all
  have "chart_oids (map (\<lambda>(k, c). (k, f k c)) cs) = chart_oids cs"
  proof (induction cs)
    case (Cons x cs)
    then show ?case using oid by (cases x) simp
  qed simp
  moreover have "map fst (map (\<lambda>(k, c). (k, f k c)) cs) = map fst cs" by (simp add: case_prod_unfold)
  ultimately show ?thesis
    using assms(1,2) unfolding charts_ok_def by (auto simp del: map_map)
qed

lemma charts_ok_put:
  assumes "charts_ok cs n" "chart_ok c" "set (chart_oids [(k, c)]) \<subseteq> {n}" "n \<le> m" "ch_warnInfo c \<noteq> None \<Longrightarrow> n < m"
  shows "charts_ok (put_entry k c cs) m"
proof -
  have "set (chart_oids [(k, c)]) \<inter> set (chart_oids cs) = {}" using assms(1,3) by (auto simp: charts_ok_def)
  moreover have "\<forall>i \<in> set (chart_oids (put_entry k c cs)). i < m"
  proof
    fix i assume "i \<in> set (chart_oids (put_entry k c cs))"
    then have "i \<in> set (chart_oids cs) \<or> i \<in> set (chart_oids [(k, c)])" using oids_put_entry by blast
    moreover have "i < m" if "i \<in> set (chart_oids [(k, c)])"
    proof -
      have "ch_warnInfo c \<noteq> None" using that by (cases "ch_warnInfo c") auto
      moreover have "i = n" using that assms(3) by blast
      ultimately show ?thesis using assms(5) by simp
    qed
    moreover have "i < m" if "i \<in> set (chart_oids cs)" using that assms(1,4) unfolding charts_ok_def by force
    ultimately show "i < m" by blast
  qed
  ultimately show ?thesis
    using assms(1,2) unfolding charts_ok_def
    by (intro conjI distinct_put_entry distinct_oids_put_entry) (auto dest: set_put_entry)
qed

lemma charts_ok_mono: "charts_ok cs n \<Longrightarrow> n \<le> m \<Longrightarrow> charts_ok cs m"
  by (auto simp: charts_ok_def)

section \<open>What leaves the charts alone\<close>

definition same_charts :: "page \<Rightarrow> page \<Rightarrow> bool" where
  "same_charts p p' = (g_all_charts p' = g_all_charts p \<and> pg_next_oid p' = pg_next_oid p
     \<and> pg_ids p' = pg_ids p \<and> pg_width p' = pg_width p)"

lemma same_charts_ok: "same_charts p p' \<Longrightarrow> page_ok p' = page_ok p"
  by (simp add: same_charts_def)

lemma same_charts_refl [simp]: "same_charts p p"
  by (simp add: same_charts_def)

lemma same_charts_trans: "same_charts p q \<Longrightarrow> same_charts q r \<Longrightarrow> same_charts p r"
  by (simp add: same_charts_def)

lemma same_charts_emit [simp]: "same_charts p (emit e q) = same_charts p q"
  by (simp add: same_charts_def emit_def)

lemma same_charts_sizes [simp]:
  "same_charts p (dmtSetChartSize p)" "same_charts p (dmtSetRedrawChartsInfo i t l p)"
  "same_charts p (fst (dmtSetPluginShowWH p))" "same_charts p (fst (dmtSetPluginMarginInfo tb p))"
  "same_charts p (redraw_later n k p)"
  by (auto simp: same_charts_def dmtSetChartSize_def dmtSetRedrawChartsInfo_def dmtSetPluginShowWH_def
      dmtSetPluginMarginInfo_def redraw_later_def dmtJsBugReport_def Let_def split: option.splits)

lemma same_charts_show_wh: "dmtSetPluginShowWH p = (q, b) \<Longrightarrow> same_charts p q"
  using same_charts_sizes(3) [of p] by simp

lemma same_charts_redraw: "same_charts p (dmtRedrawCharts args p)"
proof -
  define q where "q = (case args of Some (i, t, l) \<Rightarrow> dmtSetRedrawChartsInfo i t l p | None \<Rightarrow> p)"
  have q: "same_charts p q" by (auto simp: q_def split: option.splits)
  have "same_charts q (dmtRedrawCharts args p)"
    unfolding dmtRedrawCharts_def q_def [symmetric] Let_def
    using same_charts_trans [OF same_charts_sizes(1) same_charts_sizes(5)]
    by (auto dest: same_charts_show_wh split: option.splits prod.splits if_splits)
  with q show ?thesis by (rule same_charts_trans)
qed

lemma same_charts_tabs:
  "same_charts p (redrawChartsOnSwitchTab p)" "same_charts p (redrawChartsMain p)" "same_charts p (redrawCharts p)"
proof -
  show "same_charts p (redrawChartsOnSwitchTab p)"
    using same_charts_trans [OF same_charts_sizes(2) same_charts_redraw]
    by (simp add: redrawChartsOnSwitchTab_def Let_def split: option.splits)
  show "same_charts p (redrawChartsMain p)" by (simp add: redrawChartsMain_def)
  show "same_charts p (redrawCharts p)"
    using same_charts_redraw same_charts_trans [OF same_charts_redraw same_charts_sizes(4)]
    by (simp add: redrawCharts_def Let_def split: option.splits)
qed

lemma same_charts_click: "same_charts p (run_click c p)"
  by (simp add: run_click_def dmtShowSingle_def dmtMaskWarnConfig_def dmtSetWarnConfig_def Let_def
      split: click.splits option.splits)

lemma same_charts_others:
  "same_charts p (dmtExport p)" "same_charts p (dmtJumpToAttrPic sid ctview None a b c p)" "same_charts p (dmtTriggerLeftMenu p)"
  by (simp_all add: dmtExport_def dmtJumpToAttrPic_def dmtTriggerLeftMenu_def Let_def)

lemma same_charts_deal:
  "dmtFirstDealAjaxResponse r p = Inr (p', b) \<Longrightarrow> same_charts p p'"
  by (auto simp: dmtFirstDealAjaxResponse_def dmtPopDaemonTipMsg_def same_charts_def emit_def Let_def
      split: option.splits if_splits)

section \<open>What changes them\<close>

lemma page_ok_timer: "page_ok p \<Longrightarrow> page_ok (run_timer p)"
  by (auto simp: run_timer_def redraw_timer_def redraw_chart_def chart_ok_def split: list.splits option.splits
      intro!: charts_ok_map)

lemma page_ok_put:
  assumes "page_ok p" "case w of Some i \<Rightarrow> wi_mask i \<in> {0, 1} \<and> wi_oid i = pg_next_oid p | None \<Rightarrow> True"
  shows "page_ok (put_chart ct op w (p\<lparr>pg_next_oid := pg_next_oid p + (if w = None then 0 else 1)\<rparr>))"
  using assms unfolding put_chart_def
  by (auto intro!: charts_ok_put [of _ "pg_next_oid p"] simp: chart_ok_def split: option.splits)

lemma page_ok_put_plain: "page_ok p \<Longrightarrow> page_ok (put_chart ct op None p)"
  using page_ok_put [of p None ct op] by simp

lemma page_ok_pies:
  "page_ok p \<Longrightarrow> dmtSetStrAttrInfoChartIpGeo ct info v vals ty p = Inr p' \<Longrightarrow> page_ok p'"
  "page_ok p \<Longrightarrow> page_ok (dmtSetStrAttrInfoChart ct info v vals ty p)"
  using same_charts_ok [of p "emit (Css (js ''#'' @ ct) (js ''height'') (NumI g_dmtChartHeight)) p"]
  by (auto simp: dmtSetStrAttrInfoChartIpGeo_def dmtSetStrAttrInfoChart_def Let_def
      intro!: page_ok_put_plain split: if_splits option.splits)

lemma toolbox_warn:
  assumes "dmtSetCustToolBox p op ty vals v info w0 = (tb, w)"
  shows "wi_mask w \<in> {0, 1} \<and> wi_oid w = wi_oid w0"
  using toolbox_shown(4,5) [of p op ty vals v info w0] assms by (simp add: next_mask_def)

lemma page_ok_curves: "page_ok p \<Longrightarrow> page_ok (fst (show_curves ti vals ty info v (p, op)))"
  by (auto simp: show_curves_def empty_warn_def Let_def split: prod.splits dest!: toolbox_warn
      intro!: page_ok_put [where w = "Some _", simplified])

lemma add_container_page [simp]:
  "g_all_charts (add_container ct ty sid j p) = g_all_charts p"
  "pg_next_oid (add_container ct ty sid j p) = pg_next_oid p"
  "g_dmtChartWidth (add_container ct ty sid j p) = g_dmtChartWidth p"
  "pg_ids (add_container ct ty sid j p) = pg_ids p @ [sid]"
  "pg_width (add_container ct ty sid j p) =
     (if sid \<in> set (pg_ids p) then pg_width p else (pg_width p)(sid := inline_width (g_dmtChartWidth p)))"
  by (simp_all add: add_container_def dmtJsBugReport_def emit_def Let_def)

lemma emit_page [simp]:
  "g_all_charts (emit e p) = g_all_charts p" "pg_next_oid (emit e p) = pg_next_oid p"
  "g_dmtChartWidth (emit e p) = g_dmtChartWidth p" "pg_ids (emit e p) = pg_ids p" "pg_width (emit e p) = pg_width p"
  by (simp_all add: emit_def)

lemma page_ok_show_attr:
  assumes "page_ok (fst s)" "show_attr ds n as vals ct ty i v s = Inr s'"
  shows "page_ok (fst s')"
proof -
  obtain p op where s: "s = (p, op)" by (cases s)
  let ?sid = "show_id ty vals v"
  define q where "q = add_container ct ty ?sid (jump_id ty vals) p"
  define q' where "q' = (if ?sid \<in> fst ` set (g_all_charts q) then emit (Dispose ?sid) q else q)"
  have q': "page_ok q'" using assms(1) s by (simp add: q'_def q_def)
  from assms(2) show ?thesis
    unfolding show_attr_def s Let_def prod.case q_def [symmetric] q'_def [symmetric]
    using page_ok_pies [OF q'] page_ok_curves [OF q']
    by (auto split: sum.splits if_splits)
qed

lemma page_ok_show_attrs:
  "page_ok (fst s) \<Longrightarrow> show_attrs ds n as vals ct ty i vs s = Inr p' \<Longrightarrow> page_ok p'"
  by (induction ds n as vals ct ty i vs s rule: show_attrs.induct)
    (auto dest: page_ok_show_attr split: sum.splits)

lemma page_ok_update: "page_ok p \<Longrightarrow> m \<in> {0, 1} \<Longrightarrow> page_ok (update_warn i (\<lambda>w. w\<lparr>wi_cfg_id := j, wi_mask := m\<rparr>) p)"
proof -
  assume p: "page_ok p" and m: "m \<in> {0, 1}"
  let ?f = "\<lambda>w. if wi_oid w = i then w\<lparr>wi_cfg_id := j, wi_mask := m\<rparr> else w"
  let ?c = "\<lambda>k c. c\<lparr>ch_warnInfo := map_option ?f (ch_warnInfo c)\<rparr>"
  have "map_option wi_oid (ch_warnInfo (?c k c)) = map_option wi_oid (ch_warnInfo c)" "chart_ok c \<Longrightarrow> chart_ok (?c k c)" for k c
    using m by (cases "ch_warnInfo c"; auto simp: chart_ok_def)+
  then show ?thesis unfolding update_warn_def using charts_ok_map [OF p, of ?c] by simp
qed

lemma page_ok_set_option: "page_ok p \<Longrightarrow> page_ok (set_option idx op p)"
  unfolding set_option_def by (auto simp: chart_ok_def intro!: charts_ok_map)

lemma page_ok_response:
  assumes "page_ok p" "mask_response gs m idx w r p = Inr p'"
  shows "page_ok p'"
proof -
  obtain q b where d: "dmtFirstDealAjaxResponse (Some r) p = Inr (q, b)"
    using assms(2) by (auto simp: mask_response_def split: sum.splits)
  then have q: "page_ok q" using assms(1) same_charts_deal same_charts_ok by blast
  have "snd (masked_flags (wr_warn_flag r)) \<in> {0, 1}" by (simp add: masked_flags_next next_mask_def)
  with assms(2) d q show ?thesis
    using same_charts_ok [OF same_charts_emit [THEN iffD2, OF same_charts_refl]]
    by (cases b) (auto simp: mask_response_def Let_def split: option.splits if_splits prod.splits
      intro!: page_ok_set_option page_ok_update)
qed

section \<open>One chart per attribute\<close>

lemma show_curves_page:
  "\<exists>op w. fst (show_curves ti vals ty info v (p, o0)) = put_chart (show_id ty vals v) op (Some w) (p\<lparr>pg_next_oid := pg_next_oid p + 1\<rparr>)"
  by (auto simp: show_curves_def Let_def show_id_def jump_id_def split: prod.splits)

lemma show_attr_numeric:
  assumes "info_of as i v = Inr info" "ai_data_type info \<noteq> 6" "ai_data_type info \<noteq> 7"
  shows "\<exists>s' c w. show_attr ds n as vals ct ty i v (p, o0) = Inr s'
    \<and> g_all_charts (fst s') = put_entry (show_id ty vals v) c (g_all_charts p) \<and> ch_warnInfo c = Some w"
proof -
  let ?sid = "show_id ty vals v"
  define q where "q = add_container ct ty ?sid (jump_id ty vals) p"
  define q' where "q' = (if ?sid \<in> fst ` set (g_all_charts q) then emit (Dispose ?sid) q else q)"
  have "g_all_charts q' = g_all_charts p" by (simp add: q'_def q_def)
  moreover have "show_attr ds n as vals ct ty i v (p, o0) =
      Inr (show_curves (dmtGetXAxisTimeInfo ds n info) vals ty info v (q', o0))"
    unfolding show_attr_def Let_def prod.case q_def [symmetric] q'_def [symmetric] using assms by simp
  ultimately show ?thesis
    using show_curves_page [of "dmtGetXAxisTimeInfo ds n info" vals ty info v q' o0] by (auto simp: put_chart_def)
qed

text \<open>What one turn adds: a container, and a chart that records the current chart width.\<close>

definition adds_chart :: "jstr \<Rightarrow> page \<Rightarrow> page \<Rightarrow> bool" where
  "adds_chart sid p p' = (pg_ids p' = pg_ids p \<and> pg_width p' = pg_width p
     \<and> (\<exists>c. g_all_charts p' = put_entry sid c (g_all_charts p) \<and> ch_setwidth c = g_dmtChartWidth p))"

lemma put_chart_adds: "adds_chart sid p (put_chart sid op w (p\<lparr>pg_next_oid := n\<rparr>))" "adds_chart sid p (put_chart sid op w p)"
  by (auto simp: adds_chart_def put_chart_def)

lemma adds_chart_emit: "adds_chart sid (emit e p) p' = adds_chart sid p p'"
  by (simp add: adds_chart_def)

lemma pies_add:
  "dmtSetStrAttrInfoChartIpGeo sid info v vals ty p = Inr p' \<Longrightarrow> adds_chart sid p p'"
  "adds_chart sid p (dmtSetStrAttrInfoChart sid info v vals ty p)"
  by (auto simp: dmtSetStrAttrInfoChartIpGeo_def dmtSetStrAttrInfoChart_def Let_def put_chart_adds
      adds_chart_emit [of sid "Css (js ''#'' @ sid) (js ''height'') (NumI g_dmtChartHeight)" p, symmetric]
      split: if_splits option.splits)

lemma curves_add: "adds_chart (show_id ty vals v) p (fst (show_curves ti vals ty info v (p, op)))"
  using show_curves_page [of ti vals ty info v p op] put_chart_adds(1) by metis

lemma show_attr_adds:
  assumes "show_attr ds n as vals ct ty i v s = Inr s'"
  shows "adds_chart (show_id ty vals v) (add_container ct ty (show_id ty vals v) (jump_id ty vals) (fst s)) (fst s')"
proof -
  obtain p op where s: "s = (p, op)" by (cases s)
  let ?sid = "show_id ty vals v"
  define q where "q = add_container ct ty ?sid (jump_id ty vals) p"
  define q' where "q' = (if ?sid \<in> fst ` set (g_all_charts q) then emit (Dispose ?sid) q else q)"
  have "adds_chart ?sid q' (fst s')"
  proof (cases "info_of as i v")
    case (Inr info)
    consider "ai_data_type info = 7" | "ai_data_type info = 6" | "ai_data_type info \<noteq> 6" "ai_data_type info \<noteq> 7" by blast
    then show ?thesis
      using assms Inr unfolding show_attr_def s Let_def prod.case q_def [symmetric] q'_def [symmetric]
      using pies_add(1) [of ?sid info v vals ty q'] pies_add(2) [of ?sid q' info v vals ty] curves_add [of ty vals v q' "dmtGetXAxisTimeInfo ds n info" info op]
      by cases (auto split: sum.splits)
  qed (use assms in \<open>simp add: show_attr_def s Let_def\<close>)
  then show ?thesis by (simp add: q'_def q_def s adds_chart_emit split: if_splits)
qed

section \<open>The width of a container\<close>

text \<open>
  A chart whose identifier has exactly one container in the document, and whose recorded width is
  a finite number of at least 0, has that number as the inline width of the container.
\<close>

definition width_ok :: "page \<Rightarrow> bool" where
  "width_ok p = (\<forall>k c q. map_of (g_all_charts p) k = Some c \<and> count_list (pg_ids p) k = 1
     \<and> ch_setwidth c = Num (Fin q) \<and> 0 \<le> q \<longrightarrow> pg_width p k = Some q)"

lemma same_charts_width: "same_charts p p' \<Longrightarrow> width_ok p' = width_ok p"
  by (simp add: same_charts_def width_ok_def)

lemma map_of_map_charts: "map_of (map (\<lambda>(k, c). (k, f k c)) cs) k = map_option (f k) (map_of cs k)"
  by (induction cs) auto

lemma width_ok_map:
  assumes "width_ok p" "\<And>k c. ch_setwidth (f k c) = ch_setwidth c" "pg_ids p' = pg_ids p" "pg_width p' = pg_width p"
    and "g_all_charts p' = map (\<lambda>(k, c). (k, f k c)) (g_all_charts p)"
  shows "width_ok p'"
  using assms by (auto simp: width_ok_def map_of_map_charts simp del: map_map)

lemma width_ok_timer: "width_ok p \<Longrightarrow> width_ok (run_timer p)"
proof (cases "pg_timers p")
  case (Cons k ks)
  assume p: "width_ok p"
  let ?f = "\<lambda>ct c. if chart_matches k ct then redraw_chart (g_dmtChartWidth p) c else c"
  have "pg_width (run_timer p) i = Some q"
    if i: "map_of (g_all_charts (run_timer p)) i = Some c'" "count_list (pg_ids (run_timer p)) i = 1"
      "ch_setwidth c' = Num (Fin q)" "0 \<le> q" for i c' q
  proof -
    from i(1) obtain c where c: "map_of (g_all_charts p) i = Some c" "c' = ?f i c"
      by (auto simp: run_timer_def Cons redraw_timer_def map_of_map_charts simp del: map_map)
    have "i \<in> fst ` set (g_all_charts p)" using c(1) by (force dest: map_of_SomeD)
    moreover have "i \<in> set (pg_ids p)" using i(2)
      by (cases "i \<in> set (pg_ids p)") (simp_all add: run_timer_def Cons redraw_timer_def)
    ultimately show ?thesis
      using p c i(2-4) by (auto simp: run_timer_def Cons redraw_timer_def redraw_chart_def css_width_def
        width_ok_def max_def split: if_splits)
  qed
  then show ?thesis unfolding width_ok_def by blast
qed (simp add: run_timer_def)

lemma width_ok_show_attr:
  assumes "width_ok (fst s)" "show_attr ds n as vals ct ty i v s = Inr s'"
  shows "width_ok (fst s')"
proof -
  let ?sid = "show_id ty vals v"
  from show_attr_adds [OF assms(2)] obtain c where a: "pg_ids (fst s') = pg_ids (fst s) @ [?sid]"
      "pg_width (fst s') = (if ?sid \<in> set (pg_ids (fst s)) then pg_width (fst s)
         else (pg_width (fst s))(?sid := inline_width (g_dmtChartWidth (fst s))))"
      "g_all_charts (fst s') = put_entry ?sid c (g_all_charts (fst s))" "ch_setwidth c = g_dmtChartWidth (fst s)"
    by (auto simp: adds_chart_def)
  have one: "?sid \<notin> set (pg_ids (fst s))" if "count_list (pg_ids (fst s')) ?sid = 1"
    using that a(1) by (simp add: count_list_append count_list_0_iff)
  have "pg_width (fst s') k = Some q"
    if "map_of (g_all_charts (fst s')) k = Some c'" "count_list (pg_ids (fst s')) k = 1"
      "ch_setwidth c' = Num (Fin q)" "0 \<le> q" for k c' q
  proof (cases "k = ?sid")
    case True
    with that(1,3) a(3,4) have "g_dmtChartWidth (fst s) = Num (Fin q)" by (simp add: map_of_put_entry)
    with that(2,4) True one a(2) show ?thesis by (simp add: inline_width_def)
  next
    case False
    with that a assms(1) show ?thesis
      by (auto simp: map_of_put_entry width_ok_def count_list_append)
  qed
  then show ?thesis unfolding width_ok_def by blast
qed

lemma width_ok_show_attrs:
  "width_ok (fst s) \<Longrightarrow> show_attrs ds n as vals ct ty i vs s = Inr p' \<Longrightarrow> width_ok p'"
  by (induction ds n as vals ct ty i vs s rule: show_attrs.induct)
    (auto dest: width_ok_show_attr split: sum.splits)

lemma width_ok_warn: "width_ok p \<Longrightarrow> width_ok (update_warn i f p)" "width_ok p \<Longrightarrow> width_ok (set_option idx op p)"
  by (erule width_ok_map; force simp: update_warn_def set_option_def)+

lemma width_ok_response:
  assumes "width_ok p" "mask_response gs m idx w r p = Inr p'"
  shows "width_ok p'"
proof -
  obtain q b where d: "dmtFirstDealAjaxResponse (Some r) p = Inr (q, b)"
    using assms(2) by (auto simp: mask_response_def split: sum.splits)
  then have q: "width_ok q" using assms(1) same_charts_deal same_charts_width by blast
  with assms(2) d show ?thesis
    using same_charts_width [OF same_charts_emit [THEN iffD2, OF same_charts_refl]]
    by (cases b) (auto simp: mask_response_def Let_def split: option.splits if_splits prod.splits
      intro!: width_ok_warn)
qed

lemma count_list_filter: "count_list (filter P xs) x = (if P x then count_list xs x else 0)"
  by (induction xs) auto

section \<open>Reachable pages\<close>

lemma page_ok_step: "page_step p p' \<Longrightarrow> page_ok p \<Longrightarrow> page_ok p'"
proof (induction rule: page_step.induct)
  case (show_all offset as vals ct_div showtype p p')
  then show ?case
    using page_ok_show_attrs by (fastforce simp: dmtShowAttrInfo_def Let_def split: option.splits)
qed (simp_all add: page_ok_timer same_charts_ok [OF same_charts_redraw] same_charts_ok [OF same_charts_tabs(1)]
  same_charts_ok [OF same_charts_tabs(2)] same_charts_ok [OF same_charts_tabs(3)] same_charts_ok [OF same_charts_click]
  same_charts_ok [OF same_charts_others(1)] same_charts_ok [OF same_charts_others(2)]
  same_charts_ok [OF same_charts_others(3)] page_ok_response)

lemma width_ok_step: "page_step p p' \<Longrightarrow> width_ok p \<Longrightarrow> width_ok p'"
proof (induction rule: page_step.induct)
  case (show_all offset as vals ct_div showtype p p')
  then show ?case
    using width_ok_show_attrs by (fastforce simp: dmtShowAttrInfo_def Let_def split: option.splits)
qed (simp_all add: width_ok_timer same_charts_width [OF same_charts_redraw] same_charts_width [OF same_charts_tabs(1)]
  same_charts_width [OF same_charts_tabs(2)] same_charts_width [OF same_charts_tabs(3)] same_charts_width [OF same_charts_click]
  same_charts_width [OF same_charts_others(1)] same_charts_width [OF same_charts_others(2)]
  same_charts_width [OF same_charts_others(3)] width_ok_response, auto simp: width_ok_def count_list_filter split: if_splits)

lemma width_ok_reachable: "page_reachable p \<Longrightarrow> width_ok p"
proof (induction rule: page_reachable.induct)
  case (start has_trunc w h)
  show ?case by (simp add: start_page_def width_ok_def)
qed (rule width_ok_step)

lemma page_ok_reachable: "page_reachable p \<Longrightarrow> page_ok p"
proof (induction rule: page_reachable.induct)
  case (start has_trunc w h)
  show ?case by (simp add: start_page_def charts_ok_def)
qed (rule page_ok_step)

lemma chart_oids_member: "(k, c) \<in> set cs \<Longrightarrow> ch_warnInfo c = Some w \<Longrightarrow> wi_oid w \<in> set (chart_oids cs)"
  by (induction cs) (auto split: option.splits)

lemma oid_unique:
  "\<lbrakk>distinct (chart_oids cs); (k, c) \<in> set cs; (k', c') \<in> set cs; ch_warnInfo c = Some w; ch_warnInfo c' = Some w';
    wi_oid w = wi_oid w'\<rbrakk> \<Longrightarrow> (k, c) = (k', c')"
proof (induction cs)
  case (Cons x cs)
  then show ?case
    using chart_oids_member [of k c cs w] chart_oids_member [of k' c' cs w'] by (cases x) (auto split: option.splits)
qed simp

text \<open>
  C27: on every page that is reachable from the start by showing attributes, redrawing, timers,
  clicks, responses and closed tabs in any order, no two charts have the same key, no two charts
  share their \<open>warnInfo\<close>, and the \<open>mask\<close> a chart would send is 0 or 1. And the width a chart has
  recorded, when it is a finite number of at least 0, is the inline width of its container,
  provided there is exactly one container of its identifier.
\<close>

theorem charts_consistent:
  assumes "page_reachable p"
  shows "distinct (map fst (g_all_charts p)) \<and> distinct (chart_oids (g_all_charts p))
    \<and> (\<forall>(k, c) \<in> set (g_all_charts p). case ch_warnInfo c of Some w \<Rightarrow> wi_mask w \<in> {0, 1} | None \<Rightarrow> True)
    \<and> (\<forall>k c q. map_of (g_all_charts p) k = Some c \<and> count_list (pg_ids p) k = 1
         \<and> ch_setwidth c = Num (Fin q) \<and> 0 \<le> q \<longrightarrow> pg_width p k = Some q)"
  using page_ok_reachable [OF assms] width_ok_reachable [OF assms]
  unfolding charts_ok_def chart_ok_def width_ok_def by blast

text \<open>A page that shows one attribute.\<close>

definition sample_attrs :: attr_list where
  "sample_attrs = \<lparr>al_view_id = 7, al_machine_id = 1, al_count = 1, al_list = [sample_info]\<rparr>"

abbreviation sample_vals :: attr_val_list where
  "sample_vals \<equiv> sample_list\<lparr>avl_list := Some [sample_val 9]\<rparr>"

definition shown_page :: "page \<Rightarrow> page" where
  "shown_page p = (case dmtShowAttrInfo 0 sample_attrs sample_vals (js ''#ct'') (js ''view'') p of
     Inl e \<Rightarrow> p | Inr p' \<Rightarrow> p')"

definition sample_page :: page where
  "sample_page = shown_page (start_page True 1366 768)"

lemma sample_id: "show_id (js ''view'') sample_vals (sample_val 9) = js ''attr_3_7view''"
  by (simp add: show_id_def jump_id_def sample_list_def sample_val_def js_def int_str_def nat_digits.simps)

lemma shown_page_adds:
  "\<exists>c w. g_all_charts (shown_page p) = put_entry (js ''attr_3_7view'') c (g_all_charts p) \<and> ch_warnInfo c = Some w
    \<and> ch_setwidth c = g_dmtChartWidth p \<and> pg_ids (shown_page p) = pg_ids p @ [js ''attr_3_7view'']
    \<and> dmtShowAttrInfo 0 sample_attrs sample_vals (js ''#ct'') (js ''view'') p = Inr (shown_page p)"
proof -
  let ?ds = "avl_start_utc sample_vals * 1000 - 0 * 60 * 1000" and ?n = "if avl_monday sample_vals then 7 else 1 :: nat"
  have i: "info_of sample_attrs 0 (sample_val 9) = Inr sample_info" "ai_data_type sample_info = 1"
    by (simp_all add: info_of_def sample_attrs_def sample_info_def sample_val_def)
  have l: "avl_list sample_vals = Some [sample_val 9]" "avl_type sample_vals \<noteq> 1" by (simp_all add: sample_list_def)
  obtain s' c w where s: "show_attr ?ds ?n sample_attrs sample_vals (js ''#ct'') (js ''view'') 0 (sample_val 9) (p, first_op) = Inr s'"
      "g_all_charts (fst s') = put_entry (js ''attr_3_7view'') c (g_all_charts p)" "ch_warnInfo c = Some w"
    using show_attr_numeric [OF i(1), of ?ds ?n sample_vals "js ''#ct''" "js ''view''" p first_op] i(2) sample_id by auto
  have d: "dmtShowAttrInfo 0 sample_attrs sample_vals (js ''#ct'') (js ''view'') p = Inr (fst s')"
    unfolding dmtShowAttrInfo_def l(1) using l(2) s(1) by simp
  then have p: "shown_page p = fst s'" by (simp add: shown_page_def)
  from show_attr_adds [OF s(1)] obtain c' where c': "pg_ids (fst s') = pg_ids p @ [js ''attr_3_7view'']"
      "g_all_charts (fst s') = put_entry (js ''attr_3_7view'') c' (g_all_charts p)" "ch_setwidth c' = g_dmtChartWidth p"
    by (auto simp: adds_chart_def sample_id)
  have "Some c = Some c'"
    using map_of_put_entry [of "js ''attr_3_7view''" c "g_all_charts p"] map_of_put_entry [of "js ''attr_3_7view''" c' "g_all_charts p"]
      s(2) c'(2) by (metis fun_upd_same)
  with s c' d p show ?thesis by auto
qed

lemma sample_page_charts: "\<exists>c w. g_all_charts sample_page = [(js ''attr_3_7view'', c)] \<and> ch_warnInfo c = Some w"
  using shown_page_adds [of "start_page True 1366 768"] by (auto simp: sample_page_def start_page_def)

lemma shown_page_reachable: "page_reachable p \<Longrightarrow> page_reachable (shown_page p)"
  using shown_page_adds [of p] page_step.show_all page_reachable.step by blast

lemma sample_page_reachable: "page_reachable sample_page"
  unfolding sample_page_def by (intro shown_page_reachable page_reachable.start)

text \<open>The same after the chart width was computed.\<close>

definition sized_page :: page where
  "sized_page = shown_page (dmtRedrawCharts (Some (Some (js ''7''), Some (js ''view''), False)) (start_page True 1366 768))"

lemma sized_page_chart:
  "\<exists>c. g_all_charts sized_page = [(js ''attr_3_7view'', c)] \<and> ch_setwidth c = NumI 606
     \<and> pg_ids sized_page = [js ''attr_3_7view'']"
proof -
  define p0 where "p0 = start_page True 1366 768"
  let ?p1 = "dmtSetRedrawChartsInfo (Some (js ''7'')) (Some (js ''view'')) False p0"
  let ?p = "dmtRedrawCharts (Some (Some (js ''7''), Some (js ''view''), False)) p0"
  have p0: "g_all_charts p0 = []" "pg_ids p0 = []" by (simp_all add: p0_def start_page_def)
  have "content_width ?p1 = 1292" "pg_has_trunc ?p1"
    by (simp_all add: p0_def start_page_def content_width_def dmtSetRedrawChartsInfo_def)
  then have w: "g_dmtChartWidth (dmtSetChartSize ?p1) = NumI 606" using chart_width [of ?p1] by simp
  have "js ''view'' \<noteq> js ''plugin''" by (simp add: js_def)
  from redraw_started [OF this, of "js ''7''" False p0] p0 w
  have "g_dmtChartWidth ?p = NumI 606" "g_all_charts ?p = []" "pg_ids ?p = []" by simp_all
  then show ?thesis using shown_page_adds [of ?p] by (auto simp: sized_page_def p0_def)
qed

theorem charts_consistent_witness:
  "\<exists>c. g_all_charts sized_page = [(js ''attr_3_7view'', c)] \<and> ch_setwidth c = NumI 606
    \<and> pg_width sized_page (js ''attr_3_7view'') = Some 606"
proof -
  have r: "page_reachable sized_page"
    unfolding sized_page_def by (intro shown_page_reachable page_reachable.step [OF page_reachable.start page_step.redraw])
  obtain c where c: "g_all_charts sized_page = [(js ''attr_3_7view'', c)]" "ch_setwidth c = Num (Fin 606)"
      "pg_ids sized_page = [js ''attr_3_7view'']"
    using sized_page_chart by auto
  have "map_of (g_all_charts sized_page) (js ''attr_3_7view'') = Some c" "count_list (pg_ids sized_page) (js ''attr_3_7view'') = 1"
    "(0 :: rat) \<le> 606" using c by simp_all
  with c charts_consistent [OF r] have "pg_width sized_page (js ''attr_3_7view'') = Some 606" by blast
  with c show ?thesis by auto
qed

definition sample_response :: warn_result where
  "sample_response = \<lparr>ar_ec = None, ar_msg = None, ar_msgid = None, ar_redirect_url = [], wr_statusCode = 200,
     wr_warn_flag = 41, wr_warn_max = Fin 8, wr_warn_min = Fin 0, wr_warn_wave = Fin 0, wr_warn_config_id = 5\<rparr>"

text \<open>
  C28: the successful response to a warning request reaches exactly the chart it was sent for: the
  chart gets the new subtitle and buttons as an option, its \<open>warnInfo\<close> the new configuration
  number and \<open>mask\<close>, and every other chart is as before.
\<close>

theorem response_reaches_its_chart:
  assumes "page_reachable p" "map_of (g_all_charts p) idx = Some c" "ch_warnInfo c = Some w"
    and "ar_ec r = None" "wr_statusCode r = 200"
  shows "\<exists>p'. mask_response gs m idx w r p = Inr p'
    \<and> map_of (g_all_charts p') = (map_of (g_all_charts p))(idx \<mapsto>
        c\<lparr>ch_options := masked_option (masked_subtitle (gs c) w r) (fst (masked_flags (wr_warn_flag r))) # ch_options c,
          ch_warnInfo := Some (w\<lparr>wi_cfg_id := wr_warn_config_id r, wi_mask := next_mask (wr_warn_flag r)\<rparr>)\<rparr>)"
proof -
  let ?op = "masked_option (masked_subtitle (gs c) w r) (fst (masked_flags (wr_warn_flag r)))"
  let ?f = "\<lambda>w. w\<lparr>wi_cfg_id := wr_warn_config_id r, wi_mask := next_mask (wr_warn_flag r)\<rparr>"
  let ?p' = "set_option idx ?op (update_warn (wi_oid w) ?f p)"
  have r: "mask_response gs m idx w r p = Inr ?p'"
    using assms(2,4,5) masked_flags_next [of "wr_warn_flag r"]
    by (cases "masked_flags (wr_warn_flag r)") (simp add: mask_response_def dmtFirstDealAjaxResponse_def)
  have ok: "page_ok p" by (rule page_ok_reachable [OF assms(1)])
  have other: "map_option (\<lambda>w'. if wi_oid w' = wi_oid w then ?f w' else w') (ch_warnInfo c') = ch_warnInfo c'"
    if "map_of (g_all_charts p) k = Some c'" "k \<noteq> idx" for k c'
    using oid_unique [of "g_all_charts p" k c' idx c _ w] that assms(2,3) ok
    by (cases "ch_warnInfo c'") (auto simp: charts_ok_def dest: map_of_SomeD)
  have "map_of (g_all_charts ?p') k = ((map_of (g_all_charts p))(idx \<mapsto> c\<lparr>ch_options := ?op # ch_options c, ch_warnInfo := Some (?f w)\<rparr>)) k" for k
  proof (cases "map_of (g_all_charts p) k")
    case None
    then show ?thesis using assms(2) by (auto simp: set_option_def update_warn_def map_of_map_charts simp del: map_map)
  next
    case (Some c')
    then show ?thesis
      using assms(2,3) other [of k c'] by (auto simp: set_option_def update_warn_def map_of_map_charts simp del: map_map)
  qed
  with r show ?thesis by blast
qed

theorem response_reaches_its_chart_witness:
  "\<exists>c w p'. map_of (g_all_charts sample_page) (js ''attr_3_7view'') = Some c
    \<and> mask_response (\<lambda>_. []) (\<lambda>_. []) (js ''attr_3_7view'') w sample_response sample_page = Inr p'
    \<and> map_option ch_warnInfo (map_of (g_all_charts p') (js ''attr_3_7view''))
      = Some (Some (w\<lparr>wi_cfg_id := 5, wi_mask := next_mask 41\<rparr>))"
proof -
  obtain c w where c: "g_all_charts sample_page = [(js ''attr_3_7view'', c)]" "ch_warnInfo c = Some w"
    using sample_page_charts by blast
  then have m: "map_of (g_all_charts sample_page) (js ''attr_3_7view'') = Some c" by simp
  have r: "ar_ec sample_response = None" "wr_statusCode sample_response = 200" "wr_warn_flag sample_response = 41"
    "wr_warn_config_id sample_response = 5" by (simp_all add: sample_response_def)
  obtain p' where p': "mask_response (\<lambda>_. []) (\<lambda>_. []) (js ''attr_3_7view'') w sample_response sample_page = Inr p'"
      "map_option ch_warnInfo (map_of (g_all_charts p') (js ''attr_3_7view'')) = Some (Some (w\<lparr>wi_cfg_id := 5, wi_mask := next_mask 41\<rparr>))"
    using response_reaches_its_chart [OF sample_page_reachable m c(2) r(1,2), of "\<lambda>_. []" "\<lambda>_. []"] r by auto
  with m show ?thesis by blast
qed

lemma show_attrs_adds:
  "show_attrs ds n as vals ct ty i vs s = Inr p' \<Longrightarrow>
     pg_ids p' = pg_ids (fst s) @ map (show_id ty vals) vs
     \<and> (\<forall>v \<in> set vs. show_id ty vals v \<in> dom (map_of (g_all_charts p')))
     \<and> (\<forall>k. map_of (g_all_charts (fst s)) k \<noteq> None \<longrightarrow> map_of (g_all_charts p') k \<noteq> None)
     \<and> (\<forall>k. k \<notin> show_id ty vals ` set vs \<longrightarrow> map_of (g_all_charts p') k = map_of (g_all_charts (fst s)) k)"
proof (induction ds n as vals ct ty i vs s rule: show_attrs.induct)
  case (2 ds n as vals ct ty i v vs s)
  then obtain s' where s': "show_attr ds n as vals ct ty i v s = Inr s'" "show_attrs ds n as vals ct ty (i + 1) vs s' = Inr p'"
    by (auto split: sum.splits)
  from show_attr_adds [OF s'(1)] obtain c where c: "pg_ids (fst s') = pg_ids (fst s) @ [show_id ty vals v]"
      "g_all_charts (fst s') = put_entry (show_id ty vals v) c (g_all_charts (fst s))"
    by (auto simp: adds_chart_def)
  have m: "map_of (g_all_charts (fst s')) = (map_of (g_all_charts (fst s)))(show_id ty vals v \<mapsto> c)"
    unfolding c(2) by (rule map_of_put_entry)
  note ih = "2.IH" [OF s'(1) s'(2), unfolded m]
  have "map_of (g_all_charts p') (show_id ty vals v) \<noteq> None" using ih by simp
  moreover have "map_of (g_all_charts p') k \<noteq> None" if "map_of (g_all_charts (fst s)) k \<noteq> None" for k
    using ih that by simp
  ultimately show ?case using ih c(1) by auto
qed auto

text \<open>
  When \<open>dmtShowAttrInfo\<close> comes to its end, it has appended one container per attribute, in the
  order of the values, every attribute has a chart under its identifier, and the charts of
  all other identifiers are untouched.
\<close>

theorem every_attribute_charted:
  assumes "dmtShowAttrInfo offset as vals ct_div ty p = Inr p'" "avl_list vals = Some vs"
  shows "pg_ids p' = pg_ids p @ map (show_id ty vals) vs
    \<and> (\<forall>v \<in> set vs. show_id ty vals v \<in> dom (map_of (g_all_charts p')))
    \<and> (\<forall>k. k \<notin> show_id ty vals ` set vs \<longrightarrow> map_of (g_all_charts p') k = map_of (g_all_charts p) k)"
  using assms by (auto simp: dmtShowAttrInfo_def Let_def dest!: show_attrs_adds)

theorem every_attribute_charted_witness:
  "pg_ids sample_page = [js ''attr_3_7view'']"
proof -
  have "pg_ids (start_page True 1366 768) = []" by (simp add: start_page_def)
  then show ?thesis
    using every_attribute_charted [of 0 sample_attrs sample_vals "js ''#ct''" "js ''view''" "start_page True 1366 768"
      sample_page "[sample_val 9]"] shown_page_adds [of "start_page True 1366 768"] sample_id
    by (auto simp: sample_page_def)
qed

end
