(* ===== verification/Js_Uri.thy ===== *)
theory Js_Uri
  imports Js_Date Js_Int
begin

text \<open>
  \<open>encodeURIComponent\<close>, \<open>decodeURIComponent\<close> and \<open>unescape\<close>. \<open>None\<close> is a \<open>URIError\<close>. A text is well
  formed when its surrogates come in pairs; those are the texts that can be encoded.
\<close>

section \<open>Code points\<close>

definition high_sur :: "jchar \<Rightarrow> bool" where
  "high_sur c = (0xD800 \<le> c \<and> c \<le> 0xDBFF)"

definition low_sur :: "jchar \<Rightarrow> bool" where
  "low_sur c = (0xDC00 \<le> c \<and> c \<le> 0xDFFF)"

fun code_points :: "jstr \<Rightarrow> nat list option" where
  "code_points [] = Some []"
| "code_points (c # s) =
     (if low_sur c then None
      else if \<not> high_sur c then map_option ((#) (unat c)) (code_points s)
      else (case s of
              [] \<Rightarrow> None
            | d # t \<Rightarrow> if low_sur d
                then map_option ((#) ((unat c - 0xD800) * 0x400 + (unat d - 0xDC00) + 0x10000)) (code_points t)
                else None))"

definition units_of :: "nat \<Rightarrow> jstr" where
  "units_of cp =
     (if cp < 0x10000 then [of_nat cp]
      else [of_nat ((cp - 0x10000) div 0x400 + 0xD800), of_nat ((cp - 0x10000) mod 0x400 + 0xDC00)])"

definition well_formed :: "jstr \<Rightarrow> bool" where
  "well_formed s = (code_points s \<noteq> None)"

section \<open>Encoding\<close>

definition utf8_bytes :: "nat \<Rightarrow> nat list" where
  "utf8_bytes cp =
     (if cp < 0x80 then [cp]
      else if cp < 0x800 then [0xC0 + cp div 64, 0x80 + cp mod 64]
      else if cp < 0x10000 then [0xE0 + cp div 4096, 0x80 + cp div 64 mod 64, 0x80 + cp mod 64]
      else [0xF0 + cp div 262144, 0x80 + cp div 4096 mod 64, 0x80 + cp div 64 mod 64, 0x80 + cp mod 64])"

definition hex_upper :: "nat \<Rightarrow> jchar" where
  "hex_upper d = (if d < 10 then of_nat (48 + d) else of_nat (55 + d))"

definition percent :: "nat \<Rightarrow> jstr" where
  "percent b = [37, hex_upper (b div 16), hex_upper (b mod 16)]"

text \<open>The characters that are not escaped: letters, digits and \<open>- _ . ! ~ * ' ( )\<close>.\<close>

definition uri_plain :: "nat \<Rightarrow> bool" where
  "uri_plain n = (97 \<le> n \<and> n \<le> 122 \<or> 65 \<le> n \<and> n \<le> 90 \<or> 48 \<le> n \<and> n \<le> 57
     \<or> n \<in> {45, 95, 46, 33, 126, 42, 39, 40, 41})"

definition uri_escape :: "nat \<Rightarrow> jstr" where
  "uri_escape cp = (if uri_plain cp then [of_nat cp] else concat (map percent (utf8_bytes cp)))"

definition encodeURIComponent :: "jstr \<Rightarrow> jstr option" where
  "encodeURIComponent s = map_option (\<lambda>cps. concat (map uri_escape cps)) (code_points s)"

section \<open>Decoding\<close>

text \<open>An escape at the start of a text: its byte and the rest.\<close>

fun take_percent :: "jstr \<Rightarrow> (nat \<times> jstr) option" where
  "take_percent (p # a # b # s) =
     (if p = 37 \<and> digit_val a < 16 \<and> digit_val b < 16 then Some (digit_val a * 16 + digit_val b, s) else None)"
| "take_percent _ = None"

text \<open>\<open>k\<close> continuation bytes are added to a value.\<close>

fun take_more :: "nat \<Rightarrow> nat \<Rightarrow> jstr \<Rightarrow> (nat \<times> jstr) option" where
  "take_more 0 v s = Some (v, s)"
| "take_more (Suc k) v s =
     (case take_percent s of
        Some (b, t) \<Rightarrow> if 0x80 \<le> b \<and> b < 0xC0 then take_more k (v * 64 + (b - 0x80)) t else None
      | None \<Rightarrow> None)"

text \<open>One escaped code point; overlong forms, surrogates and values above 10FFFF are errors.\<close>

definition take_point :: "jstr \<Rightarrow> (nat \<times> jstr) option" where
  "take_point s =
     (case take_percent s of
        None \<Rightarrow> None
      | Some (b, t) \<Rightarrow>
          if b < 0x80 then Some (b, t)
          else
            (let r = (if 0xC0 \<le> b \<and> b < 0xE0 then take_more 1 (b - 0xC0) t
                      else if 0xE0 \<le> b \<and> b < 0xF0 then take_more 2 (b - 0xE0) t
                      else if 0xF0 \<le> b \<and> b < 0xF8 then take_more 3 (b - 0xF0) t
                      else None);
                 least = (if b < 0xE0 then 0x80 else if b < 0xF0 then 0x800 else 0x10000)
             in case r of
                  Some (cp, u) \<Rightarrow> if least \<le> cp \<and> cp \<le> 0x10FFFF \<and> \<not> (0xD800 \<le> cp \<and> cp \<le> 0xDFFF) then Some (cp, u) else None
                | None \<Rightarrow> None))"

lemma take_percent_length: "take_percent s = Some (b, t) \<Longrightarrow> length t < length s"
  by (cases s rule: take_percent.cases) (auto split: if_splits)

lemma take_more_length: "take_more k v s = Some (cp, t) \<Longrightarrow> length t \<le> length s"
  by (induction k v s rule: take_more.induct)
    (fastforce split: option.splits prod.splits if_splits dest: take_percent_length)+

lemma take_point_length: "take_point s = Some (cp, t) \<Longrightarrow> length t < length s"
  by (auto simp: take_point_def Let_def split: option.splits prod.splits if_splits
      dest!: take_percent_length take_more_length)

function decodeURIComponent :: "jstr \<Rightarrow> jstr option" where
  "decodeURIComponent [] = Some []"
| "decodeURIComponent (c # s) =
     (if c \<noteq> 37 then map_option ((#) c) (decodeURIComponent s)
      else (case take_point (c # s) of
              None \<Rightarrow> None
            | Some (cp, t) \<Rightarrow> map_option ((@) (units_of cp)) (decodeURIComponent t)))"
  by pat_completeness auto
termination
  by (relation "measure length") (auto dest: take_point_length)

text \<open>The old \<open>unescape\<close>: \<open>%uXXXX\<close> and \<open>%XX\<close> are code units, anything else stays.\<close>

function unescape :: "jstr \<Rightarrow> jstr" where
  "unescape [] = []"
| "unescape (c # s) =
     (if c = 37 \<and> 5 \<le> length s \<and> s ! 0 = 117 \<and> list_all (\<lambda>d. digit_val d < 16) (take 4 (tl s))
      then of_nat (digits_val 16 (take 4 (tl s))) # unescape (drop 5 s)
      else if c = 37 \<and> 2 \<le> length s \<and> list_all (\<lambda>d. digit_val d < 16) (take 2 s)
      then of_nat (digits_val 16 (take 2 s)) # unescape (drop 2 s)
      else c # unescape s)"
  by pat_completeness auto
termination
  by (relation "measure length") auto

section \<open>Round trip\<close>

lemma digit_val_hex_upper: "d < 16 \<Longrightarrow> digit_val (hex_upper d) = d"
proof -
  assume "d < 16"
  then have "d < 10 \<or> d = 10 \<or> d = 11 \<or> d = 12 \<or> d = 13 \<or> d = 14 \<or> d = 15" by linarith
  then show ?thesis by (auto simp: hex_upper_def digit_val_dec simp del: of_nat_add) (simp_all add: digit_val_def)
qed

lemma take_percent_percent: "b < 256 \<Longrightarrow> take_percent (percent b @ s) = Some (b, s)"
  by (simp add: percent_def digit_val_hex_upper)

lemma take_more_Suc: "x < 64 \<Longrightarrow> take_more (Suc k) v (percent (0x80 + x) @ s) = take_more k (v * 64 + x) s"
  by (simp add: take_percent_percent)

lemma parts64: "(cp :: nat) div 4096 * 64 + cp div 64 mod 64 = cp div 64" "cp div 64 * 64 + cp mod 64 = cp"
    "cp div 262144 * 64 + cp div 4096 mod 64 = cp div 4096"
proof -
  have "cp div 4096 = cp div 64 div 64" "cp div 262144 = cp div 4096 div 64" by (simp_all add: div_mult2_eq)
  then show "cp div 4096 * 64 + cp div 64 mod 64 = cp div 64" "cp div 262144 * 64 + cp div 4096 mod 64 = cp div 4096"
    by simp_all
qed simp

definition scalar :: "nat \<Rightarrow> bool" where
  "scalar cp = (cp \<le> 0x10FFFF \<and> \<not> (0xD800 \<le> cp \<and> cp \<le> 0xDFFF))"

lemma take_point_two:
  assumes "0x80 \<le> cp" "cp < 0x800"
  shows "take_point (percent (0xC0 + cp div 64) @ percent (0x80 + cp mod 64) @ s) = Some (cp, s)"
proof -
  have "cp div 64 < 32" using assms(2) by (simp add: div_less_iff_less_mult)
  moreover have "take_more 1 (cp div 64) (percent (0x80 + cp mod 64) @ s) = Some (cp, s)"
    using take_more_Suc [of "cp mod 64" 0] by (simp add: parts64)
  ultimately show ?thesis using assms by (simp add: take_point_def take_percent_percent Let_def)
qed

lemma take_point_three:
  assumes "0x800 \<le> cp" "cp < 0x10000" "scalar cp"
  shows "take_point (percent (0xE0 + cp div 4096) @ percent (0x80 + cp div 64 mod 64) @ percent (0x80 + cp mod 64) @ s) = Some (cp, s)"
proof -
  have "cp div 4096 < 16" using assms(2) by (simp add: div_less_iff_less_mult)
  moreover have "take_more 2 (cp div 4096) (percent (0x80 + cp div 64 mod 64) @ percent (0x80 + cp mod 64) @ s) = Some (cp, s)"
    by (simp add: numeral_2_eq_2 take_more_Suc parts64 del: take_more.simps(2))
  ultimately show ?thesis using assms by (simp add: take_point_def take_percent_percent scalar_def Let_def)
qed

lemma take_point_four:
  assumes "0x10000 \<le> cp" "scalar cp"
  shows "take_point (percent (0xF0 + cp div 262144) @ percent (0x80 + cp div 4096 mod 64) @ percent (0x80 + cp div 64 mod 64)
    @ percent (0x80 + cp mod 64) @ s) = Some (cp, s)"
proof -
  have "cp div 262144 < 8" using assms(2) by (simp add: div_less_iff_less_mult scalar_def)
  moreover have "take_more 3 (cp div 262144) (percent (0x80 + cp div 4096 mod 64) @ percent (0x80 + cp div 64 mod 64)
      @ percent (0x80 + cp mod 64) @ s) = Some (cp, s)"
    by (simp add: numeral_3_eq_3 take_more_Suc parts64 del: take_more.simps(2))
  ultimately show ?thesis using assms by (simp add: take_point_def take_percent_percent scalar_def Let_def)
qed

lemma take_point_escape: "scalar cp \<Longrightarrow> take_point (concat (map percent (utf8_bytes cp)) @ s) = Some (cp, s)"
  by (cases "cp < 0x80"; cases "cp < 0x800"; cases "cp < 0x10000")
    (simp_all add: utf8_bytes_def take_point_two take_point_three take_point_four, simp_all add: take_point_def take_percent_percent)

lemma decode_escape:
  assumes "scalar cp"
  shows "decodeURIComponent (uri_escape cp @ s) = map_option ((@) (units_of cp)) (decodeURIComponent s)"
proof (cases "uri_plain cp")
  case True
  then have cp: "cp < 128" "cp \<noteq> 37" by (auto simp: uri_plain_def)
  then have "(of_nat cp :: jchar) \<noteq> 37"
    using unat_of_nat16 [of cp] by auto
  then show ?thesis using True cp by (cases "decodeURIComponent s") (simp_all add: uri_escape_def units_of_def)
next
  case False
  have "\<exists>r. concat (map percent (utf8_bytes cp)) @ s = 37 # r" by (simp add: utf8_bytes_def percent_def)
  then obtain r where r: "concat (map percent (utf8_bytes cp)) @ s = 37 # r" by blast
  show ?thesis
    using False take_point_escape [OF assms, of s] by (simp add: uri_escape_def r)
qed

lemma unat_le16: "unat (c :: jchar) \<le> 65535"
  using unat16_less [of c] by simp

lemma sur_unat:
  "high_sur c \<longleftrightarrow> 0xD800 \<le> unat c \<and> unat c \<le> 0xDBFF" "low_sur c \<longleftrightarrow> 0xDC00 \<le> unat c \<and> unat c \<le> 0xDFFF"
  by (simp_all add: high_sur_def low_sur_def word_le_nat_alt)

lemma units_of_unat: "units_of (unat c) = [c]"
  using unat16_less [of c] by (simp add: units_of_def)

lemma units_of_pair:
  assumes "high_sur c" "low_sur d"
  defines "cp \<equiv> (unat c - 0xD800) * 0x400 + (unat d - 0xDC00) + 0x10000"
  shows "units_of cp = [c, d]" "scalar cp"
proof -
  have b: "unat c - 0xD800 < 0x400" "unat d - 0xDC00 < 0x400" "0xD800 \<le> unat c" "0xDC00 \<le> unat d"
    using assms(1,2) by (auto simp: sur_unat)
  have "((unat c - 0xD800) * 0x400 + (unat d - 0xDC00)) div 0x400 = unat c - 0xD800"
    "((unat c - 0xD800) * 0x400 + (unat d - 0xDC00)) mod 0x400 = unat d - 0xDC00"
    using b(2) by simp_all
  moreover have "\<not> cp < 0x10000" "cp - 0x10000 = (unat c - 0xD800) * 0x400 + (unat d - 0xDC00)" by (simp_all add: cp_def)
  ultimately show "units_of cp = [c, d]" using b by (simp add: units_of_def)
  have "(unat c - 0xD800) * 0x400 \<le> 0x3FF * 0x400" using b(1) by (intro mult_le_mono1) simp
  then show "scalar cp" using b(2) by (simp add: scalar_def cp_def)
qed

lemma code_points_units: "code_points s = Some cps \<Longrightarrow> concat (map units_of cps) = s \<and> list_all scalar cps"
proof (induction s arbitrary: cps rule: code_points.induct)
  case (2 c s)
  show ?case
  proof (cases "high_sur c")
    case False
    then obtain cps' where "code_points s = Some cps'" "cps = unat c # cps'" "\<not> low_sur c"
      using "2.prems" by (auto split: if_splits)
    with 2(1) False show ?thesis
      using unat16_less [of c] by (auto simp: units_of_unat scalar_def sur_unat)
  next
    case True
    then obtain d t cps' where "s = d # t" "low_sur d" "code_points t = Some cps'" "\<not> low_sur c"
        "cps = ((unat c - 0xD800) * 0x400 + (unat d - 0xDC00) + 0x10000) # cps'"
      using "2.prems" by (auto split: if_splits list.splits)
    with 2(2) True show ?thesis
      using units_of_pair [OF True, of d] by simp
  qed
qed simp

lemma decode_escapes:
  "list_all scalar cps \<Longrightarrow> decodeURIComponent (concat (map uri_escape cps)) = Some (concat (map units_of cps))"
  by (induction cps) (auto simp: decode_escape)

lemma uri_roundtrip: "encodeURIComponent s = Some t \<Longrightarrow> decodeURIComponent t = Some s"
  by (auto simp: encodeURIComponent_def decode_escapes dest!: code_points_units)

lemma encode_well_formed: "well_formed s \<longleftrightarrow> (\<exists>t. encodeURIComponent s = Some t)"
  by (auto simp: well_formed_def encodeURIComponent_def)

text \<open>A character an encoded text may have.\<close>

definition uri_char :: "jchar \<Rightarrow> bool" where
  "uri_char c = (c = 37 \<or> uri_plain (unat c))"

lemma hex_upper_plain: "d < 16 \<Longrightarrow> uri_char (hex_upper d)"
proof -
  assume "d < 16"
  then have "unat (hex_upper d) = (if d < 10 then 48 + d else 55 + d)"
    by (simp add: hex_upper_def unat_of_nat16 del: of_nat_add)
  with \<open>d < 16\<close> show ?thesis by (auto simp: uri_char_def uri_plain_def)
qed

lemma utf8_bytes_range: "scalar cp \<Longrightarrow> b \<in> set (utf8_bytes cp) \<Longrightarrow> b < 256"
proof -
  assume cp: "scalar cp" and b: "b \<in> set (utf8_bytes cp)"
  have m: "x mod 64 < 64" for x :: nat by simp
  have "cp < 0x800 \<Longrightarrow> cp div 64 < 32" "cp < 0x10000 \<Longrightarrow> cp div 4096 < 16" "cp div 262144 < 8"
    using cp by (simp_all add: div_less_iff_less_mult scalar_def)
  then show ?thesis
    using b m [of cp] m [of "cp div 64"] m [of "cp div 4096"] by (auto simp: utf8_bytes_def split: if_splits)
qed

lemma uri_escape_chars: "scalar cp \<Longrightarrow> list_all uri_char (uri_escape cp)"
proof -
  assume cp: "scalar cp"
  have "list_all uri_char (percent b)" if "b \<in> set (utf8_bytes cp)" for b
    using utf8_bytes_range [OF cp that] hex_upper_plain [of "b div 16"] hex_upper_plain [of "b mod 16"]
    by (simp add: percent_def uri_char_def div_less_iff_less_mult)
  moreover have "unat (of_nat cp :: jchar) = cp" if "uri_plain cp"
    using that by (intro unat_of_nat16) (auto simp: uri_plain_def)
  ultimately show ?thesis by (auto simp: uri_escape_def uri_char_def list_all_iff)
qed

lemma encode_chars: "encodeURIComponent s = Some t \<Longrightarrow> list_all uri_char t"
  using code_points_units uri_escape_chars by (fastforce simp: encodeURIComponent_def list_all_iff)

lemma uri_char_not [simp]: "\<not> uri_char 59" "\<not> uri_char 61" "\<not> uri_char 32" "\<not> uri_char 34" "\<not> uri_char 43" "\<not> uri_char 44"
  by (simp_all add: uri_char_def uri_plain_def)

text \<open>Encoding and decoding are a codec on the well-formed texts.\<close>

interpretation uri: codec "\<lambda>s. the (encodeURIComponent s)" "\<lambda>t. the (decodeURIComponent t)" well_formed
  by unfold_locales (auto simp: encode_well_formed uri_roundtrip)

end
