(* ===== verification/Cookies.thy ===== *)
theory Cookies
  imports Js_Uri Comm_Format "HOL-Library.AList"
begin

text \<open>
  Cookies: \<open>dmtGetCookie\<close> and \<open>dmtDelCookie\<close> of \<open>src/html/resource/js/dmt.comm.js\<close> and the plugin
  \<open>src/html/resource/js/jquery.cookie.js\<close>. The jar holds the cookies the page sees, oldest first, as
  names and values; reading \<open>document.cookie\<close> joins them, and an assignment adds, replaces or (with
  a date in the past) removes one of them, as RFC 6265 says. All cookies have one path and
  domain, as in the calls of the console.
\<close>

section \<open>Dates of cookies\<close>

text \<open>\<open>Date.prototype.toUTCString\<close>, and the reading of a date in that form.\<close>

definition day_names :: "jstr list" where
  "day_names = map js [''Sun'', ''Mon'', ''Tue'', ''Wed'', ''Thu'', ''Fri'', ''Sat'']"

definition month_names :: "jstr list" where
  "month_names = map js [''Jan'', ''Feb'', ''Mar'', ''Apr'', ''May'', ''Jun'', ''Jul'', ''Aug'', ''Sep'', ''Oct'', ''Nov'', ''Dec'']"

definition four_digits :: "int \<Rightarrow> jstr" where
  "four_digits y = (let s = int_str y in replicate (4 - length s) 48 @ s)"

definition toUTCString :: "int \<Rightarrow> jstr" where
  "toUTCString t =
     (let d = day_of t
      in day_names ! nat ((d + 4) mod 7) @ js '', '' @ two_digits (nat (date_of_day d)) @ js '' '' @ month_names ! month_of_day d
         @ js '' '' @ four_digits (year_of_day d) @ js '' '' @ two_digits (nat (hour_of t)) @ js '':'' @ two_digits (nat (minute_of t))
         @ js '':'' @ two_digits (nat (second_of t)) @ js '' GMT'')"

fun position :: "'a \<Rightarrow> 'a list \<Rightarrow> nat option" where
  "position x [] = None"
| "position x (y # ys) = (if x = y then Some 0 else map_option Suc (position x ys))"

definition read_utc :: "jstr \<Rightarrow> int option" where
  "read_utc s =
     (let dt = digits_val 10 (take 2 (drop 5 s)); y = digits_val 10 (take 4 (drop 12 s));
          h = digits_val 10 (take 2 (drop 17 s)); mi = digits_val 10 (take 2 (drop 20 s)); sec = digits_val 10 (take 2 (drop 23 s))
      in map_option (\<lambda>m. make_date (make_day (int y) (int m) (int dt)) (make_time (int h) (int mi) (int sec) 0))
           (position (take 3 (drop 8 s)) month_names))"

section \<open>The jar\<close>

type_synonym jar = "(jstr \<times> jstr) list"

definition document_cookie :: "jar \<Rightarrow> jstr" where
  "document_cookie jar = join_with (js ''; '') (map (\<lambda>(n, v). n @ js ''='' @ v) jar)"

definition strip :: "jstr \<Rightarrow> jstr" where
  "strip s = rev (dropWhile (\<lambda>c. c = 32) (rev (dropWhile (\<lambda>c. c = 32) s)))"

definition cut_at :: "jchar \<Rightarrow> jstr \<Rightarrow> jstr \<times> jstr" where
  "cut_at d s = (takeWhile (\<lambda>c. c \<noteq> d) s, tl (dropWhile (\<lambda>c. c \<noteq> d) s))"

abbreviation put_cookie :: "jstr \<Rightarrow> jstr \<Rightarrow> jar \<Rightarrow> jar" where
  "put_cookie \<equiv> put_entry"

definition expires_of :: "jstr list \<Rightarrow> int option" where
  "expires_of attrs =
     (let es = filter (\<lambda>a. fst (cut_at 61 (strip a)) = js ''expires'') attrs
      in if es = [] then None else read_utc (snd (cut_at 61 (strip (last es)))))"

text \<open>\<open>document.cookie = text\<close> at the time \<open>now\<close>.\<close>

definition set_cookie :: "int \<Rightarrow> jstr \<Rightarrow> jar \<Rightarrow> jar" where
  "set_cookie now txt jar =
     (let parts = split_on 59 txt; pair = hd parts; n = strip (fst (cut_at 61 pair)); v = strip (snd (cut_at 61 pair))
      in if 61 \<notin> set pair then jar
         else (case expires_of (tl parts) of
                 Some t \<Rightarrow> if t \<le> now then filter (\<lambda>(m, _). m \<noteq> n) jar else put_cookie n v jar
               | None \<Rightarrow> put_cookie n v jar))"

section \<open>The console's functions\<close>

text \<open>
  The match of \<open>(^| )name=([^;]*)(;|$)\<close>: at the start of the text, or after a space, the earliest
  one; the name is taken as a literal text. The value ends before the next semicolon.
\<close>

fun match_after_space :: "jstr \<Rightarrow> jstr \<Rightarrow> jstr option" where
  "match_after_space p [] = None"
| "match_after_space p (c # s) =
     (if c = 32 \<and> starts_with p s then Some (takeWhile (\<lambda>d. d \<noteq> 59) (drop (length p) s)) else match_after_space p s)"

definition cookie_match :: "jstr \<Rightarrow> jstr \<Rightarrow> jstr option" where
  "cookie_match name s =
     (let p = name @ js ''=''
      in if starts_with p s then Some (takeWhile (\<lambda>d. d \<noteq> 59) (drop (length p) s)) else match_after_space p s)"

definition dmtGetCookie :: "jar \<Rightarrow> jstr \<Rightarrow> jstr option" where
  "dmtGetCookie jar name = map_option unescape (cookie_match name (document_cookie jar))"

definition dmtDelCookie :: "int \<Rightarrow> jstr \<Rightarrow> jar \<Rightarrow> jar" where
  "dmtDelCookie now name jar =
     (let exp = 7 * 24 * 60 * 60 * 1000; date = now - exp
      in case dmtGetCookie jar name of
           None \<Rightarrow> jar
         | Some cval \<Rightarrow> set_cookie now (name @ js ''='' @ cval @ js ''; expires='' @ toUTCString date @ js '';path=/'') jar)"

section \<open>The plugin\<close>

text \<open>Expiry as a number of days or as a date; the options of a call and the defaults.\<close>

datatype expiry = Days rat | At int

record cookie_options =
  co_expires :: "expiry option"
  co_path :: "jstr option"
  co_domain :: "jstr option"
  co_secure :: "bool option"

text \<open>
  \<open>config\<close>: the flags, the JSON functions (native ones, or those of \<open>json2.js\<close>) and the defaults. A
  parse error is \<open>None\<close>.
\<close>

record cookie_config =
  cc_raw :: bool
  cc_json :: bool
  cc_stringify :: "jsval \<Rightarrow> jstr"
  cc_parse :: "jstr \<Rightarrow> jsval option"
  cc_defaults :: cookie_options

definition cookie_encode :: "cookie_config \<Rightarrow> jstr \<Rightarrow> jstr option" where
  "cookie_encode cfg s = (if cc_raw cfg then Some s else encodeURIComponent s)"

definition cookie_decode :: "cookie_config \<Rightarrow> jstr \<Rightarrow> jstr option" where
  "cookie_decode cfg s = (if cc_raw cfg then Some s else decodeURIComponent s)"

definition stringifyCookieValue :: "cookie_config \<Rightarrow> jsval \<Rightarrow> jstr option" where
  "stringifyCookieValue cfg v = cookie_encode cfg (if cc_json cfg then cc_stringify cfg v else js_String v)"

text \<open>An exception inside gives \<open>undefined\<close>.\<close>

definition parseCookieValue :: "cookie_config \<Rightarrow> jstr \<Rightarrow> jsval" where
  "parseCookieValue cfg s0 =
     (let s = (if index_of [34] s0 = Some 0
               then replace_all [92, 92] [92] (replace_all [92, 34] [34] (butlast (tl s0))) else s0)
      in case decodeURIComponent (replace_all [43] [32] s) of
           None \<Rightarrow> Undefined
         | Some t \<Rightarrow>
             if cc_json cfg then (case cc_parse cfg t of Some v \<Rightarrow> v | None \<Rightarrow> Undefined) else Str t)"

definition cookie_read :: "cookie_config \<Rightarrow> (jsval \<Rightarrow> jsval) option \<Rightarrow> jstr \<Rightarrow> jsval" where
  "cookie_read cfg converter s =
     (let v = (if cc_raw cfg then Str s else parseCookieValue cfg s)
      in case converter of Some f \<Rightarrow> f v | None \<Rightarrow> v)"

definition extend_options :: "cookie_options \<Rightarrow> cookie_options \<Rightarrow> cookie_options" where
  "extend_options a b =
     \<lparr>co_expires = (case co_expires b of Some z \<Rightarrow> Some z | None \<Rightarrow> co_expires a),
          co_path = (case co_path b of Some z \<Rightarrow> Some z | None \<Rightarrow> co_path a),
          co_domain = (case co_domain b of Some z \<Rightarrow> Some z | None \<Rightarrow> co_domain a),
          co_secure = (case co_secure b of Some z \<Rightarrow> Some z | None \<Rightarrow> co_secure a)\<rparr>"

definition expires_at :: "int \<Rightarrow> expiry \<Rightarrow> int" where
  "expires_at now e = (case e of Days d \<Rightarrow> trunc_rat (of_int now + d * 86400000) | At t \<Rightarrow> t)"

text \<open>The text that is assigned to \<open>document.cookie\<close>; \<open>None\<close> is an exception.\<close>

definition cookie_text :: "cookie_config \<Rightarrow> int \<Rightarrow> jstr \<Rightarrow> jsval \<Rightarrow> cookie_options \<Rightarrow> jstr option" where
  "cookie_text cfg now key v opts =
     (let o' = extend_options (cc_defaults cfg) opts
      in case (cookie_encode cfg key, stringifyCookieValue cfg v) of
           (Some k, Some w) \<Rightarrow>
             Some (k @ js ''='' @ w
               @ (case co_expires o' of Some e \<Rightarrow> js ''; expires='' @ toUTCString (expires_at now e) | None \<Rightarrow> [])
               @ (case co_path o' of Some p \<Rightarrow> if p = [] then [] else js ''; path='' @ p | None \<Rightarrow> [])
               @ (case co_domain o' of Some d \<Rightarrow> if d = [] then [] else js ''; domain='' @ d | None \<Rightarrow> [])
               @ (if co_secure o' = Some True then js ''; secure'' else []))
         | _ \<Rightarrow> None)"

definition cookie_write :: "cookie_config \<Rightarrow> int \<Rightarrow> jstr \<Rightarrow> jsval \<Rightarrow> cookie_options \<Rightarrow> jar \<Rightarrow> (jar \<times> jstr) option" where
  "cookie_write cfg now key v opts jar =
     map_option (\<lambda>t. (set_cookie now t jar, t)) (cookie_text cfg now key v opts)"

text \<open>\<open>s.split('; ')\<close>.\<close>

function split_cookies :: "jstr \<Rightarrow> jstr list" where
  "split_cookies [] = [[]]"
| "split_cookies (c # s) =
     (if c = 59 \<and> s \<noteq> [] \<and> hd s = 32 then [] # split_cookies (tl s)
      else (case split_cookies s of w # ws \<Rightarrow> (c # w) # ws | [] \<Rightarrow> [[c]]))"
  by pat_completeness auto
termination
  by (relation "measure length") auto

definition name_of :: "cookie_config \<Rightarrow> jstr \<Rightarrow> jstr option" where
  "name_of cfg c = cookie_decode cfg (hd (split_on 61 c))"

definition value_of :: "jstr \<Rightarrow> jstr" where
  "value_of c = join_with [61] (tl (split_on 61 c))"

text \<open>The loop for a given key. The outer option is an exception of \<open>decode\<close>.\<close>

fun find_cookie :: "cookie_config \<Rightarrow> jstr \<Rightarrow> jstr list \<Rightarrow> jstr option option" where
  "find_cookie cfg key [] = Some None"
| "find_cookie cfg key (c # cs) =
     (case name_of cfg c of
        None \<Rightarrow> None
      | Some n \<Rightarrow> if n = key then Some (Some (value_of c)) else find_cookie cfg key cs)"

text \<open>The loop without a key: an object with all readable cookies, a later one replacing an earlier one.\<close>

fun all_cookies :: "cookie_config \<Rightarrow> jstr list \<Rightarrow> (jstr \<times> jsval) list \<Rightarrow> (jstr \<times> jsval) list option" where
  "all_cookies cfg [] r = Some r"
| "all_cookies cfg (c # cs) r =
     (case name_of cfg c of
        None \<Rightarrow> None
      | Some n \<Rightarrow>
          let v = cookie_read cfg None (value_of c)
          in all_cookies cfg cs (if v \<noteq> Undefined then AList.update n v r else r))"

definition cookie_list :: "jar \<Rightarrow> jstr list" where
  "cookie_list jar = (if document_cookie jar = [] then [] else split_cookies (document_cookie jar))"

definition cookie_get :: "cookie_config \<Rightarrow> (jsval \<Rightarrow> jsval) option \<Rightarrow> jstr \<Rightarrow> jar \<Rightarrow> jsval option" where
  "cookie_get cfg converter key jar =
     (if key = [] then map_option Obj (all_cookies cfg (cookie_list jar) [])
      else map_option (\<lambda>r. case r of Some c \<Rightarrow> cookie_read cfg converter c | None \<Rightarrow> Undefined)
             (find_cookie cfg key (cookie_list jar)))"

definition removeCookie :: "cookie_config \<Rightarrow> int \<Rightarrow> jstr \<Rightarrow> cookie_options \<Rightarrow> jar \<Rightarrow> (jar \<times> bool) option" where
  "removeCookie cfg now key opts jar =
     (case cookie_get cfg None key jar of
        None \<Rightarrow> None
      | Some v \<Rightarrow>
          if v = Undefined then Some (jar, False)
          else (case cookie_write cfg now key (Str []) (extend_options opts \<lparr>co_expires = Some (Days (- 1)), co_path = None,
                       co_domain = None, co_secure = None\<rparr>) jar of
                  None \<Rightarrow> None
                | Some (jar', _) \<Rightarrow> map_option (\<lambda>w. (jar', \<not> js_truthy w)) (cookie_get cfg None key jar')))"

section \<open>Dates can be read back\<close>

lemma position_nth: "distinct xs \<Longrightarrow> i < length xs \<Longrightarrow> position (xs ! i) xs = Some i"
proof (induction xs arbitrary: i)
  case (Cons x xs)
  then show ?case by (cases i) auto
qed simp

lemma month_name_facts: "distinct month_names" "length month_names = 12" "i < 12 \<Longrightarrow> length (month_names ! i) = 3"
proof -
  have "list_all (\<lambda>m. length m = 3) month_names" by (simp add: month_names_def js_def)
  moreover show l: "length month_names = 12" by (simp add: month_names_def)
  ultimately show "i < 12 \<Longrightarrow> length (month_names ! i) = 3" by (simp add: list_all_length)
  show "distinct month_names" by (simp add: month_names_def js_def)
qed

lemma day_name_length: "i < 7 \<Longrightarrow> length (day_names ! i) = 3"
proof -
  have "list_all (\<lambda>m. length m = 3) day_names" "length day_names = 7" by (simp_all add: day_names_def js_def)
  then show "i < 7 \<Longrightarrow> length (day_names ! i) = 3" by (simp add: list_all_length)
qed

lemma four_digits_facts:
  assumes "0 \<le> y" "y < 10000"
  shows "length (four_digits y) = 4" "digits_val 10 (four_digits y) = nat y"
proof -
  have "length (nat_digits (nat y)) \<le> 4" using length_nat_digits [of "nat y" 3] assms by simp
  then show "length (four_digits y) = 4" "digits_val 10 (four_digits y) = nat y"
    using assms by (simp_all add: four_digits_def int_str_def digits_val_replicate Let_def)
qed

lemma length3: "length xs = 3 \<Longrightarrow> \<exists>a b c. xs = [a, b, c]"
  by (auto simp: numeral_3_eq_3 length_Suc_conv)

text \<open>The years with four digits.\<close>

definition plain_year :: "int \<Rightarrow> bool" where
  "plain_year t = (0 \<le> year_of_day (day_of t) \<and> year_of_day (day_of t) < 10000)"

lemma read_utc_fields:
  assumes "length dn = 3" "length mn = 3" "length yy = 4"
  shows "read_utc (dn @ js '', '' @ two_digits d @ js '' '' @ mn @ js '' '' @ yy @ js '' '' @ two_digits h @ js '':''
      @ two_digits mi @ js '':'' @ two_digits s @ js '' GMT'')
    = map_option (\<lambda>m. make_date (make_day (int (digits_val 10 yy)) (int m) (int (digits_val 10 (two_digits d))))
        (make_time (int (digits_val 10 (two_digits h))) (int (digits_val 10 (two_digits mi))) (int (digits_val 10 (two_digits s))) 0))
        (position mn month_names)"
proof -
  obtain a b c e f g i j k l where "dn = [a, b, c]" "mn = [e, f, g]" "yy = [i, j, k, l]"
    using length3 [OF assms(1)] length3 [OF assms(2)] length4 [OF assms(3)] by blast
  moreover obtain d1 d2 h1 h2 m1 m2 s1 s2 where "two_digits d = [d1, d2]" "two_digits h = [h1, h2]"
      "two_digits mi = [m1, m2]" "two_digits s = [s1, s2]" by (simp add: two_digits_def)
  ultimately show ?thesis by (simp add: read_utc_def js_def Let_def numeral_eq_Suc)
qed

lemma read_utc_toUTCString:
  assumes "plain_year t"
  shows "read_utc (toUTCString t) = Some (t - t mod 1000)"
proof -
  let ?d = "day_of t"
  note y = four_digits_facts [of "year_of_day ?d"]
  have m: "month_of_day ?d < 12" using month_bounds [of ?d] by simp
  have w: "nat ((?d + 4) mod 7) < 7" by (simp add: nat_less_iff)
  have dt: "nat (date_of_day ?d) < 100" "int (nat (date_of_day ?d)) = date_of_day ?d" using date_bounds [of ?d] by auto
  have "t = make_date ?d (make_time (hour_of t) (minute_of t) (second_of t) (t mod 1000))"
    using time_parts [of t] by (simp add: milli_of_def)
  then have cut: "make_date ?d (make_time (hour_of t) (minute_of t) (second_of t) 0) = t - t mod 1000"
    by (simp add: make_date_def make_time_def)
  have "read_utc (toUTCString t) = map_option (\<lambda>m. make_date (make_day (year_of_day ?d) (int m) (date_of_day ?d))
      (make_time (hour_of t) (minute_of t) (second_of t) 0)) (position (month_names ! month_of_day ?d) month_names)"
    unfolding toUTCString_def Let_def using assms y dt m w time_ranges [of t]
    by (subst read_utc_fields) (simp_all add: day_name_length month_name_facts plain_year_def digits_val_two nat_less_iff)
  then show ?thesis
    using position_nth [OF month_name_facts(1), of "month_of_day ?d"] m
    by (simp add: month_name_facts make_day_of_day cut)
qed

section \<open>Reading a jar\<close>

text \<open>What the console relies on: a reader finds in the text of a jar what a lookup finds in the jar.\<close>

locale cookie_reader =
  fixes get :: "jstr \<Rightarrow> jar \<Rightarrow> 'v option" and dec :: "jstr \<Rightarrow> 'v" and key_name :: "jstr \<Rightarrow> jstr"
    and key_ok :: "jstr \<Rightarrow> bool" and jar_ok :: "jar \<Rightarrow> bool"
  assumes get_jar: "jar_ok jar \<Longrightarrow> key_ok k \<Longrightarrow> get k jar = map_option dec (map_of jar (key_name k))"
begin

lemma get_put: "jar_ok (put_cookie (key_name k) v jar) \<Longrightarrow> key_ok k \<Longrightarrow> get k (put_cookie (key_name k) v jar) = Some (dec v)"
proof -
  have "map_of (put_cookie n v jar) n = Some v" for n by (induction n v jar rule: put_entry.induct) auto
  then show "jar_ok (put_cookie (key_name k) v jar) \<Longrightarrow> key_ok k \<Longrightarrow> get k (put_cookie (key_name k) v jar) = Some (dec v)"
    using get_jar [of "put_cookie (key_name k) v jar" k] by simp
qed

lemma get_deleted:
  assumes "jar_ok (filter (\<lambda>(m, _). m \<noteq> key_name k) jar)" "key_ok k"
  shows "get k (filter (\<lambda>(m, _). m \<noteq> key_name k) jar) = None"
proof -
  have "map_of (filter (\<lambda>(m, _). m \<noteq> n) jar) n = None" for n by (induction jar) auto
  then show ?thesis using get_jar [OF assms] by simp
qed

lemma get_inject:
  assumes "jar_ok jar" "jar_ok jar'" "key_ok k" "map_of jar = map_of jar'"
  shows "get k jar = get k jar'"
  using assms by (simp add: get_jar)

end

text \<open>A jar whose names have only the characters of encoded texts and whose values have no semicolon.\<close>

definition name_ok :: "jstr \<Rightarrow> bool" where
  "name_ok n = (n \<noteq> [] \<and> list_all uri_char n)"

definition jar_text_ok :: "jar \<Rightarrow> bool" where
  "jar_text_ok jar = list_all (\<lambda>(n, v). name_ok n \<and> 59 \<notin> set v) jar"

definition jar_plain :: "jar \<Rightarrow> bool" where
  "jar_plain jar = list_all (\<lambda>(n, v). name_ok n \<and> 59 \<notin> set v \<and> 32 \<notin> set v) jar"

text \<open>A jar whose names are encoded texts.\<close>

definition jar_encoded :: "jar \<Rightarrow> bool" where
  "jar_encoded jar = list_all (\<lambda>(n, v). (\<exists>k. k \<noteq> [] \<and> encodeURIComponent k = Some n) \<and> 59 \<notin> set v) jar"

lemma name_ok_chars: "name_ok n \<Longrightarrow> 59 \<notin> set n \<and> 61 \<notin> set n \<and> 32 \<notin> set n \<and> n \<noteq> []"
  using uri_char_not by (auto simp: name_ok_def list_all_iff)

lemma uri_escape_not_Nil: "uri_escape cp \<noteq> []"
  by (simp add: uri_escape_def utf8_bytes_def percent_def)

lemma encode_not_Nil: "encodeURIComponent k = Some n \<Longrightarrow> k \<noteq> [] \<Longrightarrow> name_ok n"
  using encode_chars [of k n] code_points_units [of k]
  by (auto simp: encodeURIComponent_def name_ok_def uri_escape_not_Nil)

definition pair_of :: "jstr \<times> jstr \<Rightarrow> jstr" where
  "pair_of = (\<lambda>(n, v). n @ 61 # v)"

lemma document_cookie_pairs: "document_cookie jar = join_with [59, 32] (map pair_of jar)"
  by (simp add: document_cookie_def pair_of_def js_def case_prod_unfold)

lemma split_cookies_not_Nil [simp]: "split_cookies s \<noteq> []"
  by (induction s rule: split_cookies.induct) (auto split: list.splits)

lemma split_cookies_one: "59 \<notin> set w \<Longrightarrow> split_cookies w = [w]"
  by (induction w) auto

lemma split_cookies_append: "59 \<notin> set w \<Longrightarrow> split_cookies (w @ 59 # 32 # s) = w # split_cookies s"
  by (induction w) auto

lemma split_cookies_join: "ws \<noteq> [] \<Longrightarrow> \<forall>w \<in> set ws. 59 \<notin> set w \<Longrightarrow> split_cookies (join_with [59, 32] ws) = ws"
  by (induction "[59, 32] :: jstr" ws rule: join_with.induct) (auto simp: split_cookies_one split_cookies_append)

lemma cookie_list_jar:
  assumes "jar_text_ok jar"
  shows "cookie_list jar = map pair_of jar"
proof (cases jar)
  case Nil
  then show ?thesis by (simp add: cookie_list_def document_cookie_def)
next
  case (Cons c cs)
  have ok: "\<forall>w \<in> set (map pair_of jar). 59 \<notin> set w"
    using assms name_ok_chars by (fastforce simp: jar_text_ok_def list_all_iff pair_of_def)
  have "document_cookie jar \<noteq> []"
    using Cons by (cases cs) (auto simp: document_cookie_pairs pair_of_def split: prod.splits)
  then show ?thesis
    using Cons split_cookies_join [OF _ ok] by (simp add: cookie_list_def document_cookie_pairs)
qed

lemma split_on_hd_tl: "61 \<notin> set n \<Longrightarrow> split_on 61 (n @ 61 # v) = n # split_on 61 v"
  by (rule split_on_append)

lemma value_of_pair: "61 \<notin> set n \<Longrightarrow> value_of (n @ 61 # v) = v"
  by (simp add: value_of_def split_on_hd_tl)

lemma find_cookie_jar:
  assumes "\<not> cc_raw cfg" "jar_encoded jar" "encodeURIComponent key = Some n"
  shows "find_cookie cfg key (map pair_of jar) = Some (map_of jar n)"
  using assms(2)
proof (induction jar)
  case (Cons c jar)
  obtain m v where c: "c = (m, v)" by (cases c)
  with Cons.prems obtain k where k: "k \<noteq> []" "encodeURIComponent k = Some m" by (auto simp: jar_encoded_def)
  have m: "61 \<notin> set m" using encode_not_Nil [OF k(2,1)] name_ok_chars by blast
  have eq: "k = key \<longleftrightarrow> m = n"
    using uri_roundtrip [OF k(2)] uri_roundtrip [OF assms(3)] k(2) assms(3) by auto
  have "name_of cfg (pair_of c) = Some k"
    using assms(1) uri_roundtrip [OF k(2)] m by (simp add: name_of_def cookie_decode_def c pair_of_def split_on_hd_tl)
  with Cons eq m show ?case by (auto simp: c pair_of_def value_of_pair jar_encoded_def)
qed simp

lemma jar_encoded_text: "jar_encoded jar \<Longrightarrow> jar_text_ok jar"
  using encode_not_Nil by (fastforce simp: jar_encoded_def jar_text_ok_def list_all_iff)

section \<open>The console's reader\<close>

lemma starts_with_append: "starts_with p (p @ s)"
  by (simp add: starts_with_iff)

lemma starts_with_name:
  assumes "61 \<notin> set n" "61 \<notin> set m"
  shows "starts_with (n @ [61]) (m @ 61 # v) \<longleftrightarrow> n = m"
proof -
  have "n = m" if "m @ 61 # v = n @ 61 # t" for t
    using that assms by (metis split_on_hd_tl list.inject)
  then show ?thesis by (auto simp: starts_with_iff)
qed

lemma match_skip: "32 \<notin> set w \<Longrightarrow> match_after_space p (w @ s) = match_after_space p s"
  by (induction w) auto

lemma take_value: "59 \<notin> set v \<Longrightarrow> takeWhile (\<lambda>d. d \<noteq> 59) (v @ 59 # s) = v" "59 \<notin> set v \<Longrightarrow> takeWhile (\<lambda>d. d \<noteq> 59) v = v"
  by (induction v) auto

definition rest_text :: "jar \<Rightarrow> jstr" where
  "rest_text jar = (if jar = [] then [] else 59 # 32 # document_cookie jar)"

lemma document_cookie_Cons: "document_cookie ((m, v) # jar) = m @ 61 # v @ rest_text jar"
  by (cases jar) (simp_all add: document_cookie_pairs pair_of_def rest_text_def case_prod_unfold)

lemma match_document:
  assumes "jar_plain jar" "name_ok n"
  shows "match_after_space (n @ [61]) (32 # document_cookie jar) = map_of jar n"
  using assms(1)
proof (induction jar)
  case Nil
  then show ?case by (cases n) (simp_all add: document_cookie_def)
next
  case (Cons c jar)
  obtain m v where c: "c = (m, v)" by (cases c)
  have m: "name_ok m" "59 \<notin> set v" "32 \<notin> set v" "jar_plain jar" using Cons.prems by (simp_all add: jar_plain_def c)
  have nm: "starts_with (n @ [61]) (document_cookie (c # jar)) \<longleftrightarrow> n = m"
    unfolding c document_cookie_Cons using name_ok_chars [OF assms(2)] name_ok_chars [OF m(1)] by (intro starts_with_name) auto
  have v: "takeWhile (\<lambda>d. d \<noteq> 59) (v @ rest_text jar) = v"
    using m(2) by (simp add: rest_text_def take_value)
  have "match_after_space (n @ [61]) (rest_text jar) = map_of jar n"
    using Cons.IH [OF m(4)] by (simp add: rest_text_def del: match_after_space.simps(2)) (simp only: match_after_space.simps(2), simp)
  moreover have "match_after_space (n @ [61]) (document_cookie (c # jar)) = match_after_space (n @ [61]) (rest_text jar)"
    using match_skip [of "m @ 61 # v" "n @ [61]" "rest_text jar"] m name_ok_chars [OF m(1)] by (simp add: c document_cookie_Cons)
  ultimately show ?case
    using nm v by (auto simp: c document_cookie_Cons)
qed

lemma cookie_match_jar:
  assumes "jar_plain jar" "name_ok n"
  shows "cookie_match n (document_cookie jar) = map_of jar n"
  using match_document [OF assms] by (simp add: cookie_match_def js_def Let_def)

interpretation console: cookie_reader "\<lambda>k jar. dmtGetCookie jar k" unescape "\<lambda>k. k" name_ok jar_plain
  by unfold_locales (simp add: dmtGetCookie_def cookie_match_jar)

section \<open>The plugin's reader\<close>

definition default_config :: "(jsval \<Rightarrow> jstr) \<Rightarrow> (jstr \<Rightarrow> jsval option) \<Rightarrow> cookie_config" where
  "default_config sf pf = \<lparr>cc_raw = False, cc_json = False, cc_stringify = sf, cc_parse = pf,
     cc_defaults = \<lparr>co_expires = None, co_path = None, co_domain = None, co_secure = None\<rparr>\<rparr>"

definition plugin_find :: "cookie_config \<Rightarrow> jstr \<Rightarrow> jar \<Rightarrow> jstr option" where
  "plugin_find cfg k jar = Option.bind (find_cookie cfg k (cookie_list jar)) (\<lambda>r. r)"

definition key_ok :: "jstr \<Rightarrow> bool" where
  "key_ok k = (k \<noteq> [] \<and> well_formed k)"

interpretation plugin: cookie_reader "plugin_find (default_config sf pf)" "\<lambda>v. v" "\<lambda>k. the (encodeURIComponent k)" key_ok jar_encoded
  for sf pf
proof unfold_locales
  fix jar k assume a: "jar_encoded jar" "key_ok k"
  then obtain n where n: "encodeURIComponent k = Some n" by (auto simp: key_ok_def encode_well_formed)
  have "find_cookie (default_config sf pf) k (map pair_of jar) = Some (map_of jar n)"
    by (rule find_cookie_jar [OF _ a(1) n]) (simp add: default_config_def)
  then show "plugin_find (default_config sf pf) k jar = map_option (\<lambda>v. v) (map_of jar (the (encodeURIComponent k)))"
    using n cookie_list_jar [OF jar_encoded_text [OF a(1)]] by (simp add: plugin_find_def option.map_ident)
qed

lemma cookie_get_find:
  assumes "jar_encoded jar" "key_ok k"
  shows "cookie_get (default_config sf pf) cv k jar =
    Some (case plugin_find (default_config sf pf) k jar of
            Some c \<Rightarrow> cookie_read (default_config sf pf) cv c | None \<Rightarrow> Undefined)"
proof -
  obtain n where n: "encodeURIComponent k = Some n" using assms(2) by (auto simp: key_ok_def encode_well_formed)
  have "find_cookie (default_config sf pf) k (map pair_of jar) = Some (map_of jar n)"
    by (rule find_cookie_jar [OF _ assms(1) n]) (simp add: default_config_def)
  then show ?thesis
    using assms(2) cookie_list_jar [OF jar_encoded_text [OF assms(1)]]
    by (simp add: cookie_get_def plugin_find_def key_ok_def)
qed

section \<open>Assigning a cookie with a date\<close>

lemma cut_at_pair: "d \<notin> set n \<Longrightarrow> cut_at d (n @ d # v) = (n, v)"
  by (induction n) (auto simp: cut_at_def)

lemma strip_space: "strip (32 # s) = strip s"
  by (simp add: strip_def)

lemma dropWhile_spaces: "s = [] \<or> hd s \<noteq> 32 \<Longrightarrow> dropWhile (\<lambda>c. c = 32) s = (s :: jstr)"
  by (cases s) auto

lemma strip_id: "hd s \<noteq> 32 \<Longrightarrow> last s \<noteq> 32 \<Longrightarrow> strip s = s"
  by (simp add: strip_def dropWhile_spaces hd_rev disjI2)

lemma split_on_prefix: "d \<notin> set a \<Longrightarrow> split_on d (a @ s) = (a @ hd (split_on d s)) # tl (split_on d s)"
proof (induction a)
  case Nil
  then show ?case by (cases "split_on d s") simp_all
qed auto

lemma split_on_sep: "split_on d (a @ d # s) = split_on d a @ split_on d s"
  by (induction a) (auto split: list.splits)

lemma day_names_chars: "i < 7 \<Longrightarrow> 59 \<notin> set (day_names ! i) \<and> hd (day_names ! i) \<noteq> 32"
proof -
  have "list_all (\<lambda>m. 59 \<notin> set m \<and> hd m \<noteq> 32) day_names" "length day_names = 7" by (simp_all add: day_names_def js_def)
  then show "i < 7 \<Longrightarrow> 59 \<notin> set (day_names ! i) \<and> hd (day_names ! i) \<noteq> 32" by (simp add: list_all_length)
qed

lemma month_names_chars: "i < 12 \<Longrightarrow> 59 \<notin> set (month_names ! i)"
proof -
  have "list_all (\<lambda>m. 59 \<notin> set m) month_names" "length month_names = 12" by (simp_all add: month_names_def js_def)
  then show "i < 12 \<Longrightarrow> 59 \<notin> set (month_names ! i)" by (simp add: list_all_length)
qed

lemma two_digits_chars: "59 \<notin> set (two_digits n)"
proof -
  have "is_digit (of_nat (48 + n div 10 mod 10))" "is_digit (of_nat (48 + n mod 10))" by (rule is_digit_dec, simp)+
  then show ?thesis by (auto simp: two_digits_def is_digit_def simp del: of_nat_add)
qed

lemma four_digits_chars: "59 \<notin> set (four_digits y)"
  using nat_digits_all_digits [of 59] by (auto simp: four_digits_def int_str_def js_def is_digit_def Let_def)

lemma toUTCString_chars: "59 \<notin> set (toUTCString t)" "last (toUTCString t) \<noteq> 32"
proof -
  have w: "nat ((day_of t + 4) mod 7) < 7" by (simp add: nat_less_iff)
  have m: "month_of_day (day_of t) < 12" using month_bounds [of "day_of t"] by simp
  show "59 \<notin> set (toUTCString t)"
    using day_names_chars [OF w] month_names_chars [OF m] two_digits_chars four_digits_chars
    by (simp add: toUTCString_def js_def Let_def)
  show "last (toUTCString t) \<noteq> 32" by (simp add: toUTCString_def js_def Let_def)
qed

lemma expires_of_dated:
  assumes "plain_year t" "path = js ''path=/'' \<or> path = js '' path=/''"
  shows "expires_of (as @ [js '' expires='' @ toUTCString t, path]) = Some (t - t mod 1000)"
proof -
  have s: "strip (js '' expires='' @ toUTCString t) = js ''expires='' @ toUTCString t"
    using strip_id [of "js ''expires='' @ toUTCString t"] toUTCString_chars(2) [of t]
    by (simp add: js_def strip_space last_append toUTCString_def Let_def)
  have c: "cut_at 61 (js ''expires='' @ toUTCString t) = (js ''expires'', toUTCString t)"
    using cut_at_pair [of 61 "js ''expires''" "toUTCString t"] by (simp add: js_def)
  have p: "fst (cut_at 61 (strip path)) \<noteq> js ''expires''"
    using assms(2) by (auto simp: js_def strip_def cut_at_def)
  have f: "filter (\<lambda>a. fst (cut_at 61 (strip a)) = js ''expires'') (as @ [js '' expires='' @ toUTCString t, path])
      = filter (\<lambda>a. fst (cut_at 61 (strip a)) = js ''expires'') as @ [js '' expires='' @ toUTCString t]"
    using p by (simp add: s c)
  show ?thesis
    unfolding expires_of_def f by (simp add: s c read_utc_toUTCString [OF assms(1)])
qed

lemma set_cookie_dated:
  assumes "name_ok n" "plain_year t" "path = js ''path=/'' \<or> path = js '' path=/''"
  shows "set_cookie now (n @ 61 # w @ js ''; expires='' @ toUTCString t @ 59 # path) jar =
    (if t - t mod 1000 \<le> now then filter (\<lambda>(m, _). m \<noteq> n) jar
     else put_cookie n (strip (hd (split_on 59 w))) jar)"
proof -
  have n: "59 \<notin> set n" "61 \<notin> set n" "32 \<notin> set n" "n \<noteq> []" using name_ok_chars [OF assms(1)] by auto
  have path: "split_on 59 path = [path]" using assms(3) by (auto simp: js_def)
  have "split_on 59 (n @ 61 # w @ js ''; expires='' @ toUTCString t @ 59 # path)
      = split_on 59 (n @ 61 # w) @ [js '' expires='' @ toUTCString t, path]"
    using split_on_sep [of 59 "n @ 61 # w" "js '' expires='' @ toUTCString t @ 59 # path"]
      split_on_append [of 59 "js '' expires='' @ toUTCString t" path] path toUTCString_chars(1) [of t] by (simp add: js_def)
  moreover have "split_on 59 (n @ 61 # w) = (n @ 61 # hd (split_on 59 w)) # tl (split_on 59 w)"
    using split_on_prefix [of 59 "n @ [61]" w] n by simp
  ultimately have parts: "split_on 59 (n @ 61 # w @ js ''; expires='' @ toUTCString t @ 59 # path)
      = (n @ 61 # hd (split_on 59 w)) # tl (split_on 59 w) @ [js '' expires='' @ toUTCString t, path]" by simp
  have "strip n = n" using n by (intro strip_id) (auto dest: hd_in_set last_in_set)
  then show ?thesis
    unfolding set_cookie_def parts Let_def using n
    by (simp add: cut_at_pair expires_of_dated [OF assms(2,3)])
qed

section \<open>Writing, reading, removing\<close>

text \<open>The options of the console's calls: days and the path of the whole site.\<close>

definition console_options :: "rat \<Rightarrow> cookie_options" where
  "console_options d = \<lparr>co_expires = Some (Days d), co_path = Some (js ''/''), co_domain = None, co_secure = None\<rparr>"

lemma defaults_extend: "extend_options (cc_defaults (default_config sf pf)) opts = opts"
  by (simp add: extend_options_def default_config_def split: option.splits)

lemma cookie_text_console:
  assumes "encodeURIComponent key = Some n" "encodeURIComponent s = Some w"
  shows "cookie_text (default_config sf pf) now key (Str s) (console_options d) =
    Some (n @ 61 # w @ js ''; expires='' @ toUTCString (expires_at now (Days d)) @ 59 # js '' path=/'')"
  using assms unfolding cookie_text_def defaults_extend
  by (simp add: cookie_encode_def stringifyCookieValue_def console_options_def default_config_def js_def Let_def)

lemma jar_encoded_put:
  assumes "jar_encoded jar" "encodeURIComponent k = Some n" "k \<noteq> []" "59 \<notin> set v"
  shows "jar_encoded (put_cookie n v jar)"
  using assms by (induction n v jar rule: put_entry.induct) (auto simp: jar_encoded_def)

lemma jar_encoded_filter: "jar_encoded jar \<Longrightarrow> jar_encoded (filter P jar)"
  by (auto simp: jar_encoded_def list_all_iff)

lemma encoded_value:
  assumes "encodeURIComponent s = Some w"
  shows "59 \<notin> set w" "strip (hd (split_on 59 w)) = w" "cookie_read (default_config sf pf) None w = Str s"
proof -
  have c: "list_all uri_char w" by (rule encode_chars [OF assms])
  then have no: "59 \<notin> set w" "32 \<notin> set w" "34 \<notin> set w" "43 \<notin> set w"
    using uri_char_not by (auto simp: list_all_iff)
  then show "59 \<notin> set w" by simp
  show "strip (hd (split_on 59 w)) = w"
  proof (cases "w = []")
    case False
    then have "hd w \<noteq> 32" "last w \<noteq> 32" using no(2) hd_in_set last_in_set by metis+
    then show ?thesis using no(1) by (simp add: split_on_no_sep strip_id)
  qed (simp add: strip_def)
  have q: "index_of [34] w \<noteq> Some 0" using no(3) by (cases w) auto
  show "cookie_read (default_config sf pf) None w = Str s"
    using q no(4) uri_roundtrip [OF assms]
    by (simp add: cookie_read_def parseCookieValue_def default_config_def replace_all_absent Let_def)
qed

text \<open>What a call of the console writes into the jar.\<close>

lemma cookie_write_console:
  assumes "key_ok key" "encodeURIComponent key = Some n" "encodeURIComponent s = Some w" "0 < d"
    "plain_year (now + int d * 86400000)"
  shows "\<exists>t. cookie_write (default_config sf pf) now key (Str s) (console_options (of_nat d)) jar = Some (put_cookie n w jar, t)"
proof -
  let ?t = "now + int d * 86400000"
  have nk: "name_ok n" using encode_not_Nil [OF assms(2)] assms(1) by (simp add: key_ok_def)
  have e: "expires_at now (Days (of_nat d)) = ?t"
    using trunc_of_int [of ?t] by (simp add: expires_at_def)
  have "?t mod 1000 < 1000" "86400000 \<le> int d * 86400000" using assms(4) by simp_all
  then have late: "\<not> ?t - ?t mod 1000 \<le> now" by linarith
  then show ?thesis
    using set_cookie_dated [OF nk assms(5), of "js '' path=/''" now w jar] encoded_value(2) [OF assms(3)]
      cookie_text_console [OF assms(2,3), of sf pf now "of_nat d"] e
    by (simp add: cookie_write_def)
qed

lemma cookie_expire_console:
  assumes "key_ok key" "encodeURIComponent key = Some n" "plain_year (now - 86400000)"
  shows "\<exists>t. cookie_write (default_config sf pf) now key (Str []) (console_options (- 1)) jar
    = Some (filter (\<lambda>(m, _). m \<noteq> n) jar, t)"
proof -
  let ?t = "now - 86400000"
  have nk: "name_ok n" using encode_not_Nil [OF assms(2)] assms(1) by (simp add: key_ok_def)
  have w: "encodeURIComponent [] = Some []" by (simp add: encodeURIComponent_def)
  have e: "expires_at now (Days (- 1)) = ?t" using trunc_of_int [of ?t] by (simp add: expires_at_def)
  have past: "?t - ?t mod 1000 \<le> now" using pos_mod_sign [of 1000 ?t] by linarith
  then show ?thesis
    using set_cookie_dated [OF nk assms(3), of "js '' path=/''" now "[]" jar]
      cookie_text_console [OF assms(2) w, of sf pf now "- 1"] e
    by (simp add: cookie_write_def)
qed

section \<open>The jar as a store\<close>

text \<open>The abstract store behind a jar: what text a key holds.\<close>

definition store_of :: "cookie_config \<Rightarrow> jar \<Rightarrow> (jstr \<rightharpoonup> jstr)" where
  "store_of cfg jar k =
     (if key_ok k then
        (case map_of jar (the (encodeURIComponent k)) of
           None \<Rightarrow> None
         | Some w \<Rightarrow> (case cookie_read cfg None w of Str s \<Rightarrow> Some s | _ \<Rightarrow> None))
      else None)"

lemma cookie_read_default:
  "cookie_read (default_config sf pf) None w = Undefined \<or> (\<exists>s. cookie_read (default_config sf pf) None w = Str s)"
  by (auto simp: cookie_read_def parseCookieValue_def default_config_def Let_def split: option.splits)

lemma cookie_get_store:
  assumes "jar_encoded jar" "key_ok k"
  shows "cookie_get (default_config sf pf) None k jar =
    Some (case store_of (default_config sf pf) jar k of Some s \<Rightarrow> Str s | None \<Rightarrow> Undefined)"
proof -
  obtain n where n: "encodeURIComponent k = Some n" using assms(2) by (auto simp: key_ok_def encode_well_formed)
  have f: "plugin_find (default_config sf pf) k jar = map_of jar n"
    using plugin.get_jar [OF assms, of sf pf] n by (simp add: option.map_ident)
  show ?thesis
  proof (cases "map_of jar n")
    case None
    then show ?thesis using cookie_get_find [OF assms, of sf pf None] f n by (simp add: store_of_def)
  next
    case (Some w)
    then show ?thesis
      using cookie_get_find [OF assms, of sf pf None] f n assms(2) cookie_read_default [of sf pf w] by (auto simp: store_of_def)
  qed
qed

lemma encode_inject: "encodeURIComponent k = Some n \<Longrightarrow> encodeURIComponent k' = Some n \<Longrightarrow> k = k'"
  by (auto dest!: uri_roundtrip)

lemma store_put:
  assumes "key_ok key" "encodeURIComponent key = Some n" "encodeURIComponent s = Some w"
  shows "store_of (default_config sf pf) (put_cookie n w jar) = (store_of (default_config sf pf) jar)(key \<mapsto> s)"
proof
  fix k show "store_of (default_config sf pf) (put_cookie n w jar) k = ((store_of (default_config sf pf) jar)(key \<mapsto> s)) k"
  proof (cases "key_ok k \<and> encodeURIComponent k = Some n")
    case True
    then show ?thesis
      using assms encode_inject [of k n key] by (simp add: store_of_def map_of_put_entry encoded_value(3))
  next
    case False
    then have "k \<noteq> key" using assms by auto
    then show ?thesis using False assms(1) by (auto simp: store_of_def map_of_put_entry key_ok_def encode_well_formed)
  qed
qed

lemma map_of_filter_name: "map_of (filter (\<lambda>(m, _). m \<noteq> n) jar) = (map_of jar)(n := None)"
  by (induction jar) (auto simp: fun_eq_iff)

lemma store_delete:
  assumes "key_ok key" "encodeURIComponent key = Some n"
  shows "store_of (default_config sf pf) (filter (\<lambda>(m, _). m \<noteq> n) jar) = (store_of (default_config sf pf) jar)(key := None)"
proof
  fix k show "store_of (default_config sf pf) (filter (\<lambda>(m, _). m \<noteq> n) jar) k = ((store_of (default_config sf pf) jar)(key := None)) k"
  proof (cases "key_ok k \<and> encodeURIComponent k = Some n")
    case True
    then show ?thesis using assms encode_inject [of k n key] by (simp add: store_of_def map_of_filter_name)
  next
    case False
    then have "k \<noteq> key" using assms by auto
    then show ?thesis using False by (auto simp: store_of_def map_of_filter_name key_ok_def encode_well_formed)
  qed
qed

text \<open>
  C24: \<open>$.cookie\<close> implements a store of texts by keys. For a jar with encoded names, reading a key is
  looking it up in the abstract store, and writing a well-formed text for a positive number of
  days succeeds and updates exactly this key; the jar keeps its form.
\<close>

theorem cookie_store_refines:
  assumes "jar_encoded jar" "key_ok key" "well_formed s" "0 < d" "plain_year (now + int d * 86400000)"
  shows "cookie_get (default_config sf pf) None key jar =
      Some (case store_of (default_config sf pf) jar key of Some s \<Rightarrow> Str s | None \<Rightarrow> Undefined)
    \<and> (\<exists>jar' t. cookie_write (default_config sf pf) now key (Str s) (console_options (of_nat d)) jar = Some (jar', t)
         \<and> jar_encoded jar'
         \<and> store_of (default_config sf pf) jar' = (store_of (default_config sf pf) jar)(key \<mapsto> s))"
proof
  show "cookie_get (default_config sf pf) None key jar =
      Some (case store_of (default_config sf pf) jar key of Some s \<Rightarrow> Str s | None \<Rightarrow> Undefined)"
    by (rule cookie_get_store [OF assms(1,2)])
  obtain n w where n: "encodeURIComponent key = Some n" and w: "encodeURIComponent s = Some w"
    using assms(2,3) by (auto simp: key_ok_def encode_well_formed)
  have "jar_encoded (put_cookie n w jar)"
    using jar_encoded_put [OF assms(1) n _ encoded_value(1) [OF w]] assms(2) by (simp add: key_ok_def)
  then show "\<exists>jar' t. cookie_write (default_config sf pf) now key (Str s) (console_options (of_nat d)) jar = Some (jar', t)
         \<and> jar_encoded jar' \<and> store_of (default_config sf pf) jar' = (store_of (default_config sf pf) jar)(key \<mapsto> s)"
    using cookie_write_console [OF assms(2) n w assms(4,5)] store_put [OF assms(2) n w] by blast
qed

text \<open>
  What \<open>$.cookie\<close> writes, \<open>$.cookie\<close> reads: for every non-empty well-formed key and well-formed
  text, in a jar with encoded names, writing with a positive number of days succeeds and the key
  then reads as exactly that text.
\<close>

theorem cookie_roundtrip:
  assumes "jar_encoded jar" "key_ok key" "well_formed s" "0 < d" "plain_year (now + int d * 86400000)"
  shows "\<exists>jar' t. cookie_write (default_config sf pf) now key (Str s) (console_options (of_nat d)) jar = Some (jar', t)
    \<and> cookie_get (default_config sf pf) None key jar' = Some (Str s)"
proof -
  obtain n w where n: "encodeURIComponent key = Some n" and w: "encodeURIComponent s = Some w"
    using assms(2,3) by (auto simp: key_ok_def encode_well_formed)
  have ok: "jar_encoded (put_cookie n w jar)"
    using jar_encoded_put [OF assms(1) n _ encoded_value(1) [OF w]] assms(2) by (simp add: key_ok_def)
  have "cookie_get (default_config sf pf) None key (put_cookie n w jar) = Some (Str s)"
    using cookie_get_find [OF ok assms(2)] plugin.get_put [of key w jar sf pf] ok n assms(2) encoded_value(3) [OF w] by simp
  then show ?thesis using cookie_write_console [OF assms(2) n w assms(4,5)] by blast
qed

text \<open>
  \<open>$.removeCookie\<close> on a readable cookie succeeds, returns true, and afterwards the key reads as
  undefined; in the abstract store exactly this key is deleted.
\<close>

theorem cookie_removed:
  assumes "jar_encoded jar" "key_ok key" "cookie_get (default_config sf pf) None key jar = Some v" "v \<noteq> Undefined"
    and "plain_year (now - 86400000)"
  shows "\<exists>jar'. removeCookie (default_config sf pf) now key (console_options 0) jar = Some (jar', True)
    \<and> cookie_get (default_config sf pf) None key jar' = Some Undefined
    \<and> store_of (default_config sf pf) jar' = (store_of (default_config sf pf) jar)(key := None)"
proof -
  obtain n where n: "encodeURIComponent key = Some n" using assms(2) by (auto simp: key_ok_def encode_well_formed)
  have x: "extend_options (console_options 0) \<lparr>co_expires = Some (Days (- 1)), co_path = None, co_domain = None, co_secure = None\<rparr>
      = console_options (- 1)" by (simp add: extend_options_def console_options_def)
  have ok: "jar_encoded (filter (\<lambda>(m, _). m \<noteq> n) jar)" by (rule jar_encoded_filter [OF assms(1)])
  have "cookie_get (default_config sf pf) None key (filter (\<lambda>(m, _). m \<noteq> n) jar) = Some Undefined"
    using cookie_get_find [OF ok assms(2)] plugin.get_deleted [of key jar sf pf] ok n assms(2) by simp
  then show ?thesis
    using cookie_expire_console [OF assms(2) n assms(5), of sf pf jar] x assms(3,4) store_delete [OF assms(2) n]
    by (auto simp: removeCookie_def js_truthy_def)
qed

text \<open>
  \<open>dmtDelCookie\<close> removes a cookie for \<open>dmtGetCookie\<close>: afterwards the name is not found, and every
  other name is found as before.
\<close>

theorem cookie_deleted:
  assumes "jar_plain jar" "name_ok name" "plain_year (now - 604800000)"
  shows "dmtGetCookie (dmtDelCookie now name jar) name = None
    \<and> (\<forall>m. name_ok m \<longrightarrow> m \<noteq> name \<longrightarrow> dmtGetCookie (dmtDelCookie now name jar) m = dmtGetCookie jar m)"
proof -
  let ?t = "now - 604800000" and ?jar = "filter (\<lambda>(m, _). m \<noteq> name) jar"
  have ok: "jar_plain ?jar" using assms(1) by (auto simp: jar_plain_def list_all_iff)
  have past: "?t - ?t mod 1000 \<le> now" using pos_mod_sign [of 1000 ?t] by linarith
  have "map_of ?jar m = map_of jar m" if "m \<noteq> name" for m using that by (induction jar) auto
  then have keep: "dmtGetCookie ?jar m = dmtGetCookie jar m" if "name_ok m" "m \<noteq> name" for m
    using that console.get_jar [OF ok] console.get_jar [OF assms(1)] by simp
  have gone: "dmtGetCookie ?jar name = None" using console.get_deleted [OF ok assms(2)] .
  show ?thesis
  proof (cases "dmtGetCookie jar name")
    case None
    then show ?thesis by (simp add: dmtDelCookie_def)
  next
    case (Some cval)
    have "dmtDelCookie now name jar = ?jar"
      using set_cookie_dated [OF assms(2,3), of "js ''path=/''" now cval jar] past Some
      by (simp add: dmtDelCookie_def js_def)
    with gone keep show ?thesis by simp
  qed
qed

section \<open>Concrete jars\<close>

definition sample_time :: int where "sample_time = 1700000000000"

definition sample_jar :: jar where
  "sample_jar = [(js ''flogin_type'', js ''2''), (js ''flogin_user'', js ''root'')]"

lemma year_of_sample: "plain_year (sample_time + 7 * 86400000)" "plain_year (sample_time - 86400000)" "plain_year (sample_time - 604800000)"
  by (simp_all add: plain_year_def sample_time_def day_of_def year_of_day_def day_from_year_def Let_def)

lemma sample_names: "encodeURIComponent (js ''flogin_type'') = Some (js ''flogin_type'')"
    "encodeURIComponent (js ''flogin_user'') = Some (js ''flogin_user'')"
  by (simp_all add: encodeURIComponent_def js_def low_sur_def high_sur_def uri_escape_def uri_plain_def)

lemma sample_jar_encoded: "jar_encoded sample_jar"
  using sample_names by (auto simp: sample_jar_def jar_encoded_def js_def)

lemma sample_key: "key_ok (js ''flogin_user'')"
  using sample_names by (auto simp: key_ok_def encode_well_formed js_def)

theorem cookie_roundtrip_witness:
  "\<exists>jar' t. cookie_write (default_config js_String (\<lambda>_. None)) sample_time (js ''flogin_user'') (Str [0x7528]) (console_options 7) sample_jar = Some (jar', t)
    \<and> cookie_get (default_config js_String (\<lambda>_. None)) None (js ''flogin_user'') jar' = Some (Str [0x7528])"
proof -
  have "well_formed [0x7528]" by (simp add: well_formed_def low_sur_def high_sur_def)
  then show ?thesis
    using cookie_roundtrip [OF sample_jar_encoded sample_key, of "[0x7528]" 7 sample_time js_String "\<lambda>_. None"] year_of_sample(1) by auto
qed

theorem cookie_store_refines_witness:
  "\<exists>jar' t. cookie_write (default_config js_String (\<lambda>_. None)) sample_time (js ''flogin_user'') (Str [0x7528]) (console_options 7) sample_jar = Some (jar', t)
    \<and> store_of (default_config js_String (\<lambda>_. None)) jar' = (store_of (default_config js_String (\<lambda>_. None)) sample_jar)(js ''flogin_user'' \<mapsto> [0x7528])"
proof -
  have "well_formed [0x7528]" by (simp add: well_formed_def low_sur_def high_sur_def)
  then show ?thesis
    using cookie_store_refines [OF sample_jar_encoded sample_key, of "[0x7528]" 7 sample_time js_String "\<lambda>_. None"] year_of_sample(1) by auto
qed

theorem cookie_removed_witness:
  "\<exists>jar'. removeCookie (default_config js_String (\<lambda>_. None)) sample_time (js ''flogin_user'') (console_options 0) sample_jar = Some (jar', True)
    \<and> cookie_get (default_config js_String (\<lambda>_. None)) None (js ''flogin_user'') jar' = Some Undefined"
proof -
  have r: "encodeURIComponent (js ''root'') = Some (js ''root'')"
    by (simp add: encodeURIComponent_def js_def low_sur_def high_sur_def uri_escape_def uri_plain_def)
  have "map_of sample_jar (js ''flogin_user'') = Some (js ''root'')" by (simp add: sample_jar_def js_def)
  then have "cookie_get (default_config js_String (\<lambda>_. None)) None (js ''flogin_user'') sample_jar = Some (Str (js ''root''))"
    using cookie_get_find [OF sample_jar_encoded sample_key] plugin.get_jar [OF sample_jar_encoded sample_key, of js_String "\<lambda>_. None"]
      encoded_value(3) [OF r] sample_names(2) by simp
  from cookie_removed [OF sample_jar_encoded sample_key this _ year_of_sample(2)] show ?thesis by blast
qed

theorem cookie_deleted_witness:
  "dmtGetCookie (dmtDelCookie sample_time (js ''flogin_user'') sample_jar) (js ''flogin_user'') = None"
proof -
  have "jar_plain sample_jar" "name_ok (js ''flogin_user'')"
    by (simp_all add: sample_jar_def jar_plain_def name_ok_def js_def uri_char_def uri_plain_def)
  from cookie_deleted [OF this year_of_sample(3)] show ?thesis by blast
qed

end
