(* ===== verification/Json_Parse.thy ===== *)
theory Json_Parse
  imports Json2 Js_Date
begin

text \<open>
  \<open>JSON.parse\<close> and the \<open>toJSON\<close> methods of \<open>src/language/javascript/dmt_json2.js\<close>. The parser filters a
  text by regular expressions and gives it to \<open>eval\<close>, which is a parameter here; the filter is shared
  with \<open>secureEvalJSON\<close> of the jQuery plugin. A regular expression without an empty match
  is the length of its match at the start of a text.
\<close>

section \<open>Regular expressions\<close>

type_synonym matcher = "jstr \<Rightarrow> nat option"

text \<open>A text cut into the matches, from left to right, and the characters between them.\<close>

function pieces :: "matcher \<Rightarrow> jstr \<Rightarrow> (bool \<times> jstr) list" where
  "pieces m [] = []"
| "pieces m (c # s) =
     (case m (c # s) of
        Some n \<Rightarrow> (True, c # take (n - 1) s) # pieces m (drop (n - 1) s)
      | None \<Rightarrow> (False, [c]) # pieces m s)"
  by pat_completeness auto
termination by (relation "measure (length \<circ> snd)") auto

definition replace_rx :: "matcher \<Rightarrow> jstr \<Rightarrow> jstr \<Rightarrow> jstr" where
  "replace_rx m r s = concat (map (\<lambda>(b, w). if b then r else w) (pieces m s))"

definition hex_char :: "jchar \<Rightarrow> bool" where
  "hex_char c = (digit_val c < 16)"

definition short_escapes :: jstr where
  "short_escapes = [0x22, 0x5C, 0x2F, 0x62, 0x66, 0x6E, 0x72, 0x74]"

definition rx_two :: matcher where
  "rx_two s =
     (case s of
        b # c # t \<Rightarrow>
          if b \<noteq> 0x5C then None
          else if c \<in> set short_escapes then Some 2
          else if c = 0x75 \<and> 4 \<le> length t \<and> list_all hex_char (take 4 t) then Some 6
          else None
      | _ \<Rightarrow> None)"

definition string_char :: "jchar \<Rightarrow> bool" where
  "string_char c = (c \<notin> {0x22, 0x5C, 10, 13})"

definition match_string :: matcher where
  "match_string s =
     (if starts_with [0x22] s \<and> starts_with [0x22] (dropWhile string_char (tl s))
      then Some (length (takeWhile string_char (tl s)) + 2) else None)"

text \<open>\<open>-?\d+(?:\.\d*)?(?:[eE][+\-]?\d+)?\<close>: the lengths of the fraction and of the exponent, then of all.\<close>

definition match_fraction :: "jstr \<Rightarrow> nat" where
  "match_fraction s = (if starts_with [46] s then Suc (length (takeWhile is_digit (tl s))) else 0)"

definition match_exponent :: "jstr \<Rightarrow> nat" where
  "match_exponent s =
     (if s \<noteq> [] \<and> hd s \<in> {69, 101} then
        (let sg = (if tl s \<noteq> [] \<and> hd (tl s) \<in> {43, 45} then 1 else 0);
             ds = takeWhile is_digit (drop sg (tl s))
         in if ds = [] then 0 else 1 + sg + length ds)
      else 0)"

definition match_number :: matcher where
  "match_number s =
     (let sg = (if starts_with [45] s then 1 else 0);
          ds = takeWhile is_digit (drop sg s);
          n = sg + length ds;
          n' = n + match_fraction (drop n s)
      in if ds = [] then None else Some (n' + match_exponent (drop n' s)))"

definition rx_three :: matcher where
  "rx_three s =
     (if match_string s \<noteq> None then match_string s
      else if starts_with (js ''true'') s then Some 4
      else if starts_with (js ''false'') s then Some 5
      else if starts_with (js ''null'') s then Some 4
      else match_number s)"

text \<open>
  \<open>(?:^|:|,)(?:\s*\[)+\<close>: the brackets that a text starts with, with the white space before each of them,
  and the match at the start of the text or further on.
\<close>

function open_brackets :: "jstr \<Rightarrow> nat" where
  "open_brackets s =
     (case dropWhile js_ws s of
        [] \<Rightarrow> 0
      | c # r \<Rightarrow> if c = 0x5B then length (takeWhile js_ws s) + 1 + open_brackets r else 0)"
  by pat_completeness auto
termination
proof (relation "measure length")
  fix s c and r :: jstr
  assume "dropWhile js_ws s = c # r"
  then have "length (c # r) \<le> length s" using length_dropWhile_le [of js_ws s] by simp
  then show "(r, s) \<in> measure length" by simp
qed simp

declare open_brackets.simps [simp del]

definition rx_four :: "bool \<Rightarrow> matcher" where
  "rx_four at_start s =
     (if at_start \<and> 0 < open_brackets s then Some (open_brackets s)
      else if s \<noteq> [] \<and> hd s \<in> {58, 44} \<and> 0 < open_brackets (tl s) then Some (1 + open_brackets (tl s))
      else None)"

text \<open>\<open>replace(rx_four, "")\<close>, at the start of a text or after it.\<close>

function delete_four :: "bool \<Rightarrow> jstr \<Rightarrow> jstr" where
  "delete_four at_start [] = []"
| "delete_four at_start (c # s) =
     (case rx_four at_start (c # s) of
        Some n \<Rightarrow> delete_four False (drop (n - 1) s)
      | None \<Rightarrow> c # delete_four False s)"
  by pat_completeness auto
termination by (relation "measure (length \<circ> snd)") auto

definition rx_one :: "jstr \<Rightarrow> bool" where
  "rx_one s = list_all (\<lambda>c. c \<in> {0x5D, 44, 58, 0x7B, 0x7D} \<or> js_ws c) s"

text \<open>The second stage, for the regular expression \<open>two\<close> of the escapes.\<close>

definition json_safe :: "matcher \<Rightarrow> jstr \<Rightarrow> bool" where
  "json_safe two s = rx_one (delete_four True (replace_rx rx_three [0x5D] (replace_rx two [0x40] s)))"

section \<open>The parser\<close>

definition replace_dangerous :: "jstr \<Rightarrow> jstr" where
  "replace_dangerous s =
     (if list_ex rx_dangerous s then concat (map (\<lambda>c. if rx_dangerous c then u_escape c else [c]) s) else s)"

text \<open>
  \<open>walk(holder, key)\<close> with \<open>value = holder[key]\<close>. Members are replaced and deleted in place, so the
  holder a reviver sees depends on the members walked so far: \<open>mk v\<close> is the holder whose member is
  \<open>v\<close> now. A reviver is a function of holder, key and value that changes neither. A hole of an
  array, which \<open>for in\<close> leaves out and \<open>delete\<close> leaves behind, is \<open>Undefined\<close>.
\<close>

type_synonym reviver = "jsval \<Rightarrow> jstr \<Rightarrow> jsval \<Rightarrow> jsval"

function (sequential) walk :: "reviver \<Rightarrow> (jsval \<Rightarrow> jsval) \<Rightarrow> jstr \<Rightarrow> jsval \<Rightarrow> jsval"
  and walk_items :: "reviver \<Rightarrow> jsval list \<Rightarrow> jsval list \<Rightarrow> jsval list"
  and walk_members :: "reviver \<Rightarrow> (jstr \<times> jsval) list \<Rightarrow> (jstr \<times> jsval) list \<Rightarrow> (jstr \<times> jsval) list" where
  "walk rv mk key (Arr xs) = (let v = Arr (walk_items rv [] xs) in rv (mk v) key v)"
| "walk rv mk key (Obj kvs) = (let v = Obj (walk_members rv [] kvs) in rv (mk v) key v)"
| "walk rv mk key v = rv (mk v) key v"
| "walk_items rv done [] = done"
| "walk_items rv done (x # xs) =
     walk_items rv (done @ [if x = Undefined then x
       else walk rv (\<lambda>x'. Arr (done @ x' # xs)) (nat_digits (length done)) x]) xs"
| "walk_members rv done [] = done"
| "walk_members rv done ((k, x) # kvs) =
     (case walk rv (\<lambda>x'. Obj (done @ (k, x') # kvs)) k x of
        Undefined \<Rightarrow> walk_members rv done kvs
      | y \<Rightarrow> walk_members rv (done @ [(k, y)]) kvs)"
  by pat_completeness auto
termination
  by (relation "measure (\<lambda>p. case p of
        Inl (_, _, _, v) \<Rightarrow> size v
      | Inr (Inl (_, _, xs)) \<Rightarrow> size_list size xs
      | Inr (Inr (_, _, kvs)) \<Rightarrow> size_list (size_prod (\<lambda>_. 0) size) kvs)") auto

text \<open>\<open>ev\<close> is the function \<open>eval\<close>.\<close>

definition parse :: "(jstr \<Rightarrow> json_error + jsval) \<Rightarrow> reviver option \<Rightarrow> jstr \<Rightarrow> json_error + jsval" where
  "parse ev reviver text =
     (let t = replace_dangerous text
      in if json_safe rx_two t then
           (case ev ([40] @ t @ [41]) of
              Inl e \<Rightarrow> Inl e
            | Inr j \<Rightarrow> Inr (case reviver of Some rv \<Rightarrow> walk rv (\<lambda>v. Obj [([], v)]) [] j | None \<Rightarrow> j))
         else Inl JsonSyntaxError)"

section \<open>What the filter lets through\<close>

text \<open>
  The reference: a text is a sequence of tokens of JSON (strings with escapes, the three literals,
  numbers, punctuation and white space), and a bracket opens an array, never an index: it
  follows the start of the text, a colon, a comma or another opening bracket.
\<close>

definition string_part :: "matcher \<Rightarrow> jstr \<Rightarrow> bool" where
  "string_part two w = ((\<exists>c. w = [c] \<and> string_char c) \<or> (w \<noteq> [] \<and> (\<exists>r. two (w @ r) = Some (length w))))"

definition string_token :: "matcher \<Rightarrow> jstr \<Rightarrow> bool" where
  "string_token two w = (\<exists>ps. w = [0x22] @ concat ps @ [0x22] \<and> list_all (string_part two) ps)"

definition punctuation :: "jchar \<Rightarrow> bool" where
  "punctuation c = (c \<in> {0x5B, 0x5D, 44, 58, 0x7B, 0x7D} \<or> js_ws c)"

definition fraction :: "jstr \<Rightarrow> bool" where
  "fraction w = (w = [] \<or> (\<exists>ds. w = 46 # ds \<and> list_all is_digit ds))"

definition exponent_part :: "jstr \<Rightarrow> bool" where
  "exponent_part w = (w = [] \<or> (\<exists>e sg ds. w = e # sg @ ds \<and> e \<in> {69, 101} \<and> sg \<in> {[], [43], [45]}
     \<and> ds \<noteq> [] \<and> list_all is_digit ds))"

definition number_token :: "jstr \<Rightarrow> bool" where
  "number_token w = (\<exists>sg ds fr ex. w = sg @ ds @ fr @ ex \<and> sg \<in> {[], [45]} \<and> ds \<noteq> [] \<and> list_all is_digit ds
     \<and> fraction fr \<and> exponent_part ex)"

definition word_token :: "jstr \<Rightarrow> bool" where
  "word_token w = (w \<in> {js ''true'', js ''false'', js ''null''} \<or> number_token w)"

definition json_token :: "matcher \<Rightarrow> jstr \<Rightarrow> bool" where
  "json_token two w = (string_token two w \<or> word_token w \<or> (\<exists>c. w = [c] \<and> punctuation c))"

fun brackets_open :: "bool \<Rightarrow> jstr list \<Rightarrow> bool" where
  "brackets_open ok [] = True"
| "brackets_open ok (w # ws) =
     (if w = [0x5B] then ok \<and> brackets_open True ws
      else if (\<exists>c. w = [c] \<and> js_ws c) then brackets_open ok ws
      else brackets_open (w \<in> {[44], [58]}) ws)"

definition json_tokens :: "matcher \<Rightarrow> jstr \<Rightarrow> bool" where
  "json_tokens two s = (\<exists>ws. s = concat ws \<and> list_all (json_token two) ws \<and> brackets_open True ws)"

subsection \<open>Brackets\<close>

lemma js_ws_punct: "js_ws c \<Longrightarrow> c \<notin> {0x5B, 0x5D, 44, 58, 0x7B, 0x7D, 0x22, 0x40}"
  by (auto simp: js_ws_def)

lemma js_ws_not [simp]: "\<not> js_ws 0x5B" "\<not> js_ws 0x5D" "\<not> js_ws 44" "\<not> js_ws 58" "\<not> js_ws 0x7B" "\<not> js_ws 0x7D"
  using js_ws_punct by blast+

text \<open>The same on the characters of the filtered text, where a token is one character.\<close>

fun arrays_open :: "bool \<Rightarrow> jstr \<Rightarrow> bool" where
  "arrays_open ok [] = True"
| "arrays_open ok (c # s) =
     (if c = 0x5B then ok \<and> arrays_open True s
      else if js_ws c then arrays_open ok s
      else arrays_open (c \<in> {44, 58}) s)"

lemma arrays_open_mono: "arrays_open False s \<Longrightarrow> arrays_open ok s"
  by (induction s) (auto split: if_splits)

lemma arrays_open_ws: "arrays_open ok s = arrays_open ok (dropWhile js_ws s)"
  by (induction s) auto

lemma open_brackets_none: "dropWhile js_ws s = [] \<Longrightarrow> open_brackets s = 0"
  by (subst open_brackets.simps) (simp del: dropWhile_eq_Nil_conv)

lemma open_brackets_some:
  "dropWhile js_ws s = c # r \<Longrightarrow>
    open_brackets s = (if c = 0x5B then length (takeWhile js_ws s) + 1 + open_brackets r else 0)"
  by (subst open_brackets.simps) simp

lemma open_brackets_ws: "js_ws c \<Longrightarrow> open_brackets (c # s) = 0 \<longleftrightarrow> open_brackets s = 0"
  by (cases "dropWhile js_ws s")
    (simp_all add: open_brackets_none open_brackets_some del: dropWhile_eq_Nil_conv)

lemma open_brackets_other: "\<not> js_ws c \<Longrightarrow> open_brackets (c # s) = (if c = 0x5B then Suc (open_brackets s) else 0)"
  by (simp add: open_brackets_some)

lemma open_brackets_drop:
  "arrays_open True s = arrays_open True (drop (open_brackets s) s) \<and> open_brackets (drop (open_brackets s) s) = 0
    \<and> set (take (open_brackets s) s) \<subseteq> {c. punctuation c}"
proof (induction s rule: open_brackets.induct)
  case (1 s)
  have s: "s = takeWhile js_ws s @ dropWhile js_ws s" by simp
  show ?case
  proof (cases "dropWhile js_ws s")
    case Nil
    then show ?thesis by (simp add: open_brackets_none del: dropWhile_eq_Nil_conv)
  next
    case (Cons c r)
    show ?thesis
    proof (cases "c = 0x5B")
      case True
      with Cons have n: "open_brackets s = length (takeWhile js_ws s) + 1 + open_brackets r"
        by (simp add: open_brackets_some)
      have "drop (open_brackets s) s = drop (open_brackets r) r"
        "take (open_brackets s) s = takeWhile js_ws s @ 0x5B # take (open_brackets r) r"
        unfolding n by (subst (2) s, simp add: Cons True del: takeWhile_dropWhile_id)+
      moreover have "arrays_open True s = arrays_open True r"
        using arrays_open_ws [of True s] Cons True by simp
      ultimately show ?thesis using 1 [OF Cons True] set_takeWhileD [of _ js_ws s]
        by (auto simp: punctuation_def)
    qed (use Cons in \<open>simp add: open_brackets_some\<close>)
  qed
qed

lemma no_open_brackets: "open_brackets s = 0 \<Longrightarrow> arrays_open ok s = arrays_open False s"
proof (induction s arbitrary: ok)
  case (Cons c s)
  show ?case
  proof (cases "js_ws c")
    case True
    then show ?thesis using Cons open_brackets_ws [of c s] by auto
  next
    case False
    then show ?thesis using Cons.prems by (auto simp: open_brackets_other split: if_splits)
  qed
qed simp

lemma delete_four_open:
  "rx_one (delete_four start s) = (list_all punctuation s \<and> arrays_open start s)"
proof (induction start s rule: delete_four.induct)
  case (2 start c s)
  have all: "list_all punctuation w = (set (take k w) \<subseteq> {c. punctuation c} \<and> list_all punctuation (drop k w))"
    for w k
    by (subst append_take_drop_id [symmetric, of w k], subst list_all_append) (auto simp: list_all_iff)
  consider (start) "start" "0 < open_brackets (c # s)" "rx_four start (c # s) = Some (open_brackets (c # s))"
    | (sep) "\<not> (start \<and> 0 < open_brackets (c # s))" "c \<in> {58, 44}" "0 < open_brackets s" "rx_four start (c # s) = Some (1 + open_brackets s)"
    | (keep) "\<not> (start \<and> 0 < open_brackets (c # s))" "c \<in> {58, 44} \<Longrightarrow> open_brackets s = 0" "rx_four start (c # s) = None"
    unfolding rx_four_def by (cases "start \<and> 0 < open_brackets (c # s)"; cases "c \<in> {58, 44} \<and> 0 < open_brackets s") auto
  then show ?case
  proof cases
    case start
    then have d: "drop (open_brackets (c # s)) (c # s) = drop (open_brackets (c # s) - 1) s"
      by (cases "open_brackets (c # s)") auto
    with start 2(2) [of "open_brackets (c # s)"] open_brackets_drop [of "c # s"]
      no_open_brackets [of "drop (open_brackets (c # s)) (c # s)" True] all [of "c # s" "open_brackets (c # s)"]
    show ?thesis by (simp del: arrays_open.simps list.pred_inject)
  next
    case sep
    then have c: "punctuation c" "arrays_open start (c # s) = arrays_open True s" by (auto simp: punctuation_def)
    have "rx_one (delete_four start (c # s)) =
        (list_all punctuation (drop (open_brackets s) s) \<and> arrays_open False (drop (open_brackets s) s))"
      using sep(4) 2(2) [OF sep(4)] by simp
    then show ?thesis
      using c open_brackets_drop [of s] no_open_brackets [of "drop (open_brackets s) s" True] all [of s "open_brackets s"]
      by (simp del: arrays_open.simps)
  next
    case keep
    have "arrays_open start (c # s) = (c \<noteq> 0x5B \<and> arrays_open False s)" if "punctuation c"
    proof (cases "c = 0x5B")
      case True
      with keep(1) show ?thesis by (simp add: open_brackets_other)
    next
      case False
      show ?thesis
      proof (cases "js_ws c")
        case True
        have "start \<Longrightarrow> open_brackets s = 0"
          using keep(1) True open_brackets_ws [of c s] by simp
        with False True show ?thesis using no_open_brackets [of s start] by (cases start) auto
      next
        case no_ws: False
        with False keep(2) show ?thesis using no_open_brackets [of s True]
          by (cases "c \<in> {58, 44}") auto
      qed
    qed
    moreover have "rx_one (c # t) = (punctuation c \<and> c \<noteq> 0x5B \<and> rx_one t)" for t
      by (auto simp: rx_one_def punctuation_def)
    ultimately show ?thesis using keep 2(1) by (auto simp del: arrays_open.simps)
  qed
qed (simp add: rx_one_def)

subsection \<open>Tokens\<close>

lemma concat_pieces: "concat (map snd (pieces m s)) = s"
  by (induction m s rule: pieces.induct) (auto split: option.splits)

lemma piece_cases:
  assumes "(b, w) \<in> set (pieces m s)"
  obtains (between) c where "\<not> b" "w = [c]"
    | (matched) n r where "b" "w \<noteq> []" "m (w @ r) = Some n" "length w = max 1 (min n (length (w @ r)))"
  using assms
proof (induction m s rule: pieces.induct)
  case (2 m c s)
  show ?case
  proof (cases "m (c # s)")
    case None
    with 2 show ?thesis by auto
  next
    case (Some n)
    show ?thesis
    proof (cases "(b, w) = (True, c # take (n - 1) s)")
      case True
      then have "m (w @ drop (n - 1) s) = Some n" "length w = max 1 (min n (length (w @ drop (n - 1) s)))"
        using Some by auto
      with True 2(4) show ?thesis by blast
    qed (use 2 Some in auto)
  qed
qed simp

text \<open>A matcher that looks no further than its match, which is never empty.\<close>

definition proper :: "matcher \<Rightarrow> bool" where
  "proper m = (\<forall>s n. m s = Some n \<longrightarrow> 0 < n \<and> n \<le> length s)"

lemma proper_piece:
  assumes "proper m" "(True, w) \<in> set (pieces m s)"
  shows "w \<noteq> [] \<and> (\<exists>r. m (w @ r) = Some (length w))"
  using assms(2)
proof (cases rule: piece_cases)
  case (matched n r)
  with assms(1) have "0 < n" "n \<le> length (w @ r)" unfolding proper_def by blast+
  with matched show ?thesis by auto
qed simp

lemma proper_rx_two: "proper rx_two"
  by (auto simp: proper_def rx_two_def split: list.splits if_splits)

lemma match_string_form:
  assumes "match_string (w @ r) = Some (length w)"
  shows "\<exists>body. w = [0x22] @ body @ [0x22] \<and> list_all string_char body"
proof -
  let ?t = "tl (w @ r)"
  have s: "w @ r = 0x22 # ?t" "\<exists>u. dropWhile string_char ?t = 0x22 # u"
    and n: "length w = length (takeWhile string_char ?t) + 2"
    using assms by (auto simp: match_string_def starts_with_iff split: if_splits)
  then obtain u where u: "dropWhile string_char ?t = 0x22 # u" by blast
  have "w @ r = [0x22] @ takeWhile string_char ?t @ [0x22] @ u"
    using s(1) u takeWhile_dropWhile_id [of string_char ?t] by simp
  then have "w = take (length w) ([0x22] @ takeWhile string_char ?t @ [0x22] @ u)"
    by (metis append_eq_conv_conj)
  then have "w = [0x22] @ takeWhile string_char ?t @ [0x22]" unfolding n by simp
  then show ?thesis by (meson list_all_iff set_takeWhileD)
qed

lemma take_takeWhile: "take (length (takeWhile P xs)) xs = takeWhile P xs"
  using takeWhile_eq_take [of P xs] by simp

lemma list_all_takeWhile: "list_all P (takeWhile P xs)"
  by (simp add: list_all_iff) (blast dest: set_takeWhileD)

lemma match_fraction_form: "fraction (take (match_fraction s) s)"
  by (auto simp: match_fraction_def fraction_def starts_with_iff take_takeWhile list_all_takeWhile)

lemma match_exponent_form: "exponent_part (take (match_exponent s) s)"
proof (cases "match_exponent s = 0")
  case False
  let ?sg = "if tl s \<noteq> [] \<and> hd (tl s) \<in> {43, 45} then 1 else 0 :: nat"
  let ?ds = "takeWhile is_digit (drop ?sg (tl s))"
  from False obtain e t where s: "s = e # t" "e \<in> {69, 101}" and ds: "?ds \<noteq> []"
    and n: "match_exponent s = 1 + ?sg + length ?ds"
    by (cases s) (auto simp: match_exponent_def Let_def split: if_splits)
  have "take (match_exponent s) s = e # take ?sg t @ ?ds"
    unfolding n using s(1) by (simp add: take_add take_takeWhile)
  moreover have "take ?sg t \<in> {[], [43], [45]}" using s(1) by (cases t) auto
  ultimately show ?thesis
    unfolding exponent_part_def using s(2) ds list_all_takeWhile by blast
qed (simp add: exponent_part_def)

text \<open>The parts of a match of a number.\<close>

lemma match_number_parts:
  assumes "match_number s = Some k"
  obtains sg ds n m where "sg = (if starts_with [45] s then 1 else 0)" "ds = takeWhile is_digit (drop sg s)" "ds \<noteq> []"
    "n = sg + length ds" "m = n + match_fraction (drop n s)" "k = m + match_exponent (drop m s)"
proof -
  define sg :: nat where "sg = (if starts_with [45] s then 1 else 0)"
  define ds where "ds = takeWhile is_digit (drop sg s)"
  define n where "n = sg + length ds"
  define m where "m = n + match_fraction (drop n s)"
  have "match_number s = (if ds = [] then None else Some (m + match_exponent (drop m s)))"
    by (simp only: match_number_def Let_def m_def n_def ds_def sg_def)
  with assms have "ds \<noteq> []" "k = m + match_exponent (drop m s)" by (auto split: if_splits)
  then show thesis using that sg_def ds_def n_def m_def by blast
qed

lemma match_number_form:
  assumes "match_number (w @ r) = Some (length w)"
  shows "number_token w"
proof -
  let ?s = "w @ r"
  obtain sg ds n m where p: "sg = (if starts_with [45] ?s then 1 else 0)" "ds = takeWhile is_digit (drop sg ?s)" "ds \<noteq> []"
    "n = sg + length ds" "m = n + match_fraction (drop n ?s)" and len: "length w = m + match_exponent (drop m ?s)"
    using assms by (rule match_number_parts)
  have "w = take (length w) ?s" by simp
  also have "\<dots> = take m ?s @ take (match_exponent (drop m ?s)) (drop m ?s)"
    unfolding len by (rule take_add)
  also have "take m ?s = take n ?s @ take (match_fraction (drop n ?s)) (drop n ?s)"
    unfolding p(5) by (rule take_add)
  also have "take n ?s = take sg ?s @ ds"
    unfolding p(2,4) by (simp only: take_add take_takeWhile)
  finally have "w = take sg ?s @ ds @ take (match_fraction (drop n ?s)) (drop n ?s)
      @ take (match_exponent (drop m ?s)) (drop m ?s)" by simp
  moreover have "take sg ?s \<in> {[], [45]}"
    unfolding p(1) by (auto simp: starts_with_iff simp del: take_append)
  moreover have "list_all is_digit ds" unfolding p(2) by (rule list_all_takeWhile)
  ultimately show ?thesis
    unfolding number_token_def using p(3) match_fraction_form match_exponent_form by blast
qed

lemma rx_three_form:
  assumes "rx_three (w @ r) = Some (length w)"
  shows "(\<exists>body. w = [0x22] @ body @ [0x22] \<and> list_all string_char body) \<or> word_token w"
proof (cases "match_string (w @ r) = None")
  case False
  with assms show ?thesis using match_string_form [of w r] by (auto simp: rx_three_def)
next
  case True
  have lit: "w = js t" if "starts_with (js t) (w @ r)" "length w = length t" for t
  proof -
    from that(1) obtain u where "w @ r = js t @ u" by (auto simp: starts_with_iff)
    with that(2) show ?thesis by (simp add: append_eq_append_conv)
  qed
  show ?thesis using assms True lit [of "''true''"] lit [of "''false''"] lit [of "''null''"] match_number_form [of w r]
    by (auto simp: rx_three_def word_token_def split: if_splits)
qed

lemma proper_rx_three: "proper rx_three"
proof -
  have tw: "length (takeWhile P xs) \<le> length xs" for P and xs :: jstr by (rule length_takeWhile_le)
  have fr: "match_fraction s \<le> length s" for s
    using tw [of is_digit "tl s"] by (auto simp: match_fraction_def starts_with_iff)
  have ex: "match_exponent s \<le> length s" for s
    using tw [of is_digit "tl s"] tw [of is_digit "drop 1 (tl s)"]
    by (cases s; cases "tl s") (auto simp: match_exponent_def Let_def)
  have num: "0 < k \<and> k \<le> length s" if num: "match_number s = Some k" for s k
  proof -
    obtain sg ds n m where p: "sg = (if starts_with [45] s then 1 else 0)" "ds = takeWhile is_digit (drop sg s)" "ds \<noteq> []"
      "n = sg + length ds" "m = n + match_fraction (drop n s)" and k: "k = m + match_exponent (drop m s)"
      using num by (rule match_number_parts)
    have "length ds \<le> length s - sg" using tw [of is_digit "drop sg s"] p(2) by simp
    moreover have "sg \<le> length s" using p(1) by (auto simp: starts_with_iff)
    ultimately have "n \<le> length s" using p(4) by linarith
    then have "m \<le> length s" using fr [of "drop n s"] p(5) by simp
    then have "k \<le> length s" using ex [of "drop m s"] k by simp
    moreover have "0 < k" using p k by (cases ds) auto
    ultimately show ?thesis by blast
  qed
  have str: "n \<le> length s" if "match_string s = Some n" for s n
  proof -
    from that obtain u where u: "dropWhile string_char (tl s) = 0x22 # u" "s \<noteq> []" "n = length (takeWhile string_char (tl s)) + 2"
      by (auto simp: match_string_def starts_with_iff split: if_splits)
    have "length (tl s) = length (takeWhile string_char (tl s)) + Suc (length u)"
      using takeWhile_dropWhile_id [of string_char "tl s"] u(1) by (metis length_append length_Cons)
    with u show ?thesis by simp
  qed
  show ?thesis
    unfolding proper_def rx_three_def
  proof (intro allI impI)
    fix s n
    assume "(if match_string s \<noteq> None then match_string s else if starts_with (js ''true'') s then Some 4
        else if starts_with (js ''false'') s then Some 5 else if starts_with (js ''null'') s then Some 4
        else match_number s) = Some n"
    then consider "match_string s = Some n" | "starts_with (js ''true'') s" "n = 4" | "starts_with (js ''false'') s" "n = 5"
      | "starts_with (js ''null'') s" "n = 4" | "match_number s = Some n"
      by (metis option.inject)
    then show "0 < n \<and> n \<le> length s"
    proof cases
      case 1
      then have "n \<noteq> 0" by (auto simp: match_string_def split: if_splits)
      with 1 str show ?thesis by blast
    next
      case 5
      then show ?thesis by (rule num)
    qed (auto simp: starts_with_iff)
  qed
qed

subsection \<open>From the filtered text back to the text\<close>

text \<open>The character that a piece of the text becomes.\<close>

definition piece_char :: "jchar \<Rightarrow> bool \<times> jstr \<Rightarrow> jchar" where
  "piece_char r p = (if fst p then r else hd (snd p))"

lemma replace_rx_char: "replace_rx m [r] s = map (piece_char r) (pieces m s)"
proof -
  have "(if b then [r] else w) = [piece_char r (b, w)]" if "(b, w) \<in> set (pieces m s)" for b w
    using that by (cases rule: piece_cases) (auto simp: piece_char_def)
  then have "map (\<lambda>(b, w). if b then [r] else w) (pieces m s) = map (\<lambda>p. [piece_char r p]) (pieces m s)"
    by (intro map_cong) auto
  then show ?thesis unfolding replace_rx_def by (simp only:) simp
qed

lemma kept_piece: "p \<in> set (pieces m s) \<Longrightarrow> piece_char r p \<noteq> r \<Longrightarrow> snd p = [piece_char r p]"
  by (cases p) (auto simp: piece_char_def elim: piece_cases split: if_splits)

lemma kept_pieces:
  assumes "set ps \<subseteq> set (pieces m s)" "r \<notin> set (map (piece_char r) ps)"
  shows "concat (map snd ps) = map (piece_char r) ps"
  using assms
proof (induction ps)
  case (Cons p ps)
  then have "snd p = [piece_char r p]" by (intro kept_piece) auto
  with Cons show ?case by simp
qed simp

lemma map_eq_concat:
  "map g ps = concat ws \<Longrightarrow> \<exists>pss. ps = concat pss \<and> map (map g) pss = ws"
proof (induction ws arbitrary: ps)
  case (Cons w ws)
  have "map g ps = w @ concat ws" using Cons.prems by simp
  from iffD1 [OF map_eq_append_conv this]
  obtain us vs where u: "ps = us @ vs" "w = map g us" "concat ws = map g vs" by blast
  from Cons.IH [OF u(3) [symmetric]] obtain pss where p: "vs = concat pss" "map (map g) pss = ws" by blast
  have "ps = concat (us # pss)" using u(1) p(1) by simp
  moreover have "map (map g) (us # pss) = w # ws" using u(2) p(2) by simp
  ultimately have "ps = concat (us # pss) \<and> map (map g) (us # pss) = w # ws" ..
  then show ?case ..
qed simp

lemma is_digit_chars: "is_digit c \<Longrightarrow> c \<notin> {0x40, 0x5B, 44, 58} \<and> \<not> js_ws c"
proof -
  assume d: "is_digit c"
  then have "\<not> 0x2000 \<le> c" by (auto simp: is_digit_def dest: order.trans)
  with d show ?thesis by (auto simp: is_digit_def js_ws_def)
qed

lemma number_chars: "number_token w \<Longrightarrow> c \<in> set w \<Longrightarrow> is_digit c \<or> c \<in> {43, 45, 46, 69, 101}"
  by (auto simp: number_token_def fraction_def exponent_part_def list_all_iff)

lemma number_single: "number_token [c] \<Longrightarrow> is_digit c"
  by (auto simp: number_token_def Cons_eq_append_conv append_eq_Cons_conv)

lemma word_token_chars: "word_token w \<Longrightarrow> 0x40 \<notin> set w"
  using number_chars [of w "0x40"] is_digit_chars [of "0x40"] by (auto simp: word_token_def js_def)

lemma token_not_punctuation:
  assumes "string_token two w \<or> word_token w"
  shows "w \<notin> {[0x5B], [44], [58]} \<and> (\<nexists>c. w = [c] \<and> js_ws c)"
proof -
  have "is_digit c" if "w = [c]" for c
    using assms that number_single by (auto simp: string_token_def word_token_def js_def)
  then show ?thesis using is_digit_chars by blast
qed

lemma piece_token:
  assumes two: "proper two" and ps: "set ps \<subseteq> set (pieces two s)"
    and q: "(b, map (piece_char 0x40) ps) \<in> set (pieces rx_three t)"
    and p: "b \<or> punctuation (hd (map (piece_char 0x40) ps))"
  shows "if b then string_token two (concat (map snd ps)) \<or> word_token (concat (map snd ps))
    else \<exists>c. map (piece_char 0x40) ps = [c] \<and> concat (map snd ps) = [c] \<and> punctuation c"
proof (cases b)
  case False
  from q False obtain c where c: "map (piece_char 0x40) ps = [c]" by (auto elim: piece_cases)
  with p False have "punctuation c" by simp
  then have "c \<noteq> 0x40" using js_ws_punct [of c] by (auto simp: punctuation_def)
  with c kept_pieces [OF ps, of "0x40"] \<open>punctuation c\<close> False show ?thesis by auto
next
  case True
  let ?w = "map (piece_char 0x40) ps"
  from q True have "(True, ?w) \<in> set (pieces rx_three t)" by simp
  then obtain r where "rx_three (?w @ r) = Some (length ?w)" using proper_piece [OF proper_rx_three] by blast
  from rx_three_form [OF this] show ?thesis
  proof
    assume "word_token ?w"
    then have "concat (map snd ps) = ?w" using kept_pieces [OF ps] word_token_chars by blast
    with True \<open>word_token ?w\<close> show ?thesis by simp
  next
    assume "\<exists>body. ?w = [0x22] @ body @ [0x22] \<and> list_all string_char body"
    then obtain body where w: "?w = 0x22 # body @ [0x22]" and body: "list_all string_char body" by auto
    from w obtain p0 ps' where p0: "ps = p0 # ps'" "piece_char 0x40 p0 = 0x22" "map (piece_char 0x40) ps' = body @ [0x22]"
      by (cases ps) auto
    from iffD1 [OF map_eq_append_conv p0(3)] obtain pb p1
      where split: "ps = p0 # pb @ [p1]" and p1: "piece_char 0x40 p1 = 0x22" "body = map (piece_char 0x40) pb"
      using p0(1) by (auto simp: Cons_eq_map_conv)
    note chars = p0(2) p1(1) p1(2) [symmetric]
    have "snd p0 = [0x22]" "snd p1 = [0x22]"
      using kept_piece [of p0 two s "0x40"] kept_piece [of p1 two s "0x40"] ps split chars by auto
    then have "concat (map snd ps) = [0x22] @ concat (map snd pb) @ [0x22]" using split by simp
    moreover have "string_part two (snd p)" if "p \<in> set pb" for p
    proof (cases "fst p")
      case True
      then show ?thesis using proper_piece [OF two, of "snd p" s] that ps split
        by (cases p) (auto simp: string_part_def)
    next
      case False
      moreover have "(fst p, snd p) \<in> set (pieces two s)" using that ps split by auto
      ultimately have "snd p = [piece_char 0x40 p]"
        by (auto simp: piece_char_def elim: piece_cases)
      moreover have "string_char (piece_char 0x40 p)" using body that by (auto simp: list_all_iff simp flip: chars(3))
      ultimately show ?thesis by (auto simp: string_part_def)
    qed
    then have "list_all (string_part two) (map snd pb)" by (simp add: list_all_iff)
    ultimately have "string_token two (concat (map snd ps))" unfolding string_token_def by blast
    then show ?thesis using True by simp
  qed
qed

lemma tokens_arrays:
  assumes "list_all2 (\<lambda>q w. if fst q then string_token two w \<or> word_token w
    else \<exists>c. snd q = [c] \<and> w = [c] \<and> punctuation c) qs ws"
  shows "brackets_open ok ws = arrays_open ok (map (piece_char 0x5D) qs)"
  using assms
proof (induction arbitrary: ok rule: list_all2_induct)
  case (Cons q qs w ws)
  then show ?case
    using token_not_punctuation [of two w] by (auto simp: piece_char_def split: if_splits)
qed simp

theorem safe_tokens:
  assumes two: "proper two" and safe: "json_safe two s"
  shows "json_tokens two s"
proof -
  define ps where "ps = pieces two s"
  define qs where "qs = pieces rx_three (map (piece_char 0x40) ps)"
  have ok: "list_all punctuation (map (piece_char 0x5D) qs)" "arrays_open True (map (piece_char 0x5D) qs)"
    using safe unfolding json_safe_def replace_rx_char delete_four_open ps_def [symmetric] qs_def [symmetric] by blast+
  have "map (piece_char 0x40) ps = concat (map snd qs)" unfolding qs_def concat_pieces ..
  then obtain pss where pss: "ps = concat pss" "map (map (piece_char 0x40)) pss = map snd qs"
    using map_eq_concat by metis
  define ws where "ws = map (\<lambda>us. concat (map snd us)) pss"
  have len: "length pss = length qs" using pss(2) by (metis length_map)
  have rel: "list_all2 (\<lambda>q w. if fst q then string_token two w \<or> word_token w
      else \<exists>c. snd q = [c] \<and> w = [c] \<and> punctuation c) qs ws"
  proof (rule list_all2_all_nthI)
    fix i assume i: "i < length qs"
    have w: "snd (qs ! i) = map (piece_char 0x40) (pss ! i)" using pss(2) i len by (metis nth_map)
    have "pss ! i \<in> set pss" using i len by simp
    then have "set (pss ! i) \<subseteq> set (pieces two s)" unfolding ps_def [symmetric] pss(1) by auto
    moreover have "(fst (qs ! i), map (piece_char 0x40) (pss ! i)) \<in> set (pieces rx_three (map (piece_char 0x40) ps))"
      using i nth_mem [OF i] by (simp flip: w qs_def)
    moreover have "punctuation (piece_char 0x5D (qs ! i))" using ok(1) i by (simp add: list_all_length)
    then have "fst (qs ! i) \<or> punctuation (hd (map (piece_char 0x40) (pss ! i)))"
      unfolding w [symmetric] by (cases "fst (qs ! i)") (simp_all add: piece_char_def)
    moreover have "ws ! i = concat (map snd (pss ! i))" using i len by (simp add: ws_def)
    ultimately show "if fst (qs ! i) then string_token two (ws ! i) \<or> word_token (ws ! i)
        else \<exists>c. snd (qs ! i) = [c] \<and> ws ! i = [c] \<and> punctuation c"
      unfolding w using piece_token [OF two] by metis
  qed (simp add: ws_def len)
  have "s = concat ws"
  proof -
    have "concat (map snd (concat pss)) = concat (map (\<lambda>us. concat (map snd us)) pss)" by (induction pss) auto
    then show ?thesis using concat_pieces [of two s] unfolding ws_def ps_def [symmetric] pss(1) by simp
  qed
  moreover have "list_all (json_token two) ws"
    using rel by (auto simp: list_all_length list_all2_conv_all_nth json_token_def split: if_splits)
  ultimately show ?thesis using tokens_arrays [OF rel, of True] ok(2) unfolding json_tokens_def by blast
qed

section \<open>What the filter accepts\<close>

text \<open>
  Every compact text of a value passes the filter, if the escapes of its strings do. The contract
  \<open>filtered\<close> says what the first replacement makes of an escape: characters a string may have.
\<close>

lemma replace_rx_Nil [simp]: "replace_rx m x [] = []"
  by (simp add: replace_rx_def)

lemma replace_rx_none: "m (c # s) = None \<Longrightarrow> replace_rx m x (c # s) = c # replace_rx m x s"
  by (simp add: replace_rx_def)

lemma replace_rx_some: "m (w @ r) = Some (length w) \<Longrightarrow> w \<noteq> [] \<Longrightarrow> replace_rx m x (w @ r) = x @ replace_rx m x r"
  by (cases w) (simp_all add: replace_rx_def)

lemma join_replace:
  assumes "\<And>x r. x \<in> set xs \<Longrightarrow> D r \<Longrightarrow> F (f x @ r) = g x @ F r"
    and "\<And>r. F (44 # r) = 44 # F r" "\<And>r. D (44 # r)" "D r"
  shows "F (join_with [44] (map f xs) @ r) = join_with [44] (map g xs) @ (F r :: jstr)"
  using assms
proof (induction xs)
  case (Cons x xs)
  show ?case
  proof (cases xs)
    case (Cons y ys)
    then have "join_with [44] (map f (x # xs)) @ r = f x @ 44 # join_with [44] (map f xs) @ r"
      "join_with [44] (map g (x # xs)) = g x @ 44 # join_with [44] (map g xs)" by simp_all
    then show ?thesis using Cons.prems Cons.IH by simp
  qed (use Cons.prems in simp)
qed simp

fun skeleton :: "jsval \<Rightarrow> jstr" where
  "skeleton (Arr xs) = [0x5B] @ join_with [44] (map skeleton xs) @ [0x5D]"
| "skeleton (Obj kvs) = [0x7B] @ join_with [44] (map (\<lambda>(k, x). [0x5D, 58] @ skeleton x) kvs) @ [0x7D]"
| "skeleton _ = [0x5D]"

definition num_end :: "jstr \<Rightarrow> bool" where
  "num_end r = (r = [] \<or> hd r \<in> {44, 0x5D, 0x7D})"

lemma num_end_simps [simp]: "num_end []" "num_end (44 # r)" "num_end (0x5D # r)" "num_end (0x7D # r)"
  by (simp_all add: num_end_def)

lemma num_end_delim: "num_end r \<Longrightarrow> delim r"
  by (cases r) (auto simp: num_end_def delim_def is_digit_not)

lemma rx_three_none:
  assumes "c \<in> {0x5B, 0x5D, 0x7B, 0x7D, 44, 58}"
  shows "rx_three (c # r) = None"
proof -
  have "\<not> is_digit c" using assms by (auto simp: is_digit_def)
  with assms show ?thesis
    by (auto simp: rx_three_def match_string_def js_def match_number_def Let_def)
qed

lemma rx_three_string:
  assumes "\<And>c. c \<in> set b \<Longrightarrow> string_char c"
  shows "rx_three (0x22 # b @ 0x22 # r) = Some (length b + 2)"
proof -
  have q: "\<not> string_char 0x22" by (simp add: string_char_def)
  have "takeWhile string_char (b @ 0x22 # r) = b" "dropWhile string_char (b @ 0x22 # r) = 0x22 # r"
    using assms q by (simp_all add: takeWhile_append2 dropWhile_append2)
  then show ?thesis by (simp add: rx_three_def match_string_def)
qed

lemma rx_three_number:
  assumes "num_end r"
  shows "rx_three (int_str i @ r) = Some (length (int_str i))"
proof -
  have r: "match_fraction r = 0" "match_exponent r = 0"
    using assms by (cases r; auto simp: num_end_def match_fraction_def match_exponent_def)+
  note d = takeWhile_digits [OF num_end_delim [OF assms]]
  have num: "match_number (int_str i @ r) = Some (length (int_str i))"
  proof (cases "i < 0")
    case True
    then have "int_str i = 45 # nat_digits (nat (- i))" by (simp add: int_str_def js_def)
    then show ?thesis using d r by (simp add: match_number_def Let_def)
  next
    case False
    have "hd (nat_digits (nat i)) \<noteq> 45" using hd_nat_digits [of "nat i"] is_digit_not by auto
    then have "\<not> starts_with [45] (nat_digits (nat i) @ r)"
      using nat_digits_not_Nil [of "nat i"] by (cases "nat_digits (nat i)") simp_all
    with False show ?thesis using d r by (simp add: match_number_def int_str_def Let_def)
  qed
  obtain c t where c: "int_str i = c # t" "c = 45 \<or> is_digit c" using int_str_head by blast
  then have "c \<notin> {0x22, 0x74, 0x66, 0x6E}" by (auto simp: is_digit_def)
  with num c show ?thesis by (auto simp: rx_three_def match_string_def js_def)
qed

lemma rx_three_word:
  assumes "w \<in> {js ''true'', js ''false'', js ''null''}"
  shows "rx_three (w @ r) = Some (length w)"
  using assms by (auto simp: rx_three_def match_string_def js_def)

lemma join_open:
  assumes "\<And>x r. x \<in> set xs \<Longrightarrow> arrays_open True (f x @ r) = arrays_open False r"
    and "\<And>x r. x \<in> set xs \<Longrightarrow> arrays_open ok (f x @ r) = arrays_open False r"
    and "c \<in> {0x5D, 0x7D}"
  shows "arrays_open ok (join_with [44] (map f xs) @ c # r) = arrays_open False r"
  using assms(1, 2)
proof (induction xs arbitrary: ok)
  case Nil
  then show ?case using assms(3) by auto
next
  case (Cons x xs)
  show ?case
  proof (cases xs)
    case Nil
    then show ?thesis using Cons.prems assms(3) by auto
  next
    case (Cons y ys)
    then have "join_with [44] (map f (x # xs)) @ c # r = f x @ 44 # join_with [44] (map f xs) @ c # r" by simp
    moreover have "arrays_open True (join_with [44] (map f xs) @ c # r) = arrays_open False r"
      using Cons.prems(1) by (intro Cons.IH) auto
    ultimately show ?thesis using Cons.prems(2) [of x] by simp
  qed
qed

lemma skeleton_open: "json_data v \<Longrightarrow> arrays_open True (skeleton v @ r) = arrays_open False r"
proof (induction v arbitrary: r)
  case (Arr xs)
  have "arrays_open True (join_with [44] (map skeleton xs) @ 0x5D # r) = arrays_open False r"
    using Arr by (intro join_open) auto
  then show ?case by simp
next
  case (Obj kvs)
  have member: "arrays_open ok ((case p of (k, x) \<Rightarrow> [0x5D, 58] @ skeleton x) @ r) = arrays_open False r"
    if "p \<in> set kvs" for p r ok
    using Obj.IH [of p "snd p" r] Obj.prems that by (cases p) (force simp: snds.simps)
  have "arrays_open False (join_with [44] (map (\<lambda>(k, x). [0x5D, 58] @ skeleton x) kvs) @ 0x7D # r) = arrays_open False r"
    by (intro join_open member) auto
  then show ?case by simp
qed simp_all

lemma punctuation_simps [simp]: "punctuation 0x5B" "punctuation 0x5D" "punctuation 44" "punctuation 58" "punctuation 0x7B" "punctuation 0x7D"
  by (simp_all add: punctuation_def)

lemma join_punctuation:
  "(\<And>x. x \<in> set xs \<Longrightarrow> list_all punctuation (f x)) \<Longrightarrow> list_all punctuation (join_with [44] (map f xs))"
proof (induction xs)
  case (Cons x xs)
  then show ?case by (cases xs) auto
qed simp

lemma skeleton_punctuation: "list_all punctuation (skeleton v)"
proof (induction v)
  case (Arr xs)
  then show ?case by (auto intro!: join_punctuation)
next
  case (Obj kvs)
  then show ?case by (force simp: snds.simps intro!: join_punctuation)
qed simp_all

lemma replace_word:
  "replace_rx rx_three [0x5D] (w @ r) = 0x5D # replace_rx rx_three [0x5D] r" if "rx_three (w @ r) = Some (length w)" "w \<noteq> []"
  using replace_rx_some [of rx_three w r "[0x5D]"] that by simp

lemma js_not_Nil: "js (c # s) \<noteq> []"
  by (simp add: js_def)

lemma replace_quoted:
  assumes "\<And>c x. x \<in> set (e2 c) \<Longrightarrow> string_char x"
  shows "replace_rx rx_three [0x5D] (quoted e2 s @ r) = 0x5D # replace_rx rx_three [0x5D] r"
  using rx_three_string [of "concat (map e2 s)" r] assms by (intro replace_word) (auto simp: quoted_def)

lemma replace_three_text:
  assumes e2: "\<And>c x. x \<in> set (e2 c) \<Longrightarrow> string_char x"
  shows "json_data v \<Longrightarrow> num_end r \<Longrightarrow>
    replace_rx rx_three [0x5D] (plain_text e2 v @ r) = skeleton v @ replace_rx rx_three [0x5D] r"
proof (induction v arbitrary: r)
  case (Bool b)
  then show ?case by (cases b) (simp_all add: replace_word rx_three_word js_not_Nil)
next
  case (Num x)
  then obtain i where i: "x = Fin (of_int i)" using json_data_num by blast
  have "int_str i \<noteq> []" using int_str_head [of i] by auto
  then show ?case using rx_three_number [OF Num.prems(2)] by (simp add: i num_str_of_int replace_word)
next
  case (Str s)
  then show ?case using replace_quoted [of e2] e2 by simp
next
  case (Arr xs)
  have "replace_rx rx_three [0x5D] (join_with [44] (map (plain_text e2) xs) @ 0x5D # r)
      = join_with [44] (map skeleton xs) @ replace_rx rx_three [0x5D] (0x5D # r)"
    using Arr by (intro join_replace [of xs num_end]) (auto simp: replace_rx_none rx_three_none)
  then show ?case by (simp add: replace_rx_none rx_three_none)
next
  case (Obj kvs)
  have member: "replace_rx rx_three [0x5D] (pair_text e2 p @ r) = (case p of (k, x) \<Rightarrow> [0x5D, 58] @ skeleton x) @ replace_rx rx_three [0x5D] r"
    if "p \<in> set kvs" "num_end r" for p r
  proof -
    have "replace_rx rx_three [0x5D] (plain_text e2 (snd p) @ r) = skeleton (snd p) @ replace_rx rx_three [0x5D] r"
      using Obj.IH [of p "snd p" r] Obj.prems that by (auto simp: snds.simps)
    then show ?thesis using replace_quoted [of e2 "fst p"] e2
      by (simp add: pair_text_def replace_rx_none rx_three_none case_prod_unfold)
  qed
  have "replace_rx rx_three [0x5D] (join_with [44] (map (pair_text e2) kvs) @ 0x7D # r)
      = join_with [44] (map (\<lambda>(k, x). [0x5D, 58] @ skeleton x) kvs) @ replace_rx rx_three [0x5D] (0x7D # r)"
    by (intro join_replace [of kvs num_end]) (auto simp: member replace_rx_none rx_three_none)
  then show ?case by (simp add: plain_text_Obj replace_rx_none rx_three_none)
qed (simp_all add: replace_word rx_three_word js_not_Nil)

locale filtered =
  fixes two :: matcher and esc esc2 :: "jchar \<Rightarrow> jstr"
  assumes esc_replaced: "replace_rx two [0x40] (esc c @ r) = esc2 c @ replace_rx two [0x40] r"
    and esc_chars: "x \<in> set (esc2 c) \<Longrightarrow> string_char x"
    and no_escape: "c \<noteq> 0x5C \<Longrightarrow> two (c # r) = None"
begin

lemma replace_plain: "0x5C \<notin> set w \<Longrightarrow> replace_rx two [0x40] (w @ r) = w @ replace_rx two [0x40] r"
  by (induction w) (auto simp: replace_rx_none no_escape)

lemma replace_chars: "replace_rx two [0x40] (concat (map esc s) @ r) = concat (map esc2 s) @ replace_rx two [0x40] r"
  by (induction s) (auto simp: esc_replaced)

lemma replace_two_quoted: "replace_rx two [0x40] (quoted esc s @ r) = quoted esc2 s @ replace_rx two [0x40] r"
  using replace_plain [of "[0x22]"] by (simp add: quoted_def replace_chars)

lemma replace_two_text:
  "json_data v \<Longrightarrow> replace_rx two [0x40] (plain_text esc v @ r) = plain_text esc2 v @ replace_rx two [0x40] r"
proof (induction v arbitrary: r)
  case (Num x)
  then obtain i where i: "x = Fin (of_int i)" using json_data_num by blast
  have "\<not> is_digit 0x5C" by (simp add: is_digit_def)
  then have "0x5C \<notin> set (int_str i)" using nat_digits_all_digits by (auto simp: int_str_def js_def)
  then show ?case by (simp add: i num_str_of_int replace_plain)
next
  case (Bool b)
  show ?case by (cases b) (simp_all add: replace_plain js_def del: append_Cons)
next
  case (Str s)
  show ?case by (simp add: replace_two_quoted)
next
  case (Arr xs)
  have "replace_rx two [0x40] (join_with [44] (map (plain_text esc) xs) @ 0x5D # r)
      = join_with [44] (map (plain_text esc2) xs) @ replace_rx two [0x40] (0x5D # r)"
    using Arr by (intro join_replace [of xs "\<lambda>_. True"]) (auto simp: replace_rx_none no_escape)
  then show ?case by (simp add: replace_rx_none no_escape)
next
  case (Obj kvs)
  have member: "replace_rx two [0x40] (pair_text esc p @ r) = pair_text esc2 p @ replace_rx two [0x40] r" if "p \<in> set kvs" for p r
  proof -
    have "replace_rx two [0x40] (plain_text esc (snd p) @ r) = plain_text esc2 (snd p) @ replace_rx two [0x40] r"
      using Obj.IH [of p "snd p" r] Obj.prems that by (auto simp: snds.simps)
    then show ?thesis by (simp add: pair_text_def replace_two_quoted replace_rx_none no_escape)
  qed
  have "replace_rx two [0x40] (join_with [44] (map (pair_text esc) kvs) @ 0x7D # r)
      = join_with [44] (map (pair_text esc2) kvs) @ replace_rx two [0x40] (0x7D # r)"
    by (intro join_replace [of kvs "\<lambda>_. True"]) (auto simp: member replace_rx_none no_escape)
  then show ?case by (simp add: plain_text_Obj replace_rx_none no_escape)
qed (simp_all add: replace_plain js_def del: append_Cons)

lemma accepted: "json_data v \<Longrightarrow> json_safe two (plain_text esc v)"
  using replace_two_text [of v "[]"] replace_three_text [of esc2 v "[]"] esc_chars
    skeleton_punctuation [of v] skeleton_open [of v "[]"]
  by (simp add: json_safe_def delete_four_open)

end

section \<open>Properties of the parser\<close>

lemma digit_val_hex_char: "d < 16 \<Longrightarrow> hex_char (hex_digit d)"
  by (simp add: hex_char_def hex_digit_val)

lemma nat_hex_chars: "list_all hex_char (nat_hex n)"
proof (induction n rule: nat_hex.induct)
  case (1 n)
  then show ?case by (subst nat_hex.simps) (simp add: digit_val_hex_char)
qed

lemma u_escape_chars: "\<exists>h. u_escape c = [0x5C, 0x75] @ h \<and> length h = 4 \<and> list_all hex_char h"
proof -
  obtain h where h: "u_escape c = [0x5C, 0x75] @ h" "length h = 4" using u_escape_form by blast
  have "list_all hex_char (js ''0000'')" by (simp add: js_def hex_char_def digit_val_def)
  then have "list_all hex_char (drop k (js ''0000'' @ nat_hex (unat c)))" for k
    using nat_hex_chars [of "unat c"] by (auto simp: list_all_iff dest!: in_set_dropD)
  with h show ?thesis by (auto simp: u_escape_def Let_def)
qed

lemma rx_two_escape: "rx_escapable c \<Longrightarrow> rx_two (escape_char c @ r) = Some (length (escape_char c))"
proof (cases "meta c")
  case (Some w)
  moreover assume "rx_escapable c"
  ultimately show ?thesis
    by (auto simp: escape_char_def rx_two_def short_escapes_def meta_def split: if_splits)
next
  case None
  moreover assume "rx_escapable c"
  moreover obtain h where "u_escape c = [0x5C, 0x75] @ h" "length h = 4" "list_all hex_char h" using u_escape_chars by blast
  ultimately show ?thesis by (simp add: escape_char_def rx_two_def short_escapes_def)
qed

lemma escape_char_not_Nil: "escape_char c \<noteq> []"
  by (auto simp: escape_char_def meta_def u_escape_def Let_def split: option.splits)

interpretation json2_filter: filtered rx_two escape_char "\<lambda>c. if rx_escapable c then [0x40] else [c]"
proof
  fix c r
  show "replace_rx rx_two [0x40] (escape_char c @ r)
      = (if rx_escapable c then [0x40] else [c]) @ replace_rx rx_two [0x40] r"
  proof (cases "rx_escapable c")
    case True
    then show ?thesis using replace_rx_some [of rx_two "escape_char c" r] rx_two_escape [of c r] escape_char_not_Nil by simp
  next
    case False
    then have "c \<noteq> 0x5C" by (auto simp: rx_escapable_def)
    then have "rx_two (c # r) = None" by (auto simp: rx_two_def split: list.splits)
    with False show ?thesis by (simp add: escape_char_plain replace_rx_none)
  qed
next
  fix x c :: jchar
  assume "x \<in> set (if rx_escapable c then [0x40] else [c])"
  then show "string_char x" by (auto simp: string_char_def rx_escapable_def split: if_splits)
next
  fix c :: jchar and r
  assume "c \<noteq> 0x5C"
  then show "rx_two (c # r) = None" by (auto simp: rx_two_def split: list.splits)
qed

lemma dangerous_escapable: "rx_dangerous c \<Longrightarrow> rx_escapable c \<and> c \<notin> {0x22, 0x5C}"
  by (auto simp: rx_dangerous_def rx_escapable_def)

lemma escape_char_safe: "d \<in> set (escape_char c) \<Longrightarrow> \<not> rx_dangerous d"
proof
  assume d: "d \<in> set (escape_char c)" "rx_dangerous d"
  then have "d \<in> set (quote [c])" by (simp add: quote_eq)
  then show False using quote_chars [of d "[c]"] dangerous_escapable [OF d(2)] by blast
qed

lemma join_chars: "c \<in> set (join_with [44] ws) \<Longrightarrow> c = 44 \<or> (\<exists>w \<in> set ws. c \<in> set w)"
proof (induction ws)
  case (Cons w ws)
  then show ?case by (cases ws) auto
qed simp

lemma plain_text_safe: "json_data v \<Longrightarrow> c \<in> set (plain_text escape_char v) \<Longrightarrow> \<not> rx_dangerous c"
proof (induction v)
  case (Num x)
  then obtain i where i: "x = Fin (of_int i)" using json_data_num by blast
  have "is_digit c \<Longrightarrow> \<not> rx_dangerous c" by (auto simp: is_digit_def rx_dangerous_def word_le_nat_alt)
  then show ?case using Num.prems nat_digits_all_digits
    by (auto simp: i num_str_of_int int_str_def js_def rx_dangerous_def split: if_splits)
next
  case (Bool b)
  then show ?case by (cases b) (auto simp: js_def rx_dangerous_def)
next
  case (Str s)
  then show ?case by (auto simp: quoted_def rx_dangerous_def [of "0x22"] dest: escape_char_safe)
next
  case (Arr xs)
  then show ?case by (auto simp: rx_dangerous_def [of "0x5B"] rx_dangerous_def [of "0x5D"] rx_dangerous_def [of "44"] dest!: join_chars)
next
  case (Obj kvs)
  have "\<not> rx_dangerous c" if "p \<in> set kvs" "c \<in> set (pair_text escape_char p)" for p
    using Obj.IH [of p "snd p"] Obj.prems(1) that
    by (auto simp: pair_text_def quoted_def snds.simps rx_dangerous_def [of "0x22"] rx_dangerous_def [of "0x3A"] dest: escape_char_safe)
  then show ?case using Obj.prems(2)
    by (auto simp: plain_text_Obj rx_dangerous_def [of "0x7B"] rx_dangerous_def [of "0x7D"] rx_dangerous_def [of "44"] dest!: join_chars)
qed (auto simp: js_def rx_dangerous_def)

text \<open>
  C15: \<open>JSON.parse\<close> gives nothing but JSON tokens to \<open>eval\<close>. Whatever \<open>eval\<close> does, if the parser returns a
  value, the text it evaluated (the argument with dangerous characters escaped) is a sequence of
  strings, numbers with an optional sign, the words true, false and null, braces, brackets, colons, commas and white
  space, and no bracket in it is an index. The order of the tokens is not checked: \<open>1-2\<close>, \<open>1,2\<close> and
  \<open>nulltrue\<close> are such sequences.
\<close>

theorem parse_evaluates_json:
  assumes "parse ev reviver text = Inr v"
  shows "json_tokens rx_two (replace_dangerous text)"
  using assms safe_tokens [OF proper_rx_two] by (auto simp: parse_def Let_def split: if_splits)

text \<open>
  C18: what \<open>JSON.stringify\<close> writes, \<open>JSON.parse\<close> accepts: for every value of integers, strings, booleans,
  null, arrays and objects, the text passes the filter and is given to \<open>eval\<close> unchanged,
  in parentheses.
\<close>

theorem parse_accepts_stringify:
  assumes "json_data v"
  shows "\<exists>t. stringify (\<lambda>_. None) (Suc (size v)) v NoRep NoSpace = Inr (Some (Some t))
    \<and> parse ev None t = ev ([40] @ t @ [41])"
proof -
  let ?t = "plain_text escape_char v"
  have "stringify (\<lambda>_. None) (Suc (size v)) v NoRep NoSpace = Inr (Some (Some ?t))"
    using str_compact [of v "Suc (size v)"] render_plain_text [OF assms] by (simp add: stringify_def del: str.simps)
  moreover have "replace_dangerous ?t = ?t"
    using plain_text_safe [OF assms] by (auto simp: replace_dangerous_def list_ex_iff)
  ultimately show ?thesis using json2_filter.accepted [OF assms] by (auto simp: parse_def Let_def split: sum.splits)
qed

section \<open>Revivers\<close>

text \<open>The reference: a value rebuilt from its leaves by a reviver that does not look at the holder.\<close>

function (sequential) revive :: "(jstr \<Rightarrow> jsval \<Rightarrow> jsval) \<Rightarrow> jstr \<Rightarrow> jsval \<Rightarrow> jsval" where
  "revive f key (Arr xs) =
     f key (Arr (map (\<lambda>(i, x). if x = Undefined then x else revive f (nat_digits i) x) (enumerate 0 xs)))"
| "revive f key (Obj kvs) =
     f key (Obj (filter (\<lambda>(k, y). y \<noteq> Undefined) (map (\<lambda>(k, x). (k, revive f k x)) kvs)))"
| "revive f key v = f key v"
  by pat_completeness auto
termination
proof (relation "measure (\<lambda>(_, _, v). size v)")
  fix f :: "jstr \<Rightarrow> jsval \<Rightarrow> jsval" and key i x and xs :: "jsval list" and p
  assume "p \<in> set (enumerate 0 xs)" "(i, x) = p"
  then have "x \<in> set xs" by (auto simp: in_set_enumerate_eq)
  then show "((f, nat_digits i, x), f, key, Arr xs) \<in> measure (\<lambda>(_, _, v). size v)"
    using size_list_member [of x xs size] by simp
next
  fix f :: "jstr \<Rightarrow> jsval \<Rightarrow> jsval" and key k x and kvs :: "(jstr \<times> jsval) list" and p
  assume "p \<in> set kvs" "(k, x) = p"
  then show "((f, k, x), f, key, Obj kvs) \<in> measure (\<lambda>(_, _, v). size v)"
    using size_pair_list [of k x kvs] by auto
qed simp

lemma walk_revive:
  "walk (\<lambda>_. f) mk key v = revive f key v"
  "walk_items (\<lambda>_. f) ys xs =
     ys @ map (\<lambda>(i, x). if x = Undefined then x else revive f (nat_digits i) x) (enumerate (length ys) xs)"
  "walk_members (\<lambda>_. f) ps kvs = ps @ filter (\<lambda>(k, y). y \<noteq> Undefined) (map (\<lambda>(k, x). (k, revive f k x)) kvs)"
  by (induction "\<lambda>_ :: jsval. f" mk key v and "\<lambda>_ :: jsval. f" ys xs and "\<lambda>_ :: jsval. f" ps kvs rule: walk_walk_items_walk_members.induct)
    (auto split: jsval.splits)

text \<open>
  C17: a reviver that looks at key and value only sees every part of the parsed value once, the parts
  before the whole: \<open>JSON.parse(text, reviver)\<close> is the value \<open>JSON.parse(text)\<close> rebuilt from its leaves, where
  members that become undefined are left out. Errors are the same with and without it.
\<close>

theorem parse_reviver:
  "parse ev (Some (\<lambda>_. f)) text = map_sum id (revive f []) (parse ev None text)"
  by (simp add: parse_def walk_revive Let_def split: sum.splits)

text \<open>
  The filter is no parser: words without a separator between them pass it, and \<open>eval\<close> sees an identifier; two
  numbers pass it as well, and \<open>eval\<close> sees a subtraction or a comma operator.
\<close>

lemma joined_words_pass: "json_safe rx_two (js ''nulltrue'')"
  by code_simp

lemma operators_pass: "json_safe rx_two (js ''1-2'')" "json_safe rx_two (js ''1,2'')"
  by code_simp+

theorem parse_evaluates_json_witness:
  "json_tokens rx_two (replace_dangerous (js '' [1, {}]''))"
proof (rule parse_evaluates_json)
  show "parse (\<lambda>_. Inr Null) None (js '' [1, {}]'') = Inr Null" by code_simp
qed

theorem parse_accepts_stringify_witness:
  "\<exists>t. stringify (\<lambda>_. None) (Suc (size (Arr [NumI (-3), Str [0x22, 0x2028]]))) (Arr [NumI (-3), Str [0x22, 0x2028]]) NoRep NoSpace
      = Inr (Some (Some t))
    \<and> parse (\<lambda>t. Inr (Str t)) None t = (\<lambda>t. Inr (Str t)) ([40] @ t @ [41])"
  by (rule parse_accepts_stringify) simp

section \<open>Dates\<close>

text \<open>\<open>f\<close> and \<open>Date.prototype.toJSON\<close>; \<open>None\<close> is an invalid date.\<close>

definition f_pad :: "int \<Rightarrow> jstr" where
  "f_pad n = (if n < 10 then js ''0'' @ int_str n else int_str n)"

definition date_toJSON :: "int option \<Rightarrow> jsval" where
  "date_toJSON date =
     (case date of
        None \<Rightarrow> Null
      | Some t \<Rightarrow>
          (let d = day_of t
           in Str (int_str (year_of_day d) @ js ''-'' @ f_pad (int (month_of_day d) + 1) @ js ''-'' @ f_pad (date_of_day d)
                @ js ''T'' @ f_pad (hour_of t) @ js '':'' @ f_pad (minute_of t) @ js '':'' @ f_pad (second_of t) @ js ''Z'')))"

text \<open>Reading the ISO form by the positions of its fields; the milliseconds may be missing.\<close>

definition read_iso :: "jstr \<Rightarrow> int" where
  "read_iso s =
     (let field = (\<lambda>i n. int (digits_val 10 (take n (drop i s))))
      in make_date (make_day (field 0 4) (field 5 2 - 1) (field 8 2))
           (make_time (field 11 2) (field 14 2) (field 17 2) (if s ! 19 = 46 then field 20 3 else 0)))"

text \<open>The years that are written with four digits.\<close>

definition iso_year :: "int \<Rightarrow> bool" where
  "iso_year t = (1000 \<le> year_of_day (day_of t) \<and> year_of_day (day_of t) < 10000)"

lemma f_pad_two: "0 \<le> n \<Longrightarrow> n < 100 \<Longrightarrow> length (f_pad n) = 2 \<and> digits_val 10 (f_pad n) = nat n"
proof (cases "n < 10")
  case True
  assume "0 \<le> n"
  then have "length (nat_digits (nat n)) = 1" using True by (subst nat_digits.simps) simp
  moreover have "digits_val 10 (48 # int_str n) = nat n"
    using digits_val_replicate [of 10 1 "int_str n"] \<open>0 \<le> n\<close> by (simp add: int_str_def)
  ultimately show ?thesis using True \<open>0 \<le> n\<close> by (simp add: f_pad_def int_str_def js_def)
next
  case False
  assume "n < 100"
  then have "length (nat_digits (nat n)) = 2" using False by (subst nat_digits.simps, subst nat_digits.simps) (auto simp: nat_div_distrib)
  with False show ?thesis by (simp add: f_pad_def int_str_def)
qed

lemma length_nat_digits_eq:
  assumes "10 ^ k \<le> n" "n < 10 ^ Suc k"
  shows "length (nat_digits n) = Suc k"
proof -
  have "10 ^ k \<le> n \<Longrightarrow> k < length (nat_digits n)" for k n
  proof (induction k arbitrary: n)
    case (Suc k)
    then have "10 ^ k \<le> n div 10" by (simp add: less_eq_div_iff_mult_less_eq)
    moreover have "(1 :: nat) \<le> 10 ^ k" by simp
    then have "\<not> n < 10" using Suc.prems unfolding power_Suc by linarith
    ultimately show ?case using Suc.IH [of "n div 10"] by (subst nat_digits.simps) simp
  qed simp
  with assms length_nat_digits [OF assms(2)] show ?thesis by (intro le_antisym) (auto simp: Suc_le_eq)
qed

lemma int_str_year:
  assumes "1000 \<le> y" "y < 10000"
  shows "length (int_str y) = 4 \<and> digits_val 10 (int_str y) = nat y"
proof -
  have "1000 \<le> nat y" "nat y < 10000" using assms by linarith+
  then have "length (nat_digits (nat y)) = 4" using length_nat_digits_eq [of 3 "nat y"] by simp
  with assms show ?thesis by (simp add: int_str_def)
qed

lemma read_iso_fields:
  assumes "length y = 4" "length mo = 2" "length d = 2" "length h = 2" "length mi = 2" "length s = 2"
  shows "read_iso (y @ js ''-'' @ mo @ js ''-'' @ d @ js ''T'' @ h @ js '':'' @ mi @ js '':'' @ s @ r)
    = make_date (make_day (int (digits_val 10 y)) (int (digits_val 10 mo) - 1) (int (digits_val 10 d)))
        (make_time (int (digits_val 10 h)) (int (digits_val 10 mi)) (int (digits_val 10 s))
          (if r ! 0 = 46 then int (digits_val 10 (take 3 (drop 1 r))) else 0))"
proof -
  have two: "length xs = 2 \<Longrightarrow> \<exists>a b. xs = [a, b]" for xs :: jstr
    by (auto simp: numeral_2_eq_2 length_Suc_conv)
  obtain y1 y2 y3 y4 where "y = [y1, y2, y3, y4]" using length4 [OF assms(1)] by blast
  moreover obtain m1 m2 d1 d2 h1 h2 n1 n2 s1 s2
    where "mo = [m1, m2]" "d = [d1, d2]" "h = [h1, h2]" "mi = [n1, n2]" "s = [s1, s2]"
    using two assms by meson
  ultimately show ?thesis by (simp add: read_iso_def js_def Let_def numeral_eq_Suc)
qed

lemma read_iso_date:
  assumes "iso_year t"
  shows "read_iso (int_str (year_of_day (day_of t)) @ js ''-'' @ f_pad (int (month_of_day (day_of t)) + 1) @ js ''-''
      @ f_pad (date_of_day (day_of t)) @ js ''T'' @ f_pad (hour_of t) @ js '':'' @ f_pad (minute_of t) @ js '':'' @ f_pad (second_of t) @ r)
    = t - t mod 1000 + (if r ! 0 = 46 then int (digits_val 10 (take 3 (drop 1 r))) else 0)"
proof -
  let ?d = "day_of t"
  note y = int_str_year [of "year_of_day ?d"]
  have m: "0 \<le> int (month_of_day ?d) + 1" "int (month_of_day ?d) + 1 < 100" using month_bounds [of ?d] by simp_all
  have dt: "0 \<le> date_of_day ?d" "date_of_day ?d < 100" using date_bounds [of ?d] by simp_all
  have "t = make_date ?d (make_time (hour_of t) (minute_of t) (second_of t) (t mod 1000))"
    using time_parts [of t] by (simp add: milli_of_def)
  then have cut: "make_date ?d (make_time (hour_of t) (minute_of t) (second_of t) k) = t - t mod 1000 + k" for k
    by (simp add: make_date_def make_time_def)
  show ?thesis
    using assms y f_pad_two [OF m] f_pad_two [OF dt] f_pad_two [of "hour_of t"] f_pad_two [of "minute_of t"]
      f_pad_two [of "second_of t"] time_ranges [of t] dt
    by (subst read_iso_fields) (simp_all add: iso_year_def make_day_of_day cut)
qed

text \<open>
  A date as text. For every time in the years 1000 to 9999, \<open>toJSON\<close> gives a text in ISO form from
  which the time can be read again, without its milliseconds.
\<close>

theorem date_json_roundtrip:
  assumes "iso_year t"
  shows "\<exists>s. date_toJSON (Some t) = Str s \<and> read_iso s = t - t mod 1000"
  using read_iso_date [OF assms, of "js ''Z''"] by (simp add: date_toJSON_def Let_def js_def)

theorem date_json_roundtrip_witness:
  "\<exists>s. date_toJSON (Some 1600000000123) = Str s \<and> read_iso s = 1600000000123 - 1600000000123 mod 1000"
  by (rule date_json_roundtrip) (simp add: iso_year_def day_of_def year_of_day_def day_from_year_def Let_def)

end
