(* ===== verification/Jq_Json.thy ===== *)
theory Jq_Json
  imports Json_Parse
begin

text \<open>
  \<open>src/html/resource/js/jquery.json-2.3.js\<close>: the functions the plugin defines where the browser has no \<open>JSON\<close>
  object. \<open>eval\<close> is a parameter, as in \<open>Json_Parse\<close>. The objects have only members of their own.
\<close>

section \<open>Serialising\<close>

definition escapeable :: "jchar \<Rightarrow> bool" where
  "escapeable c = (c = 0x22 \<or> c = 0x5C \<or> c \<le> 0x1F \<or> (0x7F \<le> c \<and> c \<le> 0x9F))"

definition jq_meta :: "jchar \<Rightarrow> jstr option" where
  "jq_meta c =
     (if c = 8 then Some [0x5C, 0x62]
      else if c = 9 then Some [0x5C, 0x74]
      else if c = 10 then Some [0x5C, 0x6E]
      else if c = 12 then Some [0x5C, 0x66]
      else if c = 13 then Some [0x5C, 0x72]
      else if c = 0x22 then Some [0x5C, 0x22]
      else if c = 0x5C then Some [0x5C, 0x5C]
      else None)"

text \<open>The function that \<open>quoteString\<close> gives to \<open>replace\<close>.\<close>

definition jq_escape :: "jchar \<Rightarrow> jstr" where
  "jq_escape a =
     (if \<not> escapeable a then [a]
      else case jq_meta a of
             Some c \<Rightarrow> c
           | None \<Rightarrow> (let c = unat a in [0x5C, 0x75, 48, 48] @ nat_hex (c div 16) @ nat_hex (c mod 16)))"

definition quoteString :: "jstr \<Rightarrow> jstr" where
  "quoteString s =
     (if list_ex escapeable s then js [CHR 0x22] @ concat (map jq_escape s) @ js [CHR 0x22]
      else js [CHR 0x22] @ s @ js [CHR 0x22])"

text \<open>The text of a date; \<open>None\<close> is an invalid date, whose parts are \<open>NaN\<close>.\<close>

definition milli_text :: "int \<Rightarrow> jstr" where
  "milli_text m =
     (let s = (if m < 100 then js ''0'' @ int_str m else int_str m) in if m < 10 then js ''0'' @ s else s)"

definition jq_date :: "int option \<Rightarrow> jstr" where
  "jq_date date =
     (case date of
        None \<Rightarrow> [0x22] @ js ''NaN-NaN-NaNTNaN:NaN:NaN.NaNZ'' @ [0x22]
      | Some t \<Rightarrow>
          (let d = day_of t; pad = (\<lambda>n. if n < 10 then js ''0'' @ int_str n else int_str n)
           in [0x22] @ int_str (year_of_day d) @ js ''-'' @ pad (int (month_of_day d) + 1) @ js ''-'' @ pad (date_of_day d)
              @ js ''T'' @ pad (hour_of t) @ js '':'' @ pad (minute_of t) @ js '':'' @ pad (second_of t)
              @ js ''.'' @ milli_text (milli_of t) @ js ''Z'' @ [0x22]))"

text \<open>
  \<open>$.toJSON\<close>. \<open>tj o\<close> is the result of the \<open>toJSON\<close> method of the object \<open>o\<close>, if it has one, and \<open>dt o\<close> the time of
  \<open>o\<close> if its constructor is \<open>Date\<close>. Fuel as for \<open>str\<close>; \<open>Some None\<close> is \<open>undefined\<close>, which becomes
  text when it is joined to a name.
\<close>

fun toJSON :: "(jsval \<Rightarrow> jsval option) \<Rightarrow> (jsval \<Rightarrow> int option option) \<Rightarrow> nat \<Rightarrow> jsval \<Rightarrow> jstr option option" where
  "toJSON tj dt 0 v = None"
| "toJSON tj dt (Suc n) v =
     (case v of
        Null \<Rightarrow> Some (Some (js ''null''))
      | Undefined \<Rightarrow> Some None
      | Num x \<Rightarrow> Some (Some (num_str x))
      | Bool b \<Rightarrow> Some (Some (if b then js ''true'' else js ''false''))
      | Str s \<Rightarrow> Some (Some (quoteString s))
      | Fun \<Rightarrow> Some None
      | _ \<Rightarrow>
          (case tj v of
             Some w \<Rightarrow> toJSON tj dt n w
           | None \<Rightarrow>
               (case dt v of
                  Some date \<Rightarrow> Some (Some (jq_date date))
                | None \<Rightarrow>
                    (case v of
                       Arr xs \<Rightarrow>
                         map_option (\<lambda>ts. Some ([0x5B] @ join_with [44] ts @ [0x5D]))
                           (those (map (\<lambda>x. map_option item_text (toJSON tj dt n x)) xs))
                     | Obj kvs \<Rightarrow>
                         map_option (\<lambda>ts. Some ([0x7B] @ join_with [44] ts @ [0x7D]))
                           (those (map (\<lambda>(k, x). map_option (\<lambda>t. quoteString k @ js '':''
                                            @ (case t of Some w \<Rightarrow> w | None \<Rightarrow> js ''undefined''))
                                          (toJSON tj dt n x))
                              (filter (\<lambda>(k, x). x \<noteq> Fun \<and> x \<noteq> Undefined) kvs)))
                     | _ \<Rightarrow> Some None))))"

section \<open>Reading\<close>

definition evalJSON :: "(jstr \<Rightarrow> json_error + jsval) \<Rightarrow> jstr \<Rightarrow> json_error + jsval" where
  "evalJSON ev src = ev ([40] @ src @ [41])"

definition jq_escapes :: matcher where
  "jq_escapes s =
     (case s of
        b # c # t \<Rightarrow> if b = 0x5C \<and> (c \<in> set short_escapes \<or> c = 0x75) then Some 2 else None
      | _ \<Rightarrow> None)"

definition secureEvalJSON :: "(jstr \<Rightarrow> json_error + jsval) \<Rightarrow> jstr \<Rightarrow> json_error + jsval" where
  "secureEvalJSON ev src = (if json_safe jq_escapes src then ev ([40] @ src @ [41]) else Inl JsonSyntaxError)"

section \<open>Escapes\<close>

lemma quoteString_eq: "quoteString s = quoted jq_escape s"
proof -
  have "\<not> list_ex escapeable s \<Longrightarrow> concat (map jq_escape s) = s"
    by (induction s) (auto simp: jq_escape_def)
  then show ?thesis by (auto simp: quoteString_def quoted_def js_def)
qed

text \<open>An escape is a character of its own, a short escape, or \<open>\u00\<close> with two hexadecimal digits.\<close>

lemma jq_escape_cases:
  obtains (plain) "jq_escape c = [c]" "c \<noteq> 0x22" "c \<noteq> 0x5C" "string_char c"
    | (short) e where "jq_escape c = [0x5C, e]" "unescape_short e = Some c" "e \<in> set short_escapes"
    | (hex) a b where "jq_escape c = [0x5C, 0x75, 48, 48, a, b]" "digits_val 16 [48, 48, a, b] = unat c" "hex_char a" "hex_char b"
proof (cases "escapeable c")
  case False
  then have "string_char c" "c \<noteq> 0x22" "c \<noteq> 0x5C" by (auto simp: escapeable_def string_char_def)
  with False show thesis by (intro plain) (simp add: jq_escape_def)
next
  case True
  show thesis
  proof (cases "jq_meta c")
    case (Some w)
    with True show thesis
      by (intro short [of "w ! 1"]) (auto simp: jq_escape_def jq_meta_def unescape_short_def short_escapes_def split: if_splits)
  next
    case None
    have "unat c < 160" using True by (auto simp: escapeable_def word_le_nat_alt)
    then have d: "unat c div 16 < 16" "unat c mod 16 < 16" by simp_all
    then have h: "nat_hex (unat c div 16) = [hex_digit (unat c div 16)]" "nat_hex (unat c mod 16) = [hex_digit (unat c mod 16)]"
      by (simp_all add: nat_hex.simps)
    have "length (nat_hex (unat c mod 16)) = 1" by (simp add: h)
    then have "digits_val 16 ([48, 48] @ nat_hex (unat c div 16) @ nat_hex (unat c mod 16)) = unat c"
      using digits_val_replicate [of 16 2] by (simp add: digits_val_append digits_val_nat_hex numeral_2_eq_2)
    with True None h show thesis
      using digit_val_hex_char [OF d(1)] digit_val_hex_char [OF d(2)] by (intro hex [of "hex_digit (unat c div 16)" "hex_digit (unat c mod 16)"]) (simp_all add: jq_escape_def Let_def)
  qed
qed

interpretation jq: escaping jq_escape
proof
  fix c s
  show "read_chars (jq_escape c @ s) = map_option (map_prod ((#) c) id) (read_chars s)"
    by (cases c rule: jq_escape_cases) (auto simp: unescape_short_def split: if_splits)
qed

interpretation jq_filter: filtered jq_escapes jq_escape "\<lambda>c. if hd (jq_escape c) = 0x5C then 0x40 # drop 2 (jq_escape c) else [c]"
proof
  fix c r
  show "replace_rx jq_escapes [0x40] (jq_escape c @ r)
      = (if hd (jq_escape c) = 0x5C then 0x40 # drop 2 (jq_escape c) else [c]) @ replace_rx jq_escapes [0x40] r"
  proof (cases c rule: jq_escape_cases)
    case plain
    then have "jq_escapes (c # r) = None" by (auto simp: jq_escapes_def split: list.splits)
    with plain show ?thesis by (simp add: replace_rx_none)
  next
    case (short e)
    then have "jq_escapes (jq_escape c @ r) = Some (length (jq_escape c))" by (simp add: jq_escapes_def)
    then show ?thesis using short replace_rx_some [of jq_escapes "jq_escape c" r "[0x40]"] by simp
  next
    case (hex a b)
    then have "a \<noteq> 0x5C" "b \<noteq> 0x5C" by (auto simp: hex_char_def digit_val_def)
    moreover have "jq_escapes (d # s) = None" if "d \<noteq> 0x5C" for d s
      using that by (auto simp: jq_escapes_def split: list.splits)
    moreover have "replace_rx jq_escapes [0x40] ([0x5C, 0x75] @ s) = [0x40] @ replace_rx jq_escapes [0x40] s" for s
      by (rule replace_rx_some) (simp_all add: jq_escapes_def)
    ultimately show ?thesis using hex by (simp add: replace_rx_none)
  qed
next
  fix x c :: jchar
  assume x: "x \<in> set (if hd (jq_escape c) = 0x5C then 0x40 # drop 2 (jq_escape c) else [c])"
  show "string_char x"
  proof (cases c rule: jq_escape_cases)
    case (hex a b)
    then have "string_char a" "string_char b" by (auto simp: hex_char_def digit_val_def string_char_def)
    with hex x show ?thesis by (auto simp: string_char_def)
  qed (use x in \<open>auto simp: string_char_def split: if_splits\<close>)
next
  fix c :: jchar and r
  assume "c \<noteq> 0x5C"
  then show "jq_escapes (c # r) = None" by (auto simp: jq_escapes_def split: list.splits)
qed

section \<open>The plugin writes and reads JSON\<close>

lemma toJSON_plain_text:
  "json_data v \<Longrightarrow> size v < n \<Longrightarrow> toJSON (\<lambda>_. None) (\<lambda>_. None) n v = Some (Some (plain_text jq_escape v))"
proof (induction n arbitrary: v)
  case (Suc n)
  show ?case
  proof (cases v)
    case (Arr xs)
    have "map_option item_text (toJSON (\<lambda>_. None) (\<lambda>_. None) n x) = Some (plain_text jq_escape x)" if "x \<in> set xs" for x
      using Suc.IH [of x] Suc.prems Arr that size_list_member [of x xs size] plain_text_head [of x jq_escape]
      by (auto simp: item_text_def)
    then have "those (map (\<lambda>x. map_option item_text (toJSON (\<lambda>_. None) (\<lambda>_. None) n x)) xs) = Some (map (plain_text jq_escape) xs)"
      by (intro those_map_Some) auto
    then show ?thesis using Arr by simp
  next
    case (Obj kvs)
    have *: "toJSON (\<lambda>_. None) (\<lambda>_. None) n x = Some (Some (plain_text jq_escape x))" "x \<noteq> Fun" "x \<noteq> Undefined" if "(k, x) \<in> set kvs" for k x
      using Suc.IH [of x] Suc.prems Obj that size_pair_list [OF that] by auto
    have "filter (\<lambda>(k, x). x \<noteq> Fun \<and> x \<noteq> Undefined) kvs = kvs" using *(2, 3) by (auto simp: filter_id_conv)
    moreover have "those (map (\<lambda>(k, x). map_option (\<lambda>t. quoteString k @ js '':'' @ (case t of Some w \<Rightarrow> w | None \<Rightarrow> js ''undefined''))
        (toJSON (\<lambda>_. None) (\<lambda>_. None) n x)) kvs) = Some (map (pair_text jq_escape) kvs)"
      using *(1) by (intro those_map_Some) (auto simp: pair_text_def quoteString_eq js_def)
    ultimately show ?thesis using Obj by (simp add: plain_text_Obj)
  qed (use Suc.prems in \<open>auto simp: quoteString_eq\<close>)
qed simp

text \<open>
  C16: the plugin's own serialiser and checked reader agree: for every value of integers, strings, booleans,
  null, arrays and objects (no fractions, no \<open>NaN\<close>, \<open>Infinity\<close> or \<open>undefined\<close>, no \<open>toJSON\<close> methods), \<open>$.toJSON\<close> returns a text that a JSON reader turns back into the value
  with nothing left over, and \<open>$.secureEvalJSON\<close> accepts that text and evaluates it as it is.
\<close>

theorem jq_json_roundtrip:
  assumes "json_data v"
  shows "\<exists>t. toJSON (\<lambda>_. None) (\<lambda>_. None) (Suc (size v)) v = Some (Some t)
    \<and> read_value (Suc (size v)) t = Some (v, []) \<and> secureEvalJSON ev t = evalJSON ev t"
  using toJSON_plain_text [OF assms, of "Suc (size v)"] jq.read_plain_text [OF assms, of "Suc (size v)" "[]"]
    jq_filter.accepted [OF assms]
  by (simp add: secureEvalJSON_def evalJSON_def del: toJSON.simps read_value.simps)

theorem jq_json_roundtrip_witness:
  "\<exists>t. toJSON (\<lambda>_. None) (\<lambda>_. None) (Suc (size (Obj [([0x22, 0x7F], Arr [NumI 5, Null])]))) (Obj [([0x22, 0x7F], Arr [NumI 5, Null])]) = Some (Some t)
    \<and> read_value (Suc (size (Obj [([0x22, 0x7F], Arr [NumI 5, Null])]))) t = Some (Obj [([0x22, 0x7F], Arr [NumI 5, Null])], [])
    \<and> secureEvalJSON (\<lambda>s. Inr (Str s)) t = evalJSON (\<lambda>s. Inr (Str s)) t"
  by (rule jq_json_roundtrip) simp

lemma proper_jq_escapes: "proper jq_escapes"
  by (auto simp: proper_def jq_escapes_def split: list.splits if_splits)

text \<open>
  \<open>$.secureEvalJSON\<close> evaluates nothing but JSON: if it returns a value, the text is a sequence of strings,
  numbers, the words true, false and null, punctuation and white space, and no bracket is an index.
\<close>

theorem secure_eval_json:
  assumes "secureEvalJSON ev src = Inr v"
  shows "json_tokens jq_escapes src"
  using assms safe_tokens [OF proper_jq_escapes] by (auto simp: secureEvalJSON_def split: if_splits)

theorem secure_eval_json_witness: "json_tokens jq_escapes (js ''{ }'')"
proof (rule secure_eval_json)
  show "secureEvalJSON (\<lambda>_. Inr Null) (js ''{ }'') = Inr Null" by code_simp
qed

lemma jq_date_iso:
  assumes "iso_year t"
  shows "\<exists>s. jq_date (Some t) = [0x22] @ s @ [0x22] \<and> read_iso s = t"
proof -
  have pad: "(\<lambda>n. if n < 10 then js ''0'' @ int_str n else int_str n) = f_pad" by (simp add: f_pad_def fun_eq_iff)
  have m: "0 \<le> milli_of t" "milli_of t < 1000" by (simp_all add: milli_of_def)
  have z: "digits_val 10 (48 # ds) = digits_val 10 ds" for ds using digits_val_replicate [of 10 1 ds] by simp
  consider "milli_of t < 10" | "10 \<le> milli_of t" "milli_of t < 100" | "100 \<le> milli_of t" by linarith
  then have "length (milli_text (milli_of t)) = 3 \<and> digits_val 10 (milli_text (milli_of t)) = nat (milli_of t)"
  proof cases
    case 1
    then have "length (nat_digits (nat (milli_of t))) = 1" by (subst nat_digits.simps) simp
    with 1 m show ?thesis by (simp add: milli_text_def int_str_def js_def z)
  next
    case 2
    then have "length (nat_digits (nat (milli_of t))) = Suc 1" using m by (intro length_nat_digits_eq) (simp_all add: nat_le_iff)
    with 2 m show ?thesis by (simp add: milli_text_def int_str_def js_def z)
  next
    case 3
    then have "length (nat_digits (nat (milli_of t))) = Suc 2" using m by (intro length_nat_digits_eq) (simp_all add: nat_le_iff)
    with 3 m show ?thesis by (simp add: milli_text_def int_str_def js_def)
  qed
  then show ?thesis using read_iso_date [OF assms, of "js ''.'' @ milli_text (milli_of t) @ js ''Z''"]
    by (simp add: jq_date_def pad Let_def js_def milli_of_def)
qed

end
