(* ===== verification/Js_Regex.thy ===== *)
theory Js_Regex
  imports Js_Prelude
begin

text \<open>
  Regular expressions that have to match a whole text, as in \<open>/^...$/.test(s)\<close>: classes of characters,
  sequence, choice and repetition. The test is by derivatives; \<open>lang\<close> is the set of texts it is
  proved to accept.
\<close>

section \<open>Expressions and the test\<close>

datatype rx =
    RNone
  | REps
  | RCls "jchar \<Rightarrow> bool"
  | RSeq rx rx
  | RAlt rx rx
  | RStar rx

fun nullable :: "rx \<Rightarrow> bool" where
  "nullable RNone = False"
| "nullable REps = True"
| "nullable (RCls p) = False"
| "nullable (RSeq a b) = (nullable a \<and> nullable b)"
| "nullable (RAlt a b) = (nullable a \<or> nullable b)"
| "nullable (RStar a) = True"

fun deriv :: "jchar \<Rightarrow> rx \<Rightarrow> rx" where
  "deriv c RNone = RNone"
| "deriv c REps = RNone"
| "deriv c (RCls p) = (if p c then REps else RNone)"
| "deriv c (RSeq a b) =
     (if nullable a then RAlt (RSeq (deriv c a) b) (deriv c b) else RSeq (deriv c a) b)"
| "deriv c (RAlt a b) = RAlt (deriv c a) (deriv c b)"
| "deriv c (RStar a) = RSeq (deriv c a) (RStar a)"

definition rx_test :: "rx \<Rightarrow> jstr \<Rightarrow> bool" where
  "rx_test r s = nullable (fold deriv s r)"

text \<open>The usual abbreviations: \<open>r+\<close>, \<open>r?\<close>, \<open>r{n}\<close>, one of several.\<close>

definition rx_plus :: "rx \<Rightarrow> rx" where
  "rx_plus r = RSeq r (RStar r)"

definition rx_opt :: "rx \<Rightarrow> rx" where
  "rx_opt r = RAlt r REps"

fun rx_times :: "nat \<Rightarrow> rx \<Rightarrow> rx" where
  "rx_times 0 r = REps"
| "rx_times (Suc n) r = RSeq r (rx_times n r)"

text \<open>A literal text in either case (the flag \<open>i\<close>).\<close>

definition lower_char :: "jchar \<Rightarrow> jchar" where
  "lower_char c = (if 0x41 \<le> c \<and> c \<le> 0x5A then c + 32 else c)"

fun rx_lit :: "jstr \<Rightarrow> rx" where
  "rx_lit [] = REps"
| "rx_lit (c # cs) = RSeq (RCls (\<lambda>x. lower_char x = c)) (rx_lit cs)"

fun rx_seq :: "rx list \<Rightarrow> rx" where
  "rx_seq [] = REps"
| "rx_seq (r # rs) = RSeq r (rx_seq rs)"

fun rx_alt :: "rx list \<Rightarrow> rx" where
  "rx_alt [] = RNone"
| "rx_alt (r # rs) = RAlt r (rx_alt rs)"

definition rx_digit :: rx where
  "rx_digit = RCls is_digit"

section \<open>The language of an expression\<close>

inductive lang :: "rx \<Rightarrow> jstr \<Rightarrow> bool" where
  eps: "lang REps []"
| cls: "p c \<Longrightarrow> lang (RCls p) [c]"
| seq: "lang a s \<Longrightarrow> lang b t \<Longrightarrow> lang (RSeq a b) (s @ t)"
| alt1: "lang a s \<Longrightarrow> lang (RAlt a b) s"
| alt2: "lang b s \<Longrightarrow> lang (RAlt a b) s"
| star0: "lang (RStar a) []"
| star: "lang a s \<Longrightarrow> s \<noteq> [] \<Longrightarrow> lang (RStar a) t \<Longrightarrow> lang (RStar a) (s @ t)"

inductive_simps lang_simps: "lang RNone s" "lang REps s" "lang (RCls p) s" "lang (RSeq a b) s" "lang (RAlt a b) s"

inductive_cases lang_starE: "lang (RStar a) s"

lemma nullable_lang: "nullable r = lang r []"
  by (induction r) (auto simp: lang_simps intro: lang.intros)

lemma deriv_lang: "lang (deriv c r) s = lang r (c # s)"
proof (induction r arbitrary: s)
  case (RSeq a b)
  show ?case
  proof
    assume "lang (deriv c (RSeq a b)) s"
    then consider u v where "s = u @ v" "lang a (c # u)" "lang b v" | "nullable a" "lang b (c # s)"
      using RSeq by (auto simp: lang_simps split: if_splits)
    then show "lang (RSeq a b) (c # s)"
    proof cases
      case 1
      then show ?thesis using lang.seq [of a "c # u" b v] by simp
    next
      case 2
      then show ?thesis using lang.seq [of a "[]" b "c # s"] by (simp add: nullable_lang)
    qed
  next
    assume "lang (RSeq a b) (c # s)"
    then obtain u v where uv: "c # s = u @ v" "lang a u" "lang b v" by (auto simp: lang_simps)
    then show "lang (deriv c (RSeq a b)) s"
    proof (cases u)
      case Nil
      with uv show ?thesis using RSeq by (auto simp: nullable_lang lang_simps)
    next
      case (Cons d u')
      with uv have "lang (RSeq (deriv c a) b) s" using RSeq by (auto simp: lang_simps)
      then show ?thesis by (auto simp: lang_simps)
    qed
  qed
next
  case (RStar a)
  show ?case
  proof
    assume "lang (deriv c (RStar a)) s"
    then obtain u v where "s = u @ v" "lang a (c # u)" "lang (RStar a) v" using RStar by (auto simp: lang_simps)
    then show "lang (RStar a) (c # s)" using lang.star [of a "c # u" v] by simp
  next
    assume "lang (RStar a) (c # s)"
    then obtain u v where uv: "c # s = u @ v" "lang a u" "u \<noteq> []" "lang (RStar a) v" by (auto elim: lang_starE)
    then obtain u' where "u = c # u'" "s = u' @ v" by (cases u) auto
    with uv have "lang (deriv c a) u'" using RStar by simp
    with uv \<open>s = u' @ v\<close> show "lang (deriv c (RStar a)) s" by (auto intro: lang.seq)
  qed
qed (auto simp: lang_simps)

theorem rx_test_lang: "rx_test r s = lang r s"
proof -
  have "nullable (fold deriv s r) = lang r s"
    by (induction s arbitrary: r) (simp_all add: nullable_lang deriv_lang)
  then show ?thesis by (simp add: rx_test_def)
qed

section \<open>Languages of the abbreviations\<close>

lemma lang_star_cls: "lang (RStar (RCls p)) s = list_all p s"
proof
  assume "lang (RStar (RCls p)) s"
  then show "list_all p s"
    by (induction "RStar (RCls p)" s rule: lang.induct) (auto simp: lang_simps)
next
  assume "list_all p s"
  then show "lang (RStar (RCls p)) s"
  proof (induction s)
    case (Cons c s)
    then show ?case using lang.star [of "RCls p" "[c]" s] by (simp add: lang.cls)
  qed (simp add: lang.star0)
qed

lemma lang_cls_seq: "lang (RSeq (RCls p) r) s = (\<exists>c t. s = c # t \<and> p c \<and> lang r t)"
proof
  assume "lang (RSeq (RCls p) r) s"
  then show "\<exists>c t. s = c # t \<and> p c \<and> lang r t" by (auto simp: lang_simps)
next
  assume "\<exists>c t. s = c # t \<and> p c \<and> lang r t"
  then obtain c t where "s = [c] @ t" "p c" "lang r t" by auto
  then show "lang (RSeq (RCls p) r) s" by (blast intro: lang.seq lang.cls)
qed

lemma lang_plus_cls: "lang (rx_plus (RCls p)) s = (s \<noteq> [] \<and> list_all p s)"
  by (cases s) (auto simp: rx_plus_def lang_cls_seq lang_star_cls)

lemma lang_opt: "lang (rx_opt r) s = (s = [] \<or> lang r s)"
  by (auto simp: rx_opt_def lang_simps)

lemma lang_times_cls: "lang (rx_times n (RCls p)) s = (length s = n \<and> list_all p s)"
proof (induction n arbitrary: s)
  case (Suc n)
  then show ?case by (cases s) (auto simp: lang_cls_seq)
qed (auto simp: lang_simps)

lemma lang_seq_cons: "lang (rx_seq (r # rs)) s = (\<exists>u v. s = u @ v \<and> lang r u \<and> lang (rx_seq rs) v)"
  by (auto simp: lang_simps)

lemma lang_alt: "lang (rx_alt rs) s = (\<exists>r \<in> set rs. lang r s)"
  by (induction rs) (auto simp: lang_simps)

text \<open>A letter, in either case: the classes \<open>[a-z]\<close> of an expression with the flag \<open>i\<close>.\<close>

definition letter :: "jchar \<Rightarrow> bool" where
  "letter c = ((0x61 \<le> c \<and> c \<le> 0x7A) \<or> (0x41 \<le> c \<and> c \<le> 0x5A))"

end
