(* ===== verification/Validate_Methods.thy ===== *)
theory Validate_Methods
  imports Js_Regex Js_Num
begin

text \<open>
  The form validation plugin \<open>src/html/resource/js/jquery.validate.js\<close>: fields, their values, and the methods
  that check one value. A method answers true or false, \<open>dependency-mismatch\<close> for a field that is optional and empty,
  or \<open>pending\<close>; \<open>Raise\<close> is an exception. The method \<open>remote\<close>, which changes the validator, is in \<open>Validate_Form\<close>.
\<close>

section \<open>Fields\<close>

text \<open>
  A field of a form: \<open>fl_id\<close> tells elements apart, \<open>fl_val\<close> is what \<open>$(element).val()\<close> returns, \<open>fl_selected\<close> the
  number of selected options. \<open>fl_button\<close> says that it is a submit, reset or image button, \<open>fl_ignored\<close> that
  it matches \<open>settings.ignore\<close>.
\<close>

record field =
  fl_id :: nat
  fl_node :: jstr
  fl_type :: jstr
  fl_name :: jstr
  fl_dom_id :: jstr
  fl_val :: jsval
  fl_checked :: bool
  fl_selected :: nat
  fl_disabled :: bool
  fl_button :: bool
  fl_ignored :: bool
  fl_class :: "jstr option"
  fl_attr :: "jstr \<Rightarrow> jstr option"
  fl_data :: "jstr \<Rightarrow> jsval"
  fl_title :: jstr

text \<open>
  What the plugin asks of the page around it: how many elements a selector finds in the form, the value of the
  first element a selector finds, whether \<open>new Date\<close> reads a text, the text of an element as a string, and the
  answer of a function given as the parameter of \<open>required\<close>.
\<close>

record venv =
  ve_select :: "jstr \<Rightarrow> nat"
  ve_target :: "jstr \<Rightarrow> jsval"
  ve_date :: "jstr \<Rightarrow> bool"
  ve_text :: "field \<Rightarrow> jstr"
  ve_fun :: "field \<Rightarrow> bool"

datatype answer = Mismatch | Pending | Res bool | Raise

definition lower :: "jstr \<Rightarrow> jstr" where
  "lower s = map lower_char s"

definition checkable :: "field \<Rightarrow> bool" where
  "checkable e = (js_contains (js ''radio'') (lower (fl_type e)) \<or> js_contains (js ''checkbox'') (lower (fl_type e)))"

definition findByName :: "field list \<Rightarrow> jstr \<Rightarrow> field list" where
  "findByName fs name = filter (\<lambda>e. fl_name e = name) fs"

definition elementValue :: "field list \<Rightarrow> field \<Rightarrow> jsval" where
  "elementValue fs e =
     (if fl_attr e (js ''type'') \<in> {Some (js ''radio''), Some (js ''checkbox'')} then
        (case filter (\<lambda>x. fl_node x = js ''input'' \<and> fl_name x = fl_name e \<and> fl_checked x) fs of
           x # _ \<Rightarrow> fl_val x
         | [] \<Rightarrow> Undefined)
      else (case fl_val e of Str s \<Rightarrow> Str (filter (\<lambda>c. c \<noteq> 13) s) | v \<Rightarrow> v))"

text \<open>\<open>$.trim\<close>: the empty text for \<open>null\<close> and \<open>undefined\<close>.\<close>

definition jq_trim :: "jsval \<Rightarrow> jstr" where
  "jq_trim v = (if v \<in> {Undefined, Null} then [] else js_trim (js_String v))"

definition getLength :: "field list \<Rightarrow> jstr \<Rightarrow> field \<Rightarrow> nat" where
  "getLength fs s e =
     (if fl_node e = js ''select'' then fl_selected e
      else if fl_node e = js ''input'' \<and> checkable e then length (filter fl_checked (findByName fs (fl_name e)))
      else length s)"

section \<open>Required and optional\<close>

fun depend :: "venv \<Rightarrow> field \<Rightarrow> jsval \<Rightarrow> bool" where
  "depend env e (Bool b) = b"
| "depend env e (Str s) = (ve_select env s \<noteq> 0)"
| "depend env e Fun = ve_fun env e"
| "depend env e _ = True"

text \<open>A value that has a positive length: a non-empty text or array.\<close>

fun has_length :: "jsval \<Rightarrow> bool" where
  "has_length (Str s) = (s \<noteq> [])"
| "has_length (Arr xs) = (xs \<noteq> [])"
| "has_length _ = False"

definition required :: "venv \<Rightarrow> field list \<Rightarrow> jsval \<Rightarrow> field \<Rightarrow> jsval \<Rightarrow> answer" where
  "required env fs v e param =
     (if \<not> depend env e param then Mismatch
      else if fl_node e = js ''select'' then Res (has_length (fl_val e))
      else if checkable e then Res (0 < getLength fs (js_String v) e)
      else Res (jq_trim v \<noteq> []))"

text \<open>\<open>this.optional(element)\<close>: true stands for \<open>dependency-mismatch\<close>.\<close>

definition optional :: "venv \<Rightarrow> field list \<Rightarrow> field \<Rightarrow> bool" where
  "optional env fs e = (required env fs (elementValue fs e) e Undefined = Res False)"

definition unless_optional :: "venv \<Rightarrow> field list \<Rightarrow> field \<Rightarrow> bool \<Rightarrow> answer" where
  "unless_optional env fs e b = (if optional env fs e then Mismatch else Res b)"

section \<open>Patterns\<close>

definition ucs :: "jchar \<Rightarrow> bool" where
  "ucs c = ((0xA0 \<le> c \<and> c \<le> 0xD7FF) \<or> (0xF900 \<le> c \<and> c \<le> 0xFDCF) \<or> (0xFDF0 \<le> c \<and> c \<le> 0xFFEF))"

definition alpha :: "jchar \<Rightarrow> bool" where "alpha c = (letter c \<or> ucs c)"
definition alnum :: "jchar \<Rightarrow> bool" where "alnum c = (letter c \<or> is_digit c \<or> ucs c)"
definition label_char :: "jchar \<Rightarrow> bool" where "label_char c = (alnum c \<or> c \<in> {0x2D, 0x2E, 0x5F, 0x7E})"

definition atext :: "jchar \<Rightarrow> bool" where
  "atext c = (alnum c \<or> c \<in> {0x21, 0x23, 0x24, 0x25, 0x26, 0x27, 0x2A, 0x2B, 0x2D, 0x2F, 0x3D, 0x3F, 0x5E, 0x5F, 0x60,
     0x7B, 0x7C, 0x7D, 0x7E})"

abbreviation rx_is :: "jchar \<Rightarrow> rx" where
  "rx_is c \<equiv> RCls (\<lambda>x. x = c)"

definition rx_label :: rx where
  "rx_label = RAlt (RCls alnum) (RSeq (RCls alnum) (RSeq (RStar (RCls label_char)) (RCls alnum)))"

definition rx_tld :: rx where
  "rx_tld = RAlt (RCls alpha) (RSeq (RCls alpha) (RSeq (RStar (RCls label_char)) (RCls alpha)))"

definition rx_domain :: rx where
  "rx_domain = RSeq (rx_plus (RSeq rx_label (rx_is 0x2E))) rx_tld"

definition rx_blank :: rx where "rx_blank = RCls (\<lambda>c. c \<in> {0x20, 0x09})"

definition rx_fws :: rx where
  "rx_fws = rx_opt (RSeq (rx_opt (RSeq (RStar rx_blank) (RSeq (rx_is 13) (rx_is 10)))) (rx_plus rx_blank))"

definition qtext :: "jchar \<Rightarrow> bool" where
  "qtext c = ((1 \<le> c \<and> c \<le> 8) \<or> c \<in> {0x0B, 0x0C} \<or> (0x0E \<le> c \<and> c \<le> 0x1F) \<or> c = 0x7F \<or> c = 0x21
     \<or> (0x23 \<le> c \<and> c \<le> 0x5B) \<or> (0x5D \<le> c \<and> c \<le> 0x7E) \<or> ucs c)"

definition qpair :: "jchar \<Rightarrow> bool" where
  "qpair c = ((1 \<le> c \<and> c \<le> 9) \<or> c \<in> {0x0B, 0x0C} \<or> (0x0D \<le> c \<and> c \<le> 0x7F) \<or> ucs c)"

definition rx_local :: rx where
  "rx_local =
     RAlt (RSeq (rx_plus (RCls atext)) (RStar (RSeq (rx_is 0x2E) (rx_plus (RCls atext)))))
       (rx_seq [rx_is 0x22, RStar (RSeq rx_fws (RAlt (RCls qtext) (RSeq (rx_is 0x5C) (RCls qpair)))), rx_fws, rx_is 0x22])"

definition rx_email :: rx where
  "rx_email = RSeq rx_local (RSeq (rx_is 0x40) rx_domain)"

definition rx_octet :: rx where
  "rx_octet = rx_alt [rx_digit, RSeq (RCls (\<lambda>c. 0x31 \<le> c \<and> c \<le> 0x39)) rx_digit, rx_seq [rx_is 0x31, rx_digit, rx_digit],
     rx_seq [rx_is 0x32, RCls (\<lambda>c. 0x30 \<le> c \<and> c \<le> 0x34), rx_digit],
     rx_seq [rx_is 0x32, rx_is 0x35, RCls (\<lambda>c. 0x30 \<le> c \<and> c \<le> 0x35)]]"

definition rx_ip :: rx where
  "rx_ip = rx_seq [rx_octet, rx_is 0x2E, rx_octet, rx_is 0x2E, rx_octet, rx_is 0x2E, rx_octet]"

definition uri_char :: "jchar \<Rightarrow> bool" where
  "uri_char c = (label_char c \<or> c \<in> {0x21, 0x24, 0x26, 0x27, 0x28, 0x29, 0x2A, 0x2B, 0x2C, 0x3B, 0x3D, 0x3A})"

definition rx_percent :: rx where
  "rx_percent = RSeq (rx_is 0x25) (rx_times 2 (RCls (\<lambda>c. digit_val c < 16)))"

definition rx_uchar :: rx where "rx_uchar = RAlt (RCls uri_char) rx_percent"
definition rx_pchar :: rx where "rx_pchar = RAlt rx_uchar (rx_is 0x40)"

definition rx_url :: rx where
  "rx_url = rx_seq
     [RAlt (RSeq (rx_lit (js ''http'')) (rx_opt (rx_lit (js ''s'')))) (RSeq (rx_opt (rx_lit (js ''s''))) (rx_lit (js ''ftp''))), rx_lit (js ''://''),
      rx_opt (RSeq (RStar rx_uchar) (rx_is 0x40)),
      RAlt rx_ip (RSeq rx_domain (rx_opt (rx_is 0x2E))),
      rx_opt (RSeq (rx_is 0x3A) (RStar rx_digit)),
      rx_opt (RSeq (rx_is 0x2F) (rx_opt (RSeq (rx_plus rx_pchar) (RStar (RSeq (rx_is 0x2F) (RStar rx_pchar)))))),
      rx_opt (RSeq (rx_is 0x3F) (RStar (rx_alt [rx_pchar, RCls (\<lambda>c. 0xE000 \<le> c \<and> c \<le> 0xF8FF), rx_is 0x2F, rx_is 0x3F]))),
      rx_opt (RSeq (rx_is 0x23) (RStar (rx_alt [rx_pchar, rx_is 0x2F, rx_is 0x3F])))]"

definition rx_dateISO :: rx where
  "rx_dateISO = (let sep = RCls (\<lambda>c. c \<in> {0x2F, 0x2D}); one_or_two = RAlt (rx_times 1 rx_digit) (rx_times 2 rx_digit)
     in rx_seq [rx_times 4 rx_digit, sep, one_or_two, sep, one_or_two])"

definition rx_number :: rx where
  "rx_number = rx_seq
     [rx_opt (rx_is 0x2D),
      rx_opt (RAlt (rx_plus rx_digit)
        (RSeq (rx_alt [rx_times 1 rx_digit, rx_times 2 rx_digit, rx_times 3 rx_digit])
           (rx_plus (RSeq (rx_is 0x2C) (rx_times 3 rx_digit))))),
      rx_opt (RSeq (rx_is 0x2E) (rx_plus rx_digit))]"

section \<open>Methods\<close>

text \<open>\<open>regex.test(value)\<close> tests the value as a text.\<close>

definition email :: "venv \<Rightarrow> field list \<Rightarrow> jsval \<Rightarrow> field \<Rightarrow> answer" where
  "email env fs v e = unless_optional env fs e (rx_test rx_email (js_String v))"

definition url :: "venv \<Rightarrow> field list \<Rightarrow> jsval \<Rightarrow> field \<Rightarrow> answer" where
  "url env fs v e = unless_optional env fs e (rx_test rx_url (js_String v))"

definition date :: "venv \<Rightarrow> field list \<Rightarrow> jsval \<Rightarrow> field \<Rightarrow> answer" where
  "date env fs v e = unless_optional env fs e (ve_date env (js_String v))"

definition dateISO :: "venv \<Rightarrow> field list \<Rightarrow> jsval \<Rightarrow> field \<Rightarrow> answer" where
  "dateISO env fs v e = unless_optional env fs e (rx_test rx_dateISO (js_String v))"

definition number :: "venv \<Rightarrow> field list \<Rightarrow> jsval \<Rightarrow> field \<Rightarrow> answer" where
  "number env fs v e = unless_optional env fs e (rx_test rx_number (js_String v))"

definition digits :: "venv \<Rightarrow> field list \<Rightarrow> jsval \<Rightarrow> field \<Rightarrow> answer" where
  "digits env fs v e = unless_optional env fs e (rx_test (rx_plus rx_digit) (js_String v))"

text \<open>The loop of \<open>creditcard\<close>, from the last digit on: \<open>nCheck\<close> and \<open>bEven\<close>.\<close>

fun luhn_loop :: "jstr \<Rightarrow> nat \<Rightarrow> bool \<Rightarrow> nat" where
  "luhn_loop [] nCheck bEven = nCheck"
| "luhn_loop (c # cs) nCheck bEven =
     (let nDigit = unat (c - 48);
          nDigit' = (if bEven then (if nDigit * 2 > 9 then nDigit * 2 - 9 else nDigit * 2) else nDigit)
      in luhn_loop cs (nCheck + nDigit') (\<not> bEven))"

definition creditcard :: "venv \<Rightarrow> field list \<Rightarrow> jsval \<Rightarrow> field \<Rightarrow> answer" where
  "creditcard env fs v e =
     (if optional env fs e then Mismatch
      else if list_ex (\<lambda>c. \<not> is_digit c \<and> c \<noteq> 0x20 \<and> c \<noteq> 0x2D) (js_String v) then Res False
      else (case v of
              Str s \<Rightarrow> Res (luhn_loop (rev (filter is_digit s)) 0 False mod 10 = 0)
            | _ \<Rightarrow> Raise))"

definition length_of :: "field list \<Rightarrow> jsval \<Rightarrow> field \<Rightarrow> nat" where
  "length_of fs v e = (case v of Arr xs \<Rightarrow> length xs | _ \<Rightarrow> getLength fs (jq_trim v) e)"

text \<open>\<open>x >= y\<close>: by code units if both are texts, as numbers otherwise. An array counts as its text.\<close>

fun to_number :: "jsval \<Rightarrow> jnum" where
  "to_number Null = Fin 0"
| "to_number (Bool b) = Fin (if b then 1 else 0)"
| "to_number (Num n) = n"
| "to_number (Str s) = str_num s"
| "to_number (Arr xs) = str_num (js_String (Arr xs))"
| "to_number _ = NaN"

fun str_le :: "jstr \<Rightarrow> jstr \<Rightarrow> bool" where
  "str_le [] t = True"
| "str_le (c # s) [] = False"
| "str_le (c # s) (d # t) = (c < d \<or> (c = d \<and> str_le s t))"

definition js_prim :: "jsval \<Rightarrow> jsval" where
  "js_prim v = (case v of Arr xs \<Rightarrow> Str (js_String v) | Obj ms \<Rightarrow> Str (js_String v) | _ \<Rightarrow> v)"

definition js_val_ge :: "jsval \<Rightarrow> jsval \<Rightarrow> bool" where
  "js_val_ge x y =
     (case (js_prim x, js_prim y) of
        (Str s, Str t) \<Rightarrow> str_le t s
      | (a, b) \<Rightarrow> js_ge (to_number a) (to_number b))"

text \<open>\<open>param[i]\<close>.\<close>

definition param_at :: "jsval \<Rightarrow> nat \<Rightarrow> jsval" where
  "param_at p i =
     (case p of
        Arr xs \<Rightarrow> if i < length xs then xs ! i else Undefined
      | Str s \<Rightarrow> if i < length s then Str [s ! i] else Undefined
      | _ \<Rightarrow> Undefined)"

definition minlength :: "venv \<Rightarrow> field list \<Rightarrow> jsval \<Rightarrow> field \<Rightarrow> jsval \<Rightarrow> answer" where
  "minlength env fs v e param = unless_optional env fs e (js_val_ge (NumI (int (length_of fs v e))) param)"

definition maxlength :: "venv \<Rightarrow> field list \<Rightarrow> jsval \<Rightarrow> field \<Rightarrow> jsval \<Rightarrow> answer" where
  "maxlength env fs v e param = unless_optional env fs e (js_val_ge param (NumI (int (length_of fs v e))))"

definition rangelength :: "venv \<Rightarrow> field list \<Rightarrow> jsval \<Rightarrow> field \<Rightarrow> jsval \<Rightarrow> answer" where
  "rangelength env fs v e param =
     (let n = NumI (int (length_of fs v e))
      in unless_optional env fs e (js_val_ge n (param_at param 0) \<and> js_val_ge (param_at param 1) n))"

definition min_method :: "venv \<Rightarrow> field list \<Rightarrow> jsval \<Rightarrow> field \<Rightarrow> jsval \<Rightarrow> answer" where
  "min_method env fs v e param = unless_optional env fs e (js_val_ge v param)"

definition max_method :: "venv \<Rightarrow> field list \<Rightarrow> jsval \<Rightarrow> field \<Rightarrow> jsval \<Rightarrow> answer" where
  "max_method env fs v e param = unless_optional env fs e (js_val_ge param v)"

definition range_method :: "venv \<Rightarrow> field list \<Rightarrow> jsval \<Rightarrow> field \<Rightarrow> jsval \<Rightarrow> answer" where
  "range_method env fs v e param =
     unless_optional env fs e (js_val_ge v (param_at param 0) \<and> js_val_ge (param_at param 1) v)"

text \<open>\<open>===\<close> on the values a field can have.\<close>

fun js_same :: "jsval \<Rightarrow> jsval \<Rightarrow> bool" where
  "js_same (Str s) (Str t) = (s = t)"
| "js_same Undefined Undefined = True"
| "js_same Null Null = True"
| "js_same (Bool a) (Bool b) = (a = b)"
| "js_same (Num x) (Num y) = js_num_eq x y"
| "js_same _ _ = False"

definition equalTo :: "venv \<Rightarrow> jsval \<Rightarrow> jsval \<Rightarrow> answer" where
  "equalTo env v param = Res (js_same v (ve_target env (js_String param)))"

section \<open>Messages\<close>

text \<open>\<open>$.validator.format(source, params)\<close> with the list of parameters.\<close>

fun format_from :: "nat \<Rightarrow> jstr \<Rightarrow> jsval list \<Rightarrow> jstr" where
  "format_from i source [] = source"
| "format_from i source (n # ns) =
     format_from (Suc i) (replace_all (js ''{'' @ nat_digits i @ js ''}'') (js_String n) source) ns"

definition format :: "jstr \<Rightarrow> jsval \<Rightarrow> jstr" where
  "format source params = format_from 0 source (case params of Arr xs \<Rightarrow> xs | v \<Rightarrow> [v])"

text \<open>The function \<open>$.validator.format(source)\<close> applied to parameters and element.\<close>

definition format_fun :: "venv \<Rightarrow> jstr \<Rightarrow> jsval \<Rightarrow> field \<Rightarrow> jstr" where
  "format_fun env source params e =
     format_from 0 source (case params of Arr xs \<Rightarrow> xs | v \<Rightarrow> [v, Str (ve_text env e)])"

section \<open>Check digits\<close>

text \<open>What a digit adds to the sum, in an odd and in an even place from the end.\<close>

definition luhn_digit :: "bool \<Rightarrow> nat \<Rightarrow> nat" where
  "luhn_digit ev d = (if ev then (if d * 2 > 9 then d * 2 - 9 else d * 2) else d)"

fun luhn_sum :: "jstr \<Rightarrow> bool \<Rightarrow> nat" where
  "luhn_sum [] ev = 0"
| "luhn_sum (c # cs) ev = luhn_digit ev (unat (c - 48)) + luhn_sum cs (\<not> ev)"

lemma luhn_loop_sum: "luhn_loop cs n b = n + luhn_sum cs b"
  by (induction cs n b rule: luhn_loop.induct) (auto simp: luhn_digit_def Let_def)

lemma luhn_sum_append: "luhn_sum (xs @ ys) b = luhn_sum xs b + luhn_sum ys (if odd (length xs) then \<not> b else b)"
  by (induction xs arbitrary: b) auto

lemma digit_value: "is_digit c \<Longrightarrow> \<exists>d < 10. c = of_nat (48 + d) \<and> unat (c - 48) = d"
proof -
  assume c: "is_digit c"
  have "48 \<le> c" using c by (simp add: is_digit_def)
  then have d: "unat (c - 48) = unat c - 48" by (simp add: unat_sub)
  have "unat c \<le> 57" "48 \<le> unat c" using c by (auto simp: is_digit_def word_le_nat_alt)
  with d show ?thesis by (intro exI [of _ "unat c - 48"]) auto
qed

lemma luhn_table:
  "list_all (\<lambda>b. list_all (\<lambda>c. list_all (\<lambda>d. c = d \<or>
     luhn_digit b c mod 10 \<noteq> luhn_digit b d mod 10 \<and>
     (c = 0 \<and> d = 9 \<or> c = 9 \<and> d = 0 \<or>
       (luhn_digit b c + luhn_digit (\<not> b) d) mod 10 \<noteq> (luhn_digit b d + luhn_digit (\<not> b) c) mod 10))
     [0..<10]) [0..<10]) [True, False]"
  by code_simp

lemma luhn_pair:
  assumes "c < 10" "d < 10"
  shows "c = d \<or> luhn_digit b c mod 10 \<noteq> luhn_digit b d mod 10 \<and>
     (c = 0 \<and> d = 9 \<or> c = 9 \<and> d = 0 \<or>
       (luhn_digit b c + luhn_digit (\<not> b) d) mod 10 \<noteq> (luhn_digit b d + luhn_digit (\<not> b) c) mod 10)"
proof -
  have "b \<in> set [True, False]" "c \<in> set [0..<10]" "d \<in> set [0..<10]" using assms by (cases b; simp)+
  then show ?thesis using luhn_table unfolding list_all_iff by blast
qed

lemma mod_sum_cancel: "(x + y) mod 10 = (x + z) mod (10 :: nat) \<Longrightarrow> y mod 10 = z mod 10"
  by (auto simp: nat_mod_eq_iff)

definition card_char :: "jchar \<Rightarrow> bool" where
  "card_char c = (is_digit c \<or> c = 0x20 \<or> c = 0x2D)"

lemma creditcard_eq:
  "\<not> optional env fs e \<Longrightarrow> list_all card_char s \<Longrightarrow>
    creditcard env fs (Str s) e = Res (luhn_sum (rev (filter is_digit s)) False mod 10 = 0)"
  by (auto simp: creditcard_def card_char_def list_ex_iff list_all_iff luhn_loop_sum)

text \<open>
  C25: a wrong digit is found. If \<open>creditcard\<close> accepts a number, it rejects every number that differs in one
  digit, wherever spaces and dashes are put.
\<close>

theorem creditcard_single_error:
  assumes "\<not> optional env fs e" "list_all card_char (a @ b)" "is_digit c" "is_digit c'" "c \<noteq> c'"
    and "creditcard env fs (Str (a @ c # b)) e = Res True"
  shows "creditcard env fs (Str (a @ c' # b)) e = Res False"
proof -
  let ?b = "rev (filter is_digit b)" and ?a = "rev (filter is_digit a)"
  obtain d where d: "d < 10" "c = of_nat (48 + d)" "unat (c - 48) = d" using digit_value [OF assms(3)] by blast
  obtain d' where d': "d' < 10" "c' = of_nat (48 + d')" "unat (c' - 48) = d'" using digit_value [OF assms(4)] by blast
  have chars: "list_all card_char (a @ c # b)" "list_all card_char (a @ c' # b)"
    using assms by (auto simp: card_char_def)
  define ev where "ev = odd (length ?b)"
  have sum: "luhn_sum (rev (filter is_digit (a @ x # b))) False
      = luhn_sum ?b False + luhn_sum ?a (\<not> ev) + luhn_digit ev (unat (x - 48))" if "is_digit x" for x
    using that by (simp add: luhn_sum_append ev_def)
  have "d \<noteq> d'" using d d' assms(5) by auto
  then have "luhn_digit ev d mod 10 \<noteq> luhn_digit ev d' mod 10" using luhn_pair d d' by blast
  then have "(luhn_sum ?b False + luhn_sum ?a (\<not> ev) + luhn_digit ev d) mod 10
      \<noteq> (luhn_sum ?b False + luhn_sum ?a (\<not> ev) + luhn_digit ev d') mod 10" using mod_sum_cancel by blast
  then show ?thesis
    using assms(6) sum [OF assms(3)] sum [OF assms(4)] d d' unfolding creditcard_eq [OF assms(1) chars(1)] creditcard_eq [OF assms(1) chars(2)]
    by simp
qed

text \<open>Two neighbouring digits in the wrong order are found, unless they are 0 and 9.\<close>

theorem creditcard_transposition:
  assumes "\<not> optional env fs e" "list_all card_char (a @ b)" "is_digit c" "is_digit c'" "c \<noteq> c'" "{c, c'} \<noteq> {48, 57}"
    and "creditcard env fs (Str (a @ c # c' # b)) e = Res True"
  shows "creditcard env fs (Str (a @ c' # c # b)) e = Res False"
proof -
  let ?b = "rev (filter is_digit b)" and ?a = "rev (filter is_digit a)"
  obtain d where d: "d < 10" "c = of_nat (48 + d)" "unat (c - 48) = d" using digit_value [OF assms(3)] by blast
  obtain d' where d': "d' < 10" "c' = of_nat (48 + d')" "unat (c' - 48) = d'" using digit_value [OF assms(4)] by blast
  have chars: "list_all card_char (a @ c # c' # b)" "list_all card_char (a @ c' # c # b)"
    using assms by (auto simp: card_char_def)
  define ev where "ev = odd (length ?b)"
  have sum: "luhn_sum (rev (filter is_digit (a @ x # y # b))) False
      = luhn_sum ?b False + luhn_sum ?a ev + (luhn_digit ev (unat (y - 48)) + luhn_digit (\<not> ev) (unat (x - 48)))"
    if "is_digit x" "is_digit y" for x y
    using that by (simp add: luhn_sum_append ev_def)
  have "d \<noteq> d'" "\<not> (d' = 0 \<and> d = 9)" "\<not> (d' = 9 \<and> d = 0)" using d d' assms(5, 6) by auto
  then have "(luhn_digit ev d' + luhn_digit (\<not> ev) d) mod 10 \<noteq> (luhn_digit ev d + luhn_digit (\<not> ev) d') mod 10"
    using luhn_pair [of d' d ev] d(1) d'(1) by auto
  then have "(luhn_sum ?b False + luhn_sum ?a ev + (luhn_digit ev d' + luhn_digit (\<not> ev) d)) mod 10
      \<noteq> (luhn_sum ?b False + luhn_sum ?a ev + (luhn_digit ev d + luhn_digit (\<not> ev) d')) mod 10" using mod_sum_cancel by blast
  then show ?thesis
    using assms(7) sum [OF assms(3, 4)] sum [OF assms(4, 3)] d d' unfolding creditcard_eq [OF assms(1) chars(1)] creditcard_eq [OF assms(1) chars(2)]
    by simp
qed

section \<open>Addresses\<close>

lemma lang_digit: "lang rx_digit s = (\<exists>c. s = [c] \<and> is_digit c)"
  by (simp add: rx_digit_def lang_simps)

text \<open>The character of a digit.\<close>

definition digit_char :: "nat \<Rightarrow> jchar" where
  "digit_char d = of_nat (48 + d)"

lemma digit_range:
  assumes "i \<le> j" "j < 10"
  shows "(digit_char i \<le> c \<and> c \<le> digit_char j) = (\<exists>a. i \<le> a \<and> a < Suc j \<and> c = digit_char a)"
proof
  have u: "a < 10 \<Longrightarrow> unat (digit_char a) = 48 + a" for a
    unfolding digit_char_def by (rule unat_of_nat16) simp
  {
    assume "digit_char i \<le> c \<and> c \<le> digit_char j"
    then have "48 + i \<le> unat c" "unat c \<le> 48 + j" using assms u [of i] u [of j] by (simp_all add: word_le_nat_alt)
    moreover from this have "c = digit_char (unat c - 48)" by (simp add: digit_char_def)
    ultimately show "\<exists>a. i \<le> a \<and> a < Suc j \<and> c = digit_char a" by (intro exI [of _ "unat c - 48"]) auto
  next
    assume "\<exists>a. i \<le> a \<and> a < Suc j \<and> c = digit_char a"
    then show "digit_char i \<le> c \<and> c \<le> digit_char j" using assms u by (auto simp: word_le_nat_alt)
  }
qed

lemma digit_chars: "digit_char 0 = 0x30" "digit_char 1 = 0x31" "digit_char 2 = 0x32" "digit_char 4 = 0x34" "digit_char 5 = 0x35" "digit_char 9 = 0x39"
  by (simp_all add: digit_char_def)

lemma digit_classes:
  "is_digit c = (\<exists>a < 10. c = digit_char a)"
  "(0x31 \<le> c \<and> c \<le> 0x39) = (\<exists>a. 0 < a \<and> a < 10 \<and> c = digit_char a)"
  "(0x30 \<le> c \<and> c \<le> 0x34) = (\<exists>a < 5. c = digit_char a)"
  "(0x30 \<le> c \<and> c \<le> 0x35) = (\<exists>a < 6. c = digit_char a)"
proof -
  show "is_digit c = (\<exists>a < 10. c = digit_char a)" using digit_range [of 0 9 c] by (simp add: digit_chars is_digit_def)
  show "(0x31 \<le> c \<and> c \<le> 0x39) = (\<exists>a. 0 < a \<and> a < 10 \<and> c = digit_char a)"
    using digit_range [of 1 9 c] by (simp add: digit_chars digit_char_def [of "Suc 0"] Suc_le_eq)
  show "(0x30 \<le> c \<and> c \<le> 0x34) = (\<exists>a < 5. c = digit_char a)" using digit_range [of 0 4 c] by (simp add: digit_chars)
  show "(0x30 \<le> c \<and> c \<le> 0x35) = (\<exists>a < 6. c = digit_char a)" using digit_range [of 0 5 c] by (simp add: digit_chars)
qed

lemma octet_merge:
  "((\<exists>b d. b < 10 \<and> d < 10 \<and> Q 1 b d) \<or> (\<exists>b d. b < 5 \<and> d < 10 \<and> Q 2 b d) \<or> (\<exists>d < 6. Q 2 5 d))
     = (\<exists>a b d. b < 10 \<and> d < 10 \<and> (a = 1 \<or> a = 2 \<and> (b < 5 \<or> b = 5 \<and> d < 6)) \<and> Q (a :: nat) (b :: nat) (d :: nat))"
  (is "?l = ?r")
proof
  assume ?l
  then consider b d where "b < 10" "d < 10" "Q 1 b d" | b d where "b < 5" "d < 10" "Q 2 b d" | d where "d < 6" "Q 2 5 d" by blast
  then show ?r
  proof cases
    case 2
    then have "b < 10" by simp
    with 2 show ?r by blast
  next
    case 3
    then have "d < 10" "(5 :: nat) < 10" by simp_all
    with 3 show ?r by blast
  qed blast
qed blast

lemma ex_two: "(\<exists>c t. s = c # t \<and> A c \<and> (\<exists>d. t = [d] \<and> B d)) = (\<exists>c d. s = [c, d] \<and> A c \<and> B d)"
  by blast

lemma ex_three: "(\<exists>t. s = x # t \<and> (\<exists>c d. t = [c, d] \<and> P c d)) = (\<exists>c d. s = [x, c, d] \<and> P c d)"
  by blast

lemma ex_last: "(\<exists>t. s = x # t \<and> (\<exists>d. t = [y, d] \<and> P d)) = (\<exists>d. s = [x, y, d] \<and> P d)"
  by blast

lemma lang_octet:
  "lang rx_octet s =
     ((\<exists>d < 10. s = [digit_char d]) \<or> (\<exists>a d. 0 < a \<and> a < 10 \<and> d < 10 \<and> s = [digit_char a, digit_char d])
      \<or> (\<exists>a b d. b < 10 \<and> d < 10 \<and> (a = 1 \<or> a = 2 \<and> (b < 5 \<or> b = 5 \<and> d < 6)) \<and> s = [digit_char a, digit_char b, digit_char d]))"
proof -
  have "lang rx_octet s =
     ((\<exists>x. s = [x] \<and> is_digit x) \<or> (\<exists>y x. s = [y, x] \<and> (0x31 \<le> y \<and> y \<le> 0x39) \<and> is_digit x)
      \<or> (\<exists>y x. s = [0x31, y, x] \<and> is_digit y \<and> is_digit x) \<or> (\<exists>y x. s = [0x32, y, x] \<and> (0x30 \<le> y \<and> y \<le> 0x34) \<and> is_digit x)
      \<or> (\<exists>x. s = [0x32, 0x35, x] \<and> (0x30 \<le> x \<and> x \<le> 0x35)))"
    unfolding rx_octet_def rx_digit_def
    by (simp add: lang_simps(1, 2, 5) lang_cls_seq lang_simps(3) ex_two ex_three ex_last
        ex_two [where A = "\<lambda>c. _ c \<and> _ c", simplified conj_assoc])
  also have "\<dots> = ((\<exists>d < 10. s = [digit_char d]) \<or> (\<exists>a d. 0 < a \<and> a < 10 \<and> d < 10 \<and> s = [digit_char a, digit_char d])
      \<or> ((\<exists>b d. b < 10 \<and> d < 10 \<and> s = [digit_char 1, digit_char b, digit_char d])
      \<or> (\<exists>b d. b < 5 \<and> d < 10 \<and> s = [digit_char 2, digit_char b, digit_char d])
      \<or> (\<exists>d < 6. s = [digit_char 2, digit_char 5, digit_char d])))"
    unfolding digit_classes digit_chars by blast
  finally show ?thesis unfolding octet_merge [of "\<lambda>a b d. s = [digit_char a, digit_char b, digit_char d]"] .
qed

lemma nat_digits_small: "d < 10 \<Longrightarrow> nat_digits d = [digit_char d]"
  unfolding digit_char_def by (subst nat_digits.simps) simp

lemma nat_digits_step: "0 < m \<Longrightarrow> d < 10 \<Longrightarrow> nat_digits (10 * m + d) = nat_digits m @ [digit_char d]"
  unfolding digit_char_def by (subst nat_digits.simps) simp

lemma nat_digits_two: "0 < a \<Longrightarrow> a < 10 \<Longrightarrow> d < 10 \<Longrightarrow> nat_digits (10 * a + d) = [digit_char a, digit_char d]"
  by (simp add: nat_digits_step nat_digits_small)

lemma nat_digits_three:
  "0 < a \<Longrightarrow> a < 10 \<Longrightarrow> b < 10 \<Longrightarrow> d < 10 \<Longrightarrow> nat_digits (100 * a + 10 * b + d) = [digit_char a, digit_char b, digit_char d]"
  using nat_digits_step [of "10 * a + b" d] nat_digits_two [of a b] by (simp add: algebra_simps)

text \<open>
  The pattern of one part of an IP address in \<open>url\<close> accepts exactly the decimal numbers from 0 to 255,
  without leading zeros.
\<close>

theorem octet_exact: "rx_test rx_octet s = (\<exists>n \<le> 255. s = nat_digits n)"
proof
  assume "\<exists>n \<le> 255. s = nat_digits n"
  then obtain n where n: "n \<le> 255" "s = nat_digits n" by blast
  consider "n < 10" | "10 \<le> n" "n < 100" | "100 \<le> n" by linarith
  then have "lang rx_octet s"
  proof cases
    case 1
    then show ?thesis using n by (auto simp: lang_octet nat_digits_small)
  next
    case 2
    then have "n = 10 * (n div 10) + n mod 10" "0 < n div 10" "n div 10 < 10" "n mod 10 < 10" by presburger+
    with n show ?thesis unfolding lang_octet using nat_digits_two [of "n div 10" "n mod 10"] by metis
  next
    case 3
    define a b d where "a = n div 100" and "b = n mod 100 div 10" and "d = n mod 100 mod 10"
    have abd: "n = 100 * a + 10 * b + d" "b < 10" "d < 10" by (simp_all add: a_def b_def d_def)
    then have ad: "0 < a" "a < 10" "a = 1 \<or> a = 2 \<and> (b < 5 \<or> b = 5 \<and> d < 6)"
      using 3 n(1) by linarith+
    have "s = [digit_char a, digit_char b, digit_char d]" unfolding n(2) abd(1) using ad abd by (intro nat_digits_three)
    with ad abd show ?thesis unfolding lang_octet by blast
  qed
  then show "rx_test rx_octet s" by (simp add: rx_test_lang)
next
  assume "rx_test rx_octet s"
  then consider d where "d < 10" "s = [digit_char d]"
    | a d where "0 < a" "a < 10" "d < 10" "s = [digit_char a, digit_char d]"
    | a b d where "b < 10" "d < 10" "a = 1 \<or> a = 2 \<and> (b < 5 \<or> b = 5 \<and> d < 6)" "s = [digit_char a, digit_char b, digit_char d]"
    unfolding rx_test_lang lang_octet by blast
  then show "\<exists>n \<le> 255. s = nat_digits n"
  proof cases
    case 1
    then show ?thesis using nat_digits_small [of d] by (intro exI [of _ d]) simp
  next
    case 2
    then show ?thesis using nat_digits_two [of a d] by (intro exI [of _ "10 * a + d"]) simp
  next
    case 3
    then show ?thesis using nat_digits_three [of a b d] by (intro exI [of _ "100 * a + 10 * b + d"]) auto
  qed
qed

lemma lang_last: "lang (RSeq a (RCls p)) s \<Longrightarrow> p (last s)"
  by (auto simp: lang_simps)

lemma label_chars: "lang rx_label s \<Longrightarrow> list_all label_char s"
  by (auto simp: rx_label_def lang_simps lang_star_cls label_char_def)

lemma tld_chars: "lang rx_tld s \<Longrightarrow> list_all label_char s \<and> s \<noteq> [] \<and> alpha (last s)"
  by (auto simp: rx_tld_def lang_simps lang_star_cls label_char_def alnum_def alpha_def)

lemma star_all: "lang (RStar r) s \<Longrightarrow> (\<And>t. lang r t \<Longrightarrow> list_all p t) \<Longrightarrow> list_all p s"
  by (induction "RStar r" s rule: lang.induct) auto

lemma domain_chars: "lang rx_domain s \<Longrightarrow> list_all label_char s \<and> 0x2E \<in> set s \<and> alpha (last s)"
proof -
  have dot: "list_all label_char t \<and> 0x2E \<in> set t" if "lang (RSeq rx_label (rx_is 0x2E)) t" for t
    using that by (auto simp: lang_simps label_char_def dest!: label_chars)
  assume "lang rx_domain s"
  then obtain u c where "s = u @ c" "lang (RSeq (RSeq rx_label (rx_is 0x2E)) (RStar (RSeq rx_label (rx_is 0x2E)))) u" "lang rx_tld c"
    unfolding rx_domain_def rx_plus_def lang_simps(4) [of _ rx_tld] by blast
  then obtain a b where "s = a @ b @ c" "lang (RSeq rx_label (rx_is 0x2E)) a" "lang (RStar (RSeq rx_label (rx_is 0x2E))) b" "lang rx_tld c"
    unfolding lang_simps(4) [of _ "RStar _"] by auto
  then show ?thesis using dot star_all [of "RSeq rx_label (rx_is 0x2E)" b label_char] tld_chars [of c] by auto
qed

lemma local_not_Nil: "lang rx_local s \<Longrightarrow> s \<noteq> []"
  by (auto simp: rx_local_def lang_simps lang_plus_cls)

text \<open>
  C26: what \<open>email\<close> accepts has an at sign between a non-empty first part and a domain. The domain has at least
  one dot; each of its code units is an ASCII letter or digit, a dot, hyphen, underscore or tilde, or lies in one of the
  ranges A0 to D7FF, F900 to FDCF and FDF0 to FFEF; and the last one is an ASCII letter or lies in one of these ranges. The
  pattern takes the ranges for letters, but they also hold units such as the no-break space.
\<close>

theorem email_shape:
  assumes "email env fs (Str s) e = Res True"
  shows "\<exists>l d. s = l @ [0x40] @ d \<and> l \<noteq> [] \<and> 0x2E \<in> set d
    \<and> list_all (\<lambda>c. letter c \<or> is_digit c \<or> c \<in> {0x2D, 0x2E, 0x5F, 0x7E}
        \<or> 0xA0 \<le> c \<and> c \<le> 0xD7FF \<or> 0xF900 \<le> c \<and> c \<le> 0xFDCF \<or> 0xFDF0 \<le> c \<and> c \<le> 0xFFEF) d
    \<and> (letter (last d) \<or> 0xA0 \<le> last d \<and> last d \<le> 0xD7FF \<or> 0xF900 \<le> last d \<and> last d \<le> 0xFDCF
        \<or> 0xFDF0 \<le> last d \<and> last d \<le> 0xFFEF)"
proof -
  have "lang rx_email s"
    using assms by (auto simp: email_def unless_optional_def rx_test_lang split: if_splits)
  then obtain l d where s: "s = l @ [0x40] @ d" "lang rx_local l" "lang rx_domain d"
    by (auto simp: rx_email_def lang_simps(3, 4))
  from domain_chars [OF s(3)] have "0x2E \<in> set d" "list_all label_char d" "alpha (last d)" by simp_all
  with s local_not_Nil show ?thesis
    unfolding list_all_iff label_char_def alnum_def alpha_def ucs_def by blast
qed

text \<open>A no-break space after the last dot counts as a top-level domain.\<close>

lemma blank_domain_is_email: "rx_test rx_email (js ''a@b.'' @ [0xA0])"
  by code_simp

section \<open>Digits and lengths\<close>

text \<open>
  The pattern of \<open>number\<close> has no obligatory part: a single minus sign is a number for it.
\<close>

lemma minus_is_number: "rx_test rx_number (js ''-'')"
  by code_simp

text \<open>A field of the console: a text input with a value.\<close>

definition text_field :: "jstr \<Rightarrow> jstr \<Rightarrow> field" where
  "text_field name v = \<lparr>fl_id = 0, fl_node = js ''input'', fl_type = js ''text'', fl_name = name, fl_dom_id = name, fl_val = Str v,
     fl_checked = False, fl_selected = 0, fl_disabled = False, fl_button = False, fl_ignored = False, fl_class = None,
     fl_attr = (\<lambda>_. None), fl_data = (\<lambda>_. Undefined), fl_title = []\<rparr>"

definition plain_env :: venv where
  "plain_env = \<lparr>ve_select = (\<lambda>_. 0), ve_target = (\<lambda>_. Undefined), ve_date = (\<lambda>_. False), ve_text = (\<lambda>_. []), ve_fun = (\<lambda>_. False)\<rparr>"

theorem creditcard_single_error_witness:
  "creditcard plain_env [] (Str (js ''79927398710'')) (text_field (js ''card'') (js ''79927398713'')) = Res False"
proof -
  let ?e = "text_field (js ''card'') (js ''79927398713'')"
  have a: "\<not> optional plain_env [] ?e" by code_simp
  have b: "creditcard plain_env [] (Str (js ''7992739871'' @ 51 # [])) ?e = Res True" by code_simp
  have "creditcard plain_env [] (Str (js ''7992739871'' @ 48 # [])) ?e = Res False"
    by (rule creditcard_single_error [OF a _ _ _ _ b]) (simp_all add: js_def card_char_def is_digit_def)
  then show ?thesis by (simp add: js_def)
qed

theorem email_shape_witness:
  "\<exists>l d. js ''admin@xrkmonitor.com'' = l @ [0x40] @ d \<and> l \<noteq> [] \<and> 0x2E \<in> set d
    \<and> list_all (\<lambda>c. letter c \<or> is_digit c \<or> c \<in> {0x2D, 0x2E, 0x5F, 0x7E}
        \<or> 0xA0 \<le> c \<and> c \<le> 0xD7FF \<or> 0xF900 \<le> c \<and> c \<le> 0xFDCF \<or> 0xFDF0 \<le> c \<and> c \<le> 0xFFEF) d
    \<and> (letter (last d) \<or> 0xA0 \<le> last d \<and> last d \<le> 0xD7FF \<or> 0xF900 \<le> last d \<and> last d \<le> 0xFDCF
        \<or> 0xFDF0 \<le> last d \<and> last d \<le> 0xFFEF)"
proof (rule email_shape)
  show "email plain_env [] (Str (js ''admin@xrkmonitor.com'')) (text_field [] (js ''a'')) = Res True" by code_simp
qed

end
