(* ===== verification/Validate_Rules.thy ===== *)
theory Validate_Rules
  imports Validate_Methods
begin

text \<open>
  Which rules of \<open>src/html/resource/js/jquery.validate.js\<close> apply to a field: rules by class, by attribute, by data
  and those given for its name, merged and normalised. Rules are association lists of method names and
  parameters in the order of the object's members.
\<close>

section \<open>Rules\<close>

text \<open>
  A parameter is a value, a function of the element, or an object with \<open>param\<close> and \<open>depends\<close>, which is
  a selector or a function.
\<close>

datatype depends = DNone | DSel jstr | DFun "field \<Rightarrow> bool"

datatype param =
    Plain jsval
  | Func "field \<Rightarrow> jsval"
  | Cond "jsval option" depends

type_synonym rules = "(jstr \<times> param) list"

datatype rule_source = RuleText jstr | RuleMap rules

fun truthy :: "param \<Rightarrow> bool" where
  "truthy (Plain v) = js_truthy v"
| "truthy _ = True"

text \<open>\<open>delete rules[name]\<close> and \<open>$.extend(target, source)\<close>.\<close>

definition del_rule :: "jstr \<Rightarrow> rules \<Rightarrow> rules" where
  "del_rule k rs = filter (\<lambda>(k', _). k' \<noteq> k) rs"

fun is_undefined :: "param \<Rightarrow> bool" where
  "is_undefined (Plain v) = (v = Undefined)"
| "is_undefined _ = False"

definition extend_rules :: "rules \<Rightarrow> rules \<Rightarrow> rules" where
  "extend_rules target source = fold (\<lambda>(k, p) rs. if is_undefined p then rs else put_entry k p rs) source target"

section \<open>Where rules come from\<close>

text \<open>\<open>s.split(/\s/)\<close>.\<close>

fun split_ws :: "jstr \<Rightarrow> jstr list" where
  "split_ws [] = [[]]"
| "split_ws (c # s) = (if js_ws c then [] # split_ws s else (c # hd (split_ws s)) # tl (split_ws s))"

definition normalizeRule :: "rule_source \<Rightarrow> rules" where
  "normalizeRule data =
     (case data of
        RuleText s \<Rightarrow> fold (\<lambda>w rs. put_entry w (Plain (Bool True)) rs) (split_ws s) []
      | RuleMap rs \<Rightarrow> rs)"

definition classRules :: "(jstr \<times> rules) list \<Rightarrow> field \<Rightarrow> rules" where
  "classRules classRuleSettings e =
     (case fl_class e of
        None \<Rightarrow> []
      | Some classes \<Rightarrow>
          fold (\<lambda>c rs. case map_of classRuleSettings c of Some r \<Rightarrow> extend_rules rs r | None \<Rightarrow> rs) (split_on 32 classes) [])"

definition mentions_any :: "string list \<Rightarrow> jstr \<Rightarrow> bool" where
  "mentions_any ws s = list_ex (\<lambda>w. js_contains (js w) s) ws"

definition attribute_value :: "field \<Rightarrow> jstr \<Rightarrow> jsval" where
  "attribute_value e m =
     (let type = fl_attr e (js ''type'');
          value = (if m = js ''required'' then Bool (fl_attr e m \<noteq> None)
                   else (case fl_attr e m of Some s \<Rightarrow> Str s | None \<Rightarrow> Undefined))
      in if mentions_any [''min'', ''max''] m
            \<and> (case type of None \<Rightarrow> True | Some t \<Rightarrow> mentions_any [''number'', ''range'', ''text''] t)
         then Num (to_number value) else value)"

definition attributeRules :: "jstr list \<Rightarrow> field \<Rightarrow> rules" where
  "attributeRules methods e =
     (let type = fl_attr e (js ''type'');
          rules = fold (\<lambda>m rs.
            let value = attribute_value e m
            in if js_truthy value then put_entry m (Plain value) rs
               else if type = Some m \<and> type \<noteq> Some (js ''range'') then put_entry m (Plain (Bool True)) rs
               else rs) methods []
      in case map_of rules (js ''maxlength'') of
           Some (Plain v) \<Rightarrow>
             if mentions_any [''-1'', ''2147483647'', ''524288''] (js_String v) then del_rule (js ''maxlength'') rules else rules
         | _ \<Rightarrow> rules)"

definition dataRules :: "jstr list \<Rightarrow> field \<Rightarrow> rules" where
  "dataRules methods e =
     fold (\<lambda>m rs. let value = fl_data e (js ''rule-'' @ lower m)
                  in if value \<noteq> Undefined then put_entry m (Plain value) rs else rs) methods []"

definition staticRules :: "(jstr \<times> rule_source) list \<Rightarrow> field \<Rightarrow> rules" where
  "staticRules settings_rules e =
     (case map_of settings_rules (fl_name e) of Some r \<Rightarrow> normalizeRule r | None \<Rightarrow> [])"

section \<open>Normalising\<close>

text \<open>The first pass: explicit \<open>false\<close> and dependencies. \<open>None\<close> is the exception for a \<open>null\<close> parameter.\<close>

fun depends_truthy :: "depends \<Rightarrow> bool" where
  "depends_truthy DNone = False"
| "depends_truthy (DSel s) = (s \<noteq> [])"
| "depends_truthy (DFun f) = True"

fun keep_rule :: "venv \<Rightarrow> field \<Rightarrow> depends \<Rightarrow> bool" where
  "keep_rule env e DNone = True"
| "keep_rule env e (DSel s) = (ve_select env s \<noteq> 0)"
| "keep_rule env e (DFun f) = f e"

definition dependency :: "venv \<Rightarrow> field \<Rightarrow> param \<Rightarrow> param option option" where
  "dependency env e p =
     (case p of
        Plain v \<Rightarrow>
          if v = Bool False then Some None
          else if v \<in> {Null, Undefined} then None
          else Some (Some p)
      | Func f \<Rightarrow> Some (Some p)
      | Cond v d \<Rightarrow>
          if (case v of Some w \<Rightarrow> js_truthy w | None \<Rightarrow> False) \<or> depends_truthy d then
            (if keep_rule env e d then Some (Some (Plain (case v of Some w \<Rightarrow> w | None \<Rightarrow> Bool True))) else Some None)
          else Some (Some p))"

fun handle_dependencies :: "venv \<Rightarrow> field \<Rightarrow> rules \<Rightarrow> rules option" where
  "handle_dependencies env e [] = Some []"
| "handle_dependencies env e ((k, p) # rs) =
     (case dependency env e p of
        None \<Rightarrow> None
      | Some q \<Rightarrow> map_option (\<lambda>rs'. case q of Some p' \<Rightarrow> (k, p') # rs' | None \<Rightarrow> rs') (handle_dependencies env e rs))"

fun evaluate_param :: "field \<Rightarrow> param \<Rightarrow> param" where
  "evaluate_param e (Func f) = Plain (f e)"
| "evaluate_param e p = p"

text \<open>The value of a parameter; an object with \<open>param\<close> or \<open>depends\<close> is an object like others.\<close>

fun param_value :: "param \<Rightarrow> jsval" where
  "param_value (Plain v) = v"
| "param_value (Func f) = Fun"
| "param_value (Cond v d) = Obj []"

definition update_rule :: "string \<Rightarrow> (jsval \<Rightarrow> jsval) \<Rightarrow> rules \<Rightarrow> rules" where
  "update_rule k f rs =
     (case map_of rs (js k) of
        Some p \<Rightarrow> if truthy p then put_entry (js k) (Plain (f (param_value p))) rs else rs
      | None \<Rightarrow> rs)"

text \<open>\<open>s.split(/[\s,]+/)\<close>: a run of separators counts once.\<close>

fun split_seps :: "bool \<Rightarrow> jstr \<Rightarrow> jstr list" where
  "split_seps sep [] = [[]]"
| "split_seps sep (c # s) =
     (if js_ws c \<or> c = 44 then (if sep then split_seps True s else [] # split_seps True s)
      else (c # hd (split_seps False s)) # tl (split_seps False s))"

definition range_value :: "jsval \<Rightarrow> jsval" where
  "range_value v =
     (case v of
        Arr xs \<Rightarrow> Arr [Num (to_number (param_at v 0)), Num (to_number (param_at v 1))]
      | Str s \<Rightarrow>
          (let parts = Arr (map Str (split_seps False s))
           in Arr [Num (to_number (param_at parts 0)), Num (to_number (param_at parts 1))])
      | _ \<Rightarrow> v)"

definition auto_range :: "string \<Rightarrow> string \<Rightarrow> string \<Rightarrow> rules \<Rightarrow> rules" where
  "auto_range lo hi name rs =
     (case (map_of rs (js lo), map_of rs (js hi)) of
        (Some p, Some q) \<Rightarrow>
          if truthy p \<and> truthy q
          then del_rule (js hi) (del_rule (js lo) (put_entry (js name) (Plain (Arr [param_value p, param_value q])) rs))
          else rs
      | _ \<Rightarrow> rs)"

definition normalizeRules :: "venv \<Rightarrow> bool \<Rightarrow> field \<Rightarrow> rules \<Rightarrow> rules option" where
  "normalizeRules env autoCreateRanges e rules =
     map_option (\<lambda>rs0.
       let rs1 = map (\<lambda>(k, p). (k, evaluate_param e p)) rs0;
           rs2 = update_rule ''maxlength'' (\<lambda>v. Num (to_number v)) (update_rule ''minlength'' (\<lambda>v. Num (to_number v)) rs1);
           rs3 = update_rule ''range'' range_value (update_rule ''rangelength'' range_value rs2)
       in if autoCreateRanges
          then auto_range ''minlength'' ''maxlength'' ''rangelength'' (auto_range ''min'' ''max'' ''range'' rs3)
          else rs3)
       (handle_dependencies env e rules)"

section \<open>The rules of a field\<close>

text \<open>
  The parts of the plugin and of the settings that rules depend on: the names of the methods, the rules by class, the
  rules by name and \<open>autoCreateRanges\<close>.
\<close>

record rule_config =
  rc_methods :: "jstr list"
  rc_classRuleSettings :: "(jstr \<times> rules) list"
  rc_rules :: "(jstr \<times> rule_source) list"
  rc_autoCreateRanges :: bool

definition merged_rules :: "rule_config \<Rightarrow> field \<Rightarrow> rules" where
  "merged_rules cf e =
     extend_rules (extend_rules (extend_rules (extend_rules [] (classRules (rc_classRuleSettings cf) e)) (attributeRules (rc_methods cf) e))
       (dataRules (rc_methods cf) e)) (staticRules (rc_rules cf) e)"

definition required_first :: "rules \<Rightarrow> rules" where
  "required_first data =
     (case map_of data (js ''required'') of
        Some p \<Rightarrow> if truthy p then extend_rules [(js ''required'', p)] (del_rule (js ''required'') data) else data
      | None \<Rightarrow> data)"

definition rules_of :: "venv \<Rightarrow> rule_config \<Rightarrow> field \<Rightarrow> rules option" where
  "rules_of env cf e = map_option required_first (normalizeRules env (rc_autoCreateRanges cf) e (merged_rules cf e))"

text \<open>\<open>rules("add", argument)\<close> and \<open>rules("remove", argument)\<close> change the rules of a name.\<close>

definition rules_add :: "rule_source \<Rightarrow> field \<Rightarrow> rule_config \<Rightarrow> rule_config" where
  "rules_add argument e cf =
     cf\<lparr>rc_rules := put_entry (fl_name e)
          (RuleMap (del_rule (js ''messages'') (extend_rules (staticRules (rc_rules cf) e) (normalizeRule argument)))) (rc_rules cf)\<rparr>"

definition rules_remove :: "jstr \<Rightarrow> field \<Rightarrow> rule_config \<Rightarrow> rule_config \<times> rules" where
  "rules_remove argument e cf =
     (let existing = staticRules (rc_rules cf) e
      in if argument = [] then (cf\<lparr>rc_rules := filter (\<lambda>(n, _). n \<noteq> fl_name e) (rc_rules cf)\<rparr>, existing)
         else
           (let ms = split_ws argument
            in (cf\<lparr>rc_rules := map (\<lambda>(n, r). case r of
                      RuleMap rs \<Rightarrow> (n, if n = fl_name e then RuleMap (filter (\<lambda>(k, _). k \<notin> set ms) rs) else r)
                    | RuleText t \<Rightarrow> (n, r)) (rc_rules cf)\<rparr>,
                map (\<lambda>m. (m, case map_of existing m of Some p \<Rightarrow> p | None \<Rightarrow> Plain Undefined)) ms)))"

definition addClassRules :: "jstr \<Rightarrow> rules \<Rightarrow> rule_config \<Rightarrow> rule_config" where
  "addClassRules className rs cf = cf\<lparr>rc_classRuleSettings := put_entry className rs (rc_classRuleSettings cf)\<rparr>"

definition classRuleSettings :: "(jstr \<times> rules) list" where
  "classRuleSettings = map (\<lambda>m. (js m, [(js m, Plain (Bool True))]))
     [''required'', ''email'', ''url'', ''date'', ''dateISO'', ''number'', ''digits'', ''creditcard'']"

text \<open>The methods in the order of the object \<open>$.validator.methods\<close>.\<close>

definition method_names :: "jstr list" where
  "method_names = map js [''required'', ''email'', ''url'', ''date'', ''dateISO'', ''number'', ''digits'', ''creditcard'',
     ''minlength'', ''maxlength'', ''rangelength'', ''min'', ''max'', ''range'', ''equalTo'', ''remote'']"

section \<open>Precedence\<close>

definition defined_of :: "rules \<Rightarrow> jstr \<Rightarrow> param option" where
  "defined_of rs k = (case map_of rs k of Some p \<Rightarrow> if is_undefined p then None else Some p | None \<Rightarrow> None)"

lemma extend_rules_map_of:
  "distinct (map fst src) \<Longrightarrow>
    map_of (extend_rules target src) k = (case defined_of src k of Some p \<Rightarrow> Some p | None \<Rightarrow> map_of target k)"
proof (induction src arbitrary: target)
  case (Cons kp src)
  obtain k' p where kp: "kp = (k', p)" by (cases kp)
  have IH: "map_of (extend_rules t src) k = (case defined_of src k of Some p \<Rightarrow> Some p | None \<Rightarrow> map_of t k)" for t
    using Cons by simp
  have step: "extend_rules target (kp # src) = extend_rules (if is_undefined p then target else put_entry k' p target) src"
    by (simp add: extend_rules_def kp)
  show ?case
  proof (cases "k = k'")
    case True
    then have "map_of src k = None" using Cons.prems kp by (auto simp: map_of_eq_None_iff image_iff)
    then show ?thesis using True unfolding step IH by (simp add: kp defined_of_def map_of_put_entry)
  next
    case False
    then show ?thesis unfolding step IH by (simp add: kp defined_of_def map_of_put_entry split: option.splits)
  qed
qed (simp add: extend_rules_def defined_of_def)

lemma distinct_extend: "distinct (map fst target) \<Longrightarrow> distinct (map fst (extend_rules target src))"
proof (induction src arbitrary: target)
  case (Cons kp src)
  then show ?case
    by (cases kp) (simp add: extend_rules_def distinct_put_entry)
qed (simp add: extend_rules_def)

lemma distinct_fold: "(\<And>x rs. distinct (map fst rs) \<Longrightarrow> distinct (map fst (f x rs))) \<Longrightarrow> distinct (map fst rs) \<Longrightarrow> distinct (map fst (fold f xs rs))"
  by (induction xs arbitrary: rs) auto

lemma distinct_del: "distinct (map fst rs) \<Longrightarrow> distinct (map fst (del_rule k rs))"
  by (induction rs) (auto simp: del_rule_def)

lemma distinct_sources:
  "distinct (map fst (classRules cs e))" "distinct (map fst (attributeRules ms e))" "distinct (map fst (dataRules ms e))"
  unfolding classRules_def attributeRules_def dataRules_def Let_def
  by (auto split: option.splits param.splits intro!: distinct_fold distinct_extend distinct_del simp: distinct_put_entry)

text \<open>The rules given for names are objects, so a method is named once.\<close>

definition rules_distinct :: "rule_config \<Rightarrow> bool" where
  "rules_distinct cf = list_all (\<lambda>(n, r). distinct (map fst (normalizeRule r))) (rc_rules cf)"

lemma distinct_static: "rules_distinct cf \<Longrightarrow> distinct (map fst (staticRules (rc_rules cf) e))"
  by (auto simp: staticRules_def rules_distinct_def list_all_iff dest!: map_of_SomeD split: option.splits)

text \<open>
  Precedence of rules. The parameter of a method for a field is the one given for its name, else the one of
  its data, else that of its attributes, else that of its classes.
\<close>

theorem rules_precedence:
  assumes "rules_distinct cf"
  shows "map_of (merged_rules cf e) m =
    (case defined_of (staticRules (rc_rules cf) e) m of Some p \<Rightarrow> Some p
     | None \<Rightarrow> (case defined_of (dataRules (rc_methods cf) e) m of Some p \<Rightarrow> Some p
     | None \<Rightarrow> (case defined_of (attributeRules (rc_methods cf) e) m of Some p \<Rightarrow> Some p
     | None \<Rightarrow> defined_of (classRules (rc_classRuleSettings cf) e) m)))"
  by (simp add: merged_rules_def extend_rules_map_of distinct_static [OF assms] distinct_sources split: option.splits)

section \<open>The first rule\<close>

lemma hd_extend: "target \<noteq> [] \<Longrightarrow> fst (hd target) \<notin> fst ` set src \<Longrightarrow> extend_rules target src \<noteq> [] \<and> hd (extend_rules target src) = hd target"
proof (induction src arbitrary: target)
  case (Cons kp src)
  obtain k p where kp: "kp = (k, p)" by (cases kp)
  obtain k0 p0 ts where t: "target = (k0, p0) # ts" using Cons.prems(1) by (cases target) auto
  have "k0 \<noteq> k" using Cons.prems t kp by auto
  then have "put_entry k p target \<noteq> [] \<and> hd (put_entry k p target) = hd target" by (simp add: t)
  then show ?case using Cons kp by (auto simp: extend_rules_def)
qed (simp add: extend_rules_def)

text \<open>
  \<open>required\<close> comes first. When a field is required, its first rule is \<open>required\<close>, so an empty field is reported as
  missing and not as malformed.
\<close>

theorem required_comes_first:
  assumes "rules_of env cf e = Some rs" "map_of rs (js ''required'') = Some p" "truthy p"
  shows "rs \<noteq> [] \<and> hd rs = (js ''required'', p)"
proof -
  from assms(1) obtain data where rs: "rs = required_first data" by (auto simp: rules_of_def)
  show ?thesis
  proof (cases "map_of data (js ''required'')")
    case None
    with rs assms(2) show ?thesis by (simp add: required_first_def)
  next
    case (Some q)
    show ?thesis
    proof (cases "truthy q")
      case True
      let ?rs = "extend_rules [(js ''required'', q)] (del_rule (js ''required'') data)"
      have eq: "rs = ?rs" using rs Some True by (simp add: required_first_def)
      have "js ''required'' \<notin> fst ` set (del_rule (js ''required'') data)" by (auto simp: del_rule_def)
      then have "?rs \<noteq> [] \<and> hd ?rs = (js ''required'', q)"
        using hd_extend [of "[(js ''required'', q)]" "del_rule (js ''required'') data"] by simp
      then obtain ts where "rs = (js ''required'', q) # ts" unfolding eq [symmetric] by (cases rs) auto
      with assms(2) show ?thesis by simp
    next
      case False
      with rs Some assms show ?thesis by (simp add: required_first_def)
    qed
  qed
qed

text \<open>A field of the dialog for changing a password, with the class \<open>required\<close> and a rule for its name.\<close>

definition password_field :: "jstr \<Rightarrow> field" where
  "password_field v = (text_field (js ''newPassword'') v)\<lparr>fl_class := Some (js ''required'')\<rparr>"

definition console_rules :: rule_config where
  "console_rules = \<lparr>rc_methods = [], rc_classRuleSettings = [(js ''required'', [(js ''required'', Plain (Bool True))])],
     rc_rules = [(js ''newPassword'', RuleMap [(js ''minlength'', Plain (NumI 6))])], rc_autoCreateRanges = True\<rparr>"

lemma console_rules_of:
  "rules_of plain_env console_rules (password_field v)
    = Some [(js ''required'', Plain (Bool True)), (js ''minlength'', Plain (NumI 6))]"
  by (simp add: rules_of_def merged_rules_def extend_rules_def classRules_def attributeRules_def dataRules_def staticRules_def
      normalizeRule_def normalizeRules_def dependency_def update_rule_def auto_range_def required_first_def del_rule_def
      console_rules_def password_field_def text_field_def js_truthy_def js_def Let_def)

theorem rules_precedence_witness:
  "map_of (merged_rules console_rules (password_field [])) (js ''minlength'') = Some (Plain (NumI 6))"
proof -
  have d: "rules_distinct console_rules" by (simp add: rules_distinct_def console_rules_def normalizeRule_def)
  have "defined_of (staticRules (rc_rules console_rules) (password_field [])) (js ''minlength'') = Some (Plain (NumI 6))"
    by (simp add: defined_of_def staticRules_def normalizeRule_def console_rules_def password_field_def text_field_def)
  then show ?thesis unfolding rules_precedence [OF d] by simp
qed

theorem required_comes_first_witness:
  "hd (the (rules_of plain_env console_rules (password_field []))) = (js ''required'', Plain (Bool True))"
  using required_comes_first [OF console_rules_of [of "[]"]] by (simp add: console_rules_of js_truthy_def)

end
