(* ===== verification/Validate_Form.thy ===== *)
theory Validate_Form
  imports Validate_Rules
begin

text \<open>
  The validator of \<open>src/html/resource/js/jquery.validate.js\<close>: checking fields and forms, error labels, requests of the
  method \<open>remote\<close> and submission. The model has the default settings: no \<open>submitHandler\<close>, \<open>success\<close>, \<open>wrapper\<close>,
  \<open>errorPlacement\<close>, \<open>showErrors\<close> and no error containers. An operation returns the new state and a result, which is
  \<open>None\<close> when an exception ends it.
\<close>

section \<open>The state\<close>

text \<open>A message is a text or a function made by \<open>$.validator.format\<close>; for a name there is one text or a message per method.\<close>

datatype message = MText jstr | MFormat jstr

datatype custom = CAll jstr | CMap "(jstr \<times> message option) list"

text \<open>
  The object \<open>previousValue\<close> of an element, which a request in flight shares with the element: both refer to it by its
  place in \<open>v_objects\<close>; \<open>pv_element\<close> is the element it was made for. An error label.
\<close>

record previous =
  pv_element :: nat
  pv_old :: jsval
  pv_valid :: bool
  pv_message :: message
  pv_original :: "message option"

record remote_request =
  rr_field :: field
  rr_value :: jsval
  rr_object :: nat

record label =
  lb_for :: jstr
  lb_text :: jstr
  lb_shown :: bool

text \<open>
  What the validator does outside itself, and the answers it gets: \<open>Answered i v b\<close> says that the server called the value \<open>v\<close>
  of the element \<open>i\<close> valid or not.
\<close>

datatype vout =
    Submitted
  | InvalidForm
  | Focus nat
  | BindBlur jstr nat
  | Answered nat jsval bool

text \<open>How an operation ends: with a value, without one, or by an exception.\<close>

datatype outcome = Returned bool | NoValue | Thrown

record options =
  vo_focusInvalid :: bool
  vo_focusCleanup :: bool
  vo_ignoreTitle :: bool
  vo_debug :: bool
  vo_groups :: "(jstr \<times> (jstr + jstr list)) list"

text \<open>
  The plugin around a validator: the page, methods added with \<open>addMethod\<close>, and the messages of \<open>$.validator.messages\<close>.
\<close>

record plugin =
  vp_env :: venv
  vp_custom :: "jstr \<Rightarrow> (jsval \<Rightarrow> field \<Rightarrow> jsval \<Rightarrow> answer) option"
  vp_messages :: "(jstr \<times> message) list"
  vp_options :: options

record validator =
  v_fields :: "field list"
  v_rules :: rule_config
  v_messages :: "(jstr \<times> custom) list"
  v_groups :: "(jstr \<times> jstr) list"
  v_submitted :: "(jstr \<times> jstr) list"
  v_invalid :: "jstr list"
  v_pendingRequest :: int
  v_pending :: "jstr list"
  v_successList :: "field list"
  v_errorList :: "(jstr \<times> field) list"
  v_errorMap :: "(jstr \<times> jstr) list"
  v_currentElements :: "field list"
  v_toShow :: "nat list"
  v_toHide :: "nat list"
  v_labels :: "label list"
  v_marks :: "(nat \<times> bool) list"
  v_previous :: "(nat \<times> nat) list"
  v_objects :: "previous list"
  v_requests :: "(jstr \<times> remote_request) list"
  v_formSubmitted :: bool
  v_cancelSubmit :: bool
  v_lastElement :: "nat option"
  v_lastActive :: "field option"
  v_out :: "vout list"

definition emit :: "vout \<Rightarrow> validator \<Rightarrow> validator" where
  "emit o1 s = s\<lparr>v_out := v_out s @ [o1]\<rparr>"

text \<open>\<open>name in obj\<close> for an object literal: its own members and those of \<open>Object.prototype\<close>.\<close>

definition proto_names :: "jstr list" where
  "proto_names = map js [''constructor'', ''toString'', ''valueOf'', ''hasOwnProperty'', ''isPrototypeOf'',
     ''propertyIsEnumerable'', ''toLocaleString'', ''__proto__'', ''__defineGetter__'', ''__defineSetter__'',
     ''__lookupGetter__'', ''__lookupSetter__'']"

definition in_object :: "jstr \<Rightarrow> jstr list \<Rightarrow> bool" where
  "in_object name keys = (name \<in> set keys \<or> name \<in> set proto_names)"

section \<open>Elements and labels\<close>

definition validationTargetFor :: "validator \<Rightarrow> field \<Rightarrow> field option" where
  "validationTargetFor s e =
     (if checkable e then
        (case filter (\<lambda>x. \<not> fl_ignored x) (findByName (v_fields s) (fl_name e)) of x # _ \<Rightarrow> Some x | [] \<Rightarrow> None)
      else Some e)"

text \<open>The fields of a form in order, only the first of each name and only those with rules.\<close>

fun elements_from :: "venv \<Rightarrow> rule_config \<Rightarrow> jstr list \<Rightarrow> field list \<Rightarrow> field list option" where
  "elements_from env cf cache [] = Some []"
| "elements_from env cf cache (e # es) =
     (if fl_button e \<or> fl_disabled e \<or> fl_ignored e \<or> fl_node e \<notin> set (map js [''input'', ''select'', ''textarea'']) then
        elements_from env cf cache es
      else if in_object (fl_name e) cache then elements_from env cf cache es
      else (case rules_of env cf e of
              None \<Rightarrow> None
            | Some rs \<Rightarrow>
                if List.null rs then elements_from env cf cache es
                else map_option ((#) e) (elements_from env cf (fl_name e # cache) es)))"

definition elements :: "venv \<Rightarrow> validator \<Rightarrow> field list option" where
  "elements env s = elements_from env (v_rules s) [] (v_fields s)"

definition idOrName :: "validator \<Rightarrow> field \<Rightarrow> jstr" where
  "idOrName s e =
     (case map_of (v_groups s) (fl_name e) of
        Some g \<Rightarrow> if g \<noteq> [] then g else if checkable e then fl_name e else if fl_dom_id e \<noteq> [] then fl_dom_id e else fl_name e
      | None \<Rightarrow> if checkable e then fl_name e else if fl_dom_id e \<noteq> [] then fl_dom_id e else fl_name e)"

definition errorsFor :: "validator \<Rightarrow> field \<Rightarrow> nat list" where
  "errorsFor s e = filter (\<lambda>i. lb_for (v_labels s ! i) = idOrName s e) [0..<length (v_labels s)]"

definition reset :: "validator \<Rightarrow> validator" where
  "reset s = s\<lparr>v_successList := [], v_errorList := [], v_errorMap := [], v_toShow := [], v_toHide := [], v_currentElements := []\<rparr>"

definition prepareForm :: "validator \<Rightarrow> validator" where
  "prepareForm s = (reset s)\<lparr>v_toHide := [0..<length (v_labels s)]\<rparr>"

definition prepareElement :: "field \<Rightarrow> validator \<Rightarrow> validator" where
  "prepareElement e s = (reset s)\<lparr>v_toHide := errorsFor s e\<rparr>"

definition valid :: "validator \<Rightarrow> bool" where
  "valid s = (length (v_errorList s) = 0)"

section \<open>Messages\<close>

definition customMessage :: "validator \<Rightarrow> jstr \<Rightarrow> jstr \<Rightarrow> message option" where
  "customMessage s name method =
     (case map_of (v_messages s) name of
        None \<Rightarrow> None
      | Some (CAll t) \<Rightarrow> Some (MText t)
      | Some (CMap ms) \<Rightarrow> (case map_of ms method of Some m \<Rightarrow> m | None \<Rightarrow> None))"

text \<open>
  \<open>$(element).data("msg-...")\<close> or the attribute of that name. An absent attribute is \<open>undefined\<close>; a text that is not a string is shown as its text.
\<close>

definition customDataMessage :: "field \<Rightarrow> jstr \<Rightarrow> message option" where
  "customDataMessage e method =
     (let d = fl_data e (js ''msg-'' @ lower method)
      in if js_truthy d then Some (MText (js_String d))
         else map_option MText (fl_attr e (js ''data-msg-'' @ lower method)))"

definition first_defined :: "'a option list \<Rightarrow> 'a option" where
  "first_defined xs = (case filter (\<lambda>x. x \<noteq> None) xs of x # _ \<Rightarrow> x | [] \<Rightarrow> None)"

definition defaultMessage :: "plugin \<Rightarrow> validator \<Rightarrow> field \<Rightarrow> jstr \<Rightarrow> message" where
  "defaultMessage pl s e method =
     the (first_defined
       [customMessage s (fl_name e) method, customDataMessage e method,
        if \<not> vo_ignoreTitle (vp_options pl) \<and> fl_title e \<noteq> [] then Some (MText (fl_title e)) else None,
        map_of (vp_messages pl) method,
        Some (MText (js ''<strong>Warning: No message defined for '' @ fl_name e @ js ''</strong>''))])"

text \<open>\<open>message.replace(/\$?\{(\d+)\}/g, "{$1}")\<close>: the dollar sign before a placeholder goes.\<close>

definition placeholder :: "jstr \<Rightarrow> bool" where
  "placeholder s = (starts_with [0x7B] s \<and> takeWhile is_digit (tl s) \<noteq> [] \<and> starts_with [0x7D] (dropWhile is_digit (tl s)))"

fun has_placeholder :: "jstr \<Rightarrow> bool" where
  "has_placeholder [] = False"
| "has_placeholder (c # s) = (placeholder (c # s) \<or> has_placeholder s)"

fun drop_dollars :: "jstr \<Rightarrow> jstr" where
  "drop_dollars [] = []"
| "drop_dollars (c # s) = (if c = 0x24 \<and> placeholder s then drop_dollars s else c # drop_dollars s)"

definition message_text :: "plugin \<Rightarrow> message \<Rightarrow> jsval \<Rightarrow> field \<Rightarrow> jstr" where
  "message_text pl m params e =
     (case m of
        MFormat source \<Rightarrow> format_fun (vp_env pl) source params e
      | MText t \<Rightarrow> if has_placeholder t then format (drop_dollars t) params else t)"

definition formatAndAdd :: "plugin \<Rightarrow> field \<Rightarrow> jstr \<Rightarrow> jsval \<Rightarrow> validator \<Rightarrow> validator" where
  "formatAndAdd pl e method params s =
     (let msg = message_text pl (defaultMessage pl s e method) params e
      in s\<lparr>v_errorList := v_errorList s @ [(msg, e)], v_errorMap := put_entry (fl_name e) msg (v_errorMap s),
           v_submitted := put_entry (fl_name e) msg (v_submitted s)\<rparr>)"

section \<open>Checking\<close>

text \<open>\<open>$.validator.methods\<close> as it comes with the plugin, without \<open>remote\<close>.\<close>

definition builtins :: "venv \<Rightarrow> field list \<Rightarrow> jsval \<Rightarrow> field \<Rightarrow> jsval \<Rightarrow> (jstr \<times> answer) list" where
  "builtins env fs v e p =
     [(js ''required'', required env fs v e p), (js ''email'', email env fs v e), (js ''url'', url env fs v e),
      (js ''date'', date env fs v e), (js ''dateISO'', dateISO env fs v e), (js ''number'', number env fs v e),
      (js ''digits'', digits env fs v e), (js ''creditcard'', creditcard env fs v e),
      (js ''minlength'', minlength env fs v e p), (js ''maxlength'', maxlength env fs v e p),
      (js ''rangelength'', rangelength env fs v e p), (js ''min'', min_method env fs v e p), (js ''max'', max_method env fs v e p),
      (js ''range'', range_method env fs v e p), (js ''equalTo'', equalTo env v p)]"

text \<open>
  The answer of a method that does not change the validator; a name without a method is an exception. No method is
  named like a member of \<open>Object.prototype\<close>.
\<close>

definition local_answer :: "plugin \<Rightarrow> field list \<Rightarrow> jstr \<Rightarrow> jsval \<Rightarrow> field \<Rightarrow> jsval \<Rightarrow> answer" where
  "local_answer pl fs m v e p =
     (case vp_custom pl m of
        Some f \<Rightarrow> f v e p
      | None \<Rightarrow> (case map_of (builtins (vp_env pl) fs v e p) m of Some a \<Rightarrow> a | None \<Rightarrow> Raise))"

definition is_builtin :: "plugin \<Rightarrow> jstr \<Rightarrow> bool" where
  "is_builtin pl m = (case vp_custom pl m of None \<Rightarrow> True | Some _ \<Rightarrow> False)"

definition is_remote :: "plugin \<Rightarrow> jstr \<Rightarrow> bool" where
  "is_remote pl m = (m = js ''remote'' \<and> is_builtin pl m)"

definition startRequest :: "field \<Rightarrow> validator \<Rightarrow> validator" where
  "startRequest e s =
     (if \<not> in_object (fl_name e) (v_pending s)
      then s\<lparr>v_pendingRequest := v_pendingRequest s + 1, v_pending := v_pending s @ [fl_name e]\<rparr> else s)"

text \<open>\<open>$.data(element, "previousValue")\<close>, made when it is missing: the place of the object.\<close>

definition previousValue :: "plugin \<Rightarrow> field \<Rightarrow> validator \<Rightarrow> validator \<times> nat" where
  "previousValue pl e s =
     (case map_of (v_previous s) (fl_id e) of
        Some k \<Rightarrow> (s, k)
      | None \<Rightarrow>
          (s\<lparr>v_previous := put_entry (fl_id e) (length (v_objects s)) (v_previous s),
             v_objects := v_objects s @ [\<lparr>pv_element = fl_id e, pv_old = Null, pv_valid = True, pv_message = defaultMessage pl s e (js ''remote''), pv_original = None\<rparr>]\<rparr>,
           length (v_objects s)))"

definition update_object :: "nat \<Rightarrow> (previous \<Rightarrow> previous) \<Rightarrow> validator \<Rightarrow> validator" where
  "update_object k f s = s\<lparr>v_objects := (v_objects s)[k := f (v_objects s ! k)]\<rparr>"

text \<open>
  \<open>settings.messages[name].remote\<close>, read and written. A member of a text is \<open>undefined\<close> and writing it has no effect.
\<close>

definition remote_message :: "jstr \<Rightarrow> validator \<Rightarrow> message option" where
  "remote_message name s =
     (case map_of (v_messages s) name of
        Some (CMap ms) \<Rightarrow> (case map_of ms (js ''remote'') of Some m \<Rightarrow> m | None \<Rightarrow> None)
      | _ \<Rightarrow> None)"

definition set_remote_message :: "jstr \<Rightarrow> message option \<Rightarrow> validator \<Rightarrow> validator" where
  "set_remote_message name m s =
     (case map_of (v_messages s) name of
        Some (CMap ms) \<Rightarrow> s\<lparr>v_messages := put_entry name (CMap (put_entry (js ''remote'') m ms)) (v_messages s)\<rparr>
      | _ \<Rightarrow> s)"

definition ensure_messages :: "jstr \<Rightarrow> validator \<Rightarrow> validator" where
  "ensure_messages name s =
     (if map_of (v_messages s) name \<in> {None, Some (CAll [])} then s\<lparr>v_messages := put_entry name (CMap []) (v_messages s)\<rparr> else s)"

text \<open>The requests in flight by the name of the field: a new one aborts the one of the same port.\<close>

definition remote :: "plugin \<Rightarrow> jsval \<Rightarrow> field \<Rightarrow> validator \<Rightarrow> validator \<times> answer" where
  "remote pl v e s =
     (if optional (vp_env pl) (v_fields s) e then (s, Mismatch)
      else
        (let (s1, k) = previousValue pl e s;
             s2 = ensure_messages (fl_name e) s1;
             s3 = update_object k (\<lambda>p. p\<lparr>pv_original := remote_message (fl_name e) s2\<rparr>) s2;
             s4 = set_remote_message (fl_name e) (Some (pv_message (v_objects s3 ! k))) s3
         in if js_same (pv_old (v_objects s4 ! k)) v then (s4, Res (pv_valid (v_objects s4 ! k)))
            else
              (let s5 = startRequest e (update_object k (\<lambda>p. p\<lparr>pv_old := v\<rparr>) s4)
               in (s5\<lparr>v_requests := put_entry (fl_name e) \<lparr>rr_field = e, rr_value = v, rr_object = k\<rparr> (v_requests s5)\<rparr>, Pending))))"

text \<open>
  \<open>equalTo\<close> also binds the event \<open>blur\<close> of its target.
\<close>

definition call_method :: "plugin \<Rightarrow> jstr \<Rightarrow> jsval \<Rightarrow> field \<Rightarrow> jsval \<Rightarrow> validator \<Rightarrow> validator \<times> answer" where
  "call_method pl m v e p s =
     (if is_remote pl m then remote pl v e s
      else (if m = js ''equalTo'' \<and> is_builtin pl m then emit (BindBlur (js_String p) (fl_id e)) s else s,
            local_answer pl (v_fields s) m v e p))"

text \<open>The loop over the rules; the flag is \<open>dependencyMismatch\<close>.\<close>

fun check_rules :: "plugin \<Rightarrow> jsval \<Rightarrow> field \<Rightarrow> rules \<Rightarrow> bool \<Rightarrow> validator \<Rightarrow> validator \<times> outcome" where
  "check_rules pl v e [] mismatch s =
     (if mismatch then (s, NoValue) else (s, Returned True))"
| "check_rules pl v e ((m, p) # rs) mismatch s =
     (case call_method pl m v e (param_value p) s of
        (s', Mismatch) \<Rightarrow> check_rules pl v e rs True s'
      | (s', Pending) \<Rightarrow> (s'\<lparr>v_toHide := filter (\<lambda>i. i \<notin> set (errorsFor s' e)) (v_toHide s')\<rparr>, NoValue)
      | (s', Res b) \<Rightarrow>
          if b then check_rules pl v e rs False s' else (formatAndAdd pl e m (param_value p) s', Returned False)
      | (s', Raise) \<Rightarrow> (s', Thrown))"

definition check :: "plugin \<Rightarrow> field \<Rightarrow> validator \<Rightarrow> validator \<times> outcome" where
  "check pl element s =
     (case validationTargetFor s element of
        None \<Rightarrow> (s, Thrown)
      | Some e \<Rightarrow>
          (case rules_of (vp_env pl) (v_rules s) e of
             None \<Rightarrow> (s, Thrown)
           | Some rs \<Rightarrow>
               (case check_rules pl (elementValue (v_fields s) e) e rs False s of
                  (s', Returned True) \<Rightarrow> (if List.null rs then s' else s'\<lparr>v_successList := v_successList s' @ [e]\<rparr>, Returned True)
                | r \<Rightarrow> r)))"

fun check_all :: "plugin \<Rightarrow> field list \<Rightarrow> validator \<Rightarrow> validator \<times> outcome" where
  "check_all pl [] s = (s, NoValue)"
| "check_all pl (e # es) s =
     (case check pl e s of
        (s', Thrown) \<Rightarrow> (s', Thrown)
      | (s', _) \<Rightarrow> check_all pl es s')"

definition checkForm :: "plugin \<Rightarrow> validator \<Rightarrow> validator \<times> outcome" where
  "checkForm pl s =
     (let s0 = prepareForm s
      in case elements (vp_env pl) s0 of
           None \<Rightarrow> (s0, Thrown)
         | Some es \<Rightarrow>
             (case check_all pl es (s0\<lparr>v_currentElements := es\<rparr>) of
                (s', Thrown) \<Rightarrow> (s', Thrown)
              | (s', _) \<Rightarrow> (s', Returned (valid s'))))"

section \<open>Showing errors\<close>

text \<open>The elements that \<open>highlight\<close> and \<open>unhighlight\<close> change: all of a radio group. A mark is the error class.\<close>

definition marked_ids :: "validator \<Rightarrow> field \<Rightarrow> nat list" where
  "marked_ids s e = (if fl_type e = js ''radio'' then map fl_id (findByName (v_fields s) (fl_name e)) else [fl_id e])"

definition highlight :: "field \<Rightarrow> validator \<Rightarrow> validator" where
  "highlight e s = s\<lparr>v_marks := fold (\<lambda>i. put_entry i True) (marked_ids s e) (v_marks s)\<rparr>"

definition unhighlight :: "field \<Rightarrow> validator \<Rightarrow> validator" where
  "unhighlight e s = s\<lparr>v_marks := fold (\<lambda>i. put_entry i False) (marked_ids s e) (v_marks s)\<rparr>"

definition set_labels :: "(label \<Rightarrow> label) \<Rightarrow> nat list \<Rightarrow> label list \<Rightarrow> label list" where
  "set_labels f is ls = map (\<lambda>i. if i \<in> set is then f (ls ! i) else ls ! i) [0..<length ls]"

definition showLabel :: "field \<Rightarrow> jstr \<Rightarrow> validator \<Rightarrow> validator" where
  "showLabel e message s =
     (let is = errorsFor s e
      in if is \<noteq> [] then
           s\<lparr>v_labels := set_labels (\<lambda>l. l\<lparr>lb_text := message\<rparr>) is (v_labels s), v_toShow := v_toShow s @ is\<rparr>
         else
           s\<lparr>v_labels := v_labels s @ [\<lparr>lb_for = idOrName s e, lb_text = message, lb_shown = True\<rparr>],
             v_toShow := v_toShow s @ [length (v_labels s)]\<rparr>)"

definition hideErrors :: "validator \<Rightarrow> validator" where
  "hideErrors s = s\<lparr>v_labels := set_labels (\<lambda>l. l\<lparr>lb_shown := False\<rparr>) (v_toHide s) (v_labels s)\<rparr>"

definition invalidElements :: "validator \<Rightarrow> nat list" where
  "invalidElements s = map (\<lambda>(_, e). fl_id e) (v_errorList s)"

definition validElements :: "validator \<Rightarrow> field list" where
  "validElements s = filter (\<lambda>e. fl_id e \<notin> set (invalidElements s)) (v_currentElements s)"

definition defaultShowErrors :: "validator \<Rightarrow> validator" where
  "defaultShowErrors s =
     (let s1 = fold (\<lambda>(message, e) s. showLabel e message (highlight e s)) (v_errorList s) s;
          s2 = fold unhighlight (validElements s1) s1;
          s3 = hideErrors (s2\<lparr>v_toHide := filter (\<lambda>i. i \<notin> set (v_toShow s2)) (v_toHide s2)\<rparr>)
      in s3\<lparr>v_labels := set_labels (\<lambda>l. l\<lparr>lb_shown := True\<rparr>) (v_toShow s3) (v_labels s3)\<rparr>)"

text \<open>\<open>showErrors\<close> without and with an argument, which has one error.\<close>

definition showErrors :: "validator \<Rightarrow> validator" where
  "showErrors s = defaultShowErrors s"

definition showErrors_with :: "jstr \<Rightarrow> jstr \<Rightarrow> validator \<Rightarrow> validator \<times> outcome" where
  "showErrors_with name message s =
     (case findByName (v_fields s) name of
        [] \<Rightarrow> (s, Thrown)
      | e # _ \<Rightarrow>
          (defaultShowErrors
             (s\<lparr>v_errorMap := put_entry name message (v_errorMap s), v_errorList := [(message, e)],
                v_successList := filter (\<lambda>x. \<not> in_object (fl_name x) [name]) (v_successList s)\<rparr>), NoValue))"

section \<open>Forms and elements\<close>

definition form :: "plugin \<Rightarrow> validator \<Rightarrow> validator \<times> outcome" where
  "form pl s =
     (case checkForm pl s of
        (s1, Thrown) \<Rightarrow> (s1, Thrown)
      | (s1, _) \<Rightarrow>
          (let s2 = s1\<lparr>v_submitted := fold (\<lambda>(n, m). put_entry n m) (v_errorMap s1) (v_submitted s1), v_invalid := map fst (v_errorMap s1)\<rparr>;
               s3 = showErrors (if valid s2 then s2 else emit InvalidForm s2)
           in (s3, Returned (valid s3))))"

definition numberOfInvalids :: "validator \<Rightarrow> nat" where
  "numberOfInvalids s = length (v_invalid s)"

definition element :: "plugin \<Rightarrow> field \<Rightarrow> validator \<Rightarrow> validator \<times> outcome" where
  "element pl e0 s =
     (case validationTargetFor s e0 of
        None \<Rightarrow> (reset (s\<lparr>v_lastElement := None\<rparr>), Thrown)
      | Some e \<Rightarrow>
          (case check pl e ((prepareElement e (s\<lparr>v_lastElement := Some (fl_id e)\<rparr>))\<lparr>v_currentElements := [e]\<rparr>) of
             (s1, Thrown) \<Rightarrow> (s1, Thrown)
           | (s1, r) \<Rightarrow>
               (let result = (r \<noteq> Returned False);
                    s2 = s1\<lparr>v_invalid := (if result then removeAll (fl_name e) (v_invalid s1) else List.insert (fl_name e) (v_invalid s1))\<rparr>
                in (showErrors s2, Returned result))))"

text \<open>\<open>resetForm\<close>, without the form plugin.\<close>

definition resetForm :: "plugin \<Rightarrow> validator \<Rightarrow> validator \<times> outcome" where
  "resetForm pl s =
     (let s1 = hideErrors (prepareForm (s\<lparr>v_submitted := [], v_lastElement := None\<rparr>))
      in case elements (vp_env pl) s1 of
           None \<Rightarrow> (s1, Thrown)
         | Some es \<Rightarrow>
             (s1\<lparr>v_marks := fold (\<lambda>e. put_entry (fl_id e) False) es (v_marks s1),
                 v_previous := filter (\<lambda>(i, _). i \<notin> fl_id ` set es) (v_previous s1)\<rparr>, NoValue))"

section \<open>Focus and events\<close>

definition onfocusin :: "plugin \<Rightarrow> field \<Rightarrow> validator \<Rightarrow> validator" where
  "onfocusin pl e s =
     (let s1 = s\<lparr>v_lastActive := Some e\<rparr>
      in if vo_focusCleanup (vp_options pl) then
           (let s2 = unhighlight e s1
            in s2\<lparr>v_labels := set_labels (\<lambda>l. l\<lparr>lb_shown := False\<rparr>) (errorsFor s2 e) (v_labels s2)\<rparr>)
         else s1)"

definition onfocusout :: "plugin \<Rightarrow> field \<Rightarrow> validator \<Rightarrow> validator \<times> outcome" where
  "onfocusout pl e s =
     (if \<not> checkable e \<and> (in_object (fl_name e) (map fst (v_submitted s)) \<or> \<not> optional (vp_env pl) (v_fields s) e)
      then element pl e s else (s, NoValue))"

definition onkeyup :: "plugin \<Rightarrow> field \<Rightarrow> nat \<Rightarrow> validator \<Rightarrow> validator \<times> outcome" where
  "onkeyup pl e which s =
     (if which = 9 \<and> elementValue (v_fields s) e = Str [] then (s, NoValue)
      else if in_object (fl_name e) (map fst (v_submitted s)) \<or> v_lastElement s = Some (fl_id e) then element pl e s
      else (s, NoValue))"

text \<open>A click on an element with its parent; a parent that is not a field has the name \<open>undefined\<close>.\<close>

definition onclick :: "plugin \<Rightarrow> field \<Rightarrow> field \<Rightarrow> validator \<Rightarrow> validator \<times> outcome" where
  "onclick pl e parent s =
     (if in_object (fl_name e) (map fst (v_submitted s)) then element pl e s
      else if in_object (fl_name parent) (map fst (v_submitted s)) then element pl parent s
      else (s, NoValue))"

definition findLastActive :: "validator \<Rightarrow> field option" where
  "findLastActive s =
     (case v_lastActive s of
        Some a \<Rightarrow> if length (filter (\<lambda>(_, e). fl_name e = fl_name a) (v_errorList s)) = 1 then Some a else None
      | None \<Rightarrow> None)"

text \<open>An element is visible if it is on the page and not hidden.\<close>

definition is_visible :: "validator \<Rightarrow> field \<Rightarrow> bool" where
  "is_visible s e = list_ex (\<lambda>x. fl_id x = fl_id e \<and> \<not> fl_ignored x) (v_fields s)"

definition focusInvalid :: "plugin \<Rightarrow> validator \<Rightarrow> validator" where
  "focusInvalid pl s =
     (if vo_focusInvalid (vp_options pl) then
        (case (case findLastActive s of Some a \<Rightarrow> Some a | None \<Rightarrow> (case v_errorList s of (_, e) # _ \<Rightarrow> Some e | [] \<Rightarrow> None)) of
           Some e \<Rightarrow>
             if is_visible s e then
               (let s1 = emit (Focus (fl_id e)) s in if checkable e then s1 else onfocusin pl e s1)
             else s
         | None \<Rightarrow> s)
      else s)"

section \<open>Submission\<close>

text \<open>The handler of the event \<open>submit\<close> that \<open>validate\<close> binds.\<close>

definition submit_handler :: "plugin \<Rightarrow> validator \<Rightarrow> validator \<times> outcome" where
  "submit_handler pl s =
     (if v_cancelSubmit s then (s\<lparr>v_cancelSubmit := False\<rparr>, Returned True)
      else
        (case form pl s of
           (s1, Returned True) \<Rightarrow>
             if v_pendingRequest s1 \<noteq> 0 then (s1\<lparr>v_formSubmitted := True\<rparr>, Returned False) else (s1, Returned True)
         | (s1, Returned False) \<Rightarrow> (focusInvalid pl s1, Returned False)
         | (s1, _) \<Rightarrow> (s1, Thrown)))"

text \<open>
  A form submitted by the user: the browser sends it unless the handler returned false or, with \<open>debug\<close>, prevented it; an
  exception in the handler does not keep the browser from sending. A form submitted by \<open>$(form).submit()\<close> is sent only after
  the handler has returned.
\<close>

definition user_submit :: "plugin \<Rightarrow> validator \<Rightarrow> validator" where
  "user_submit pl s =
     (let (s1, r) = submit_handler pl s
      in if vo_debug (vp_options pl) \<or> r = Returned False then s1 else emit Submitted s1)"

definition trigger_submit :: "plugin \<Rightarrow> validator \<Rightarrow> validator \<times> outcome" where
  "trigger_submit pl s =
     (let (s1, r) = submit_handler pl s
      in (if \<not> vo_debug (vp_options pl) \<and> r = Returned True then emit Submitted s1 else s1, r))"

text \<open>A click on a submit button.\<close>

definition submit_click :: "field \<Rightarrow> validator \<Rightarrow> validator" where
  "submit_click b s =
     (if (case fl_class b of Some c \<Rightarrow> js ''cancel'' \<in> set (split_ws c) | None \<Rightarrow> False) \<or> fl_attr b (js ''formnovalidate'') \<noteq> None
      then s\<lparr>v_cancelSubmit := True\<rparr> else s)"

definition forget_request :: "field \<Rightarrow> validator \<Rightarrow> validator" where
  "forget_request e s =
     (let n = v_pendingRequest s - 1
      in s\<lparr>v_pendingRequest := (if n < 0 then 0 else n), v_pending := removeAll (fl_name e) (v_pending s)\<rparr>)"

definition stopRequest :: "plugin \<Rightarrow> field \<Rightarrow> bool \<Rightarrow> validator \<Rightarrow> validator \<times> outcome" where
  "stopRequest pl e ok s =
     (let s1 = forget_request e s
      in if ok \<and> v_pendingRequest s1 = 0 \<and> v_formSubmitted s1 then
           (case form pl s1 of
              (s2, Returned True) \<Rightarrow>
                (case trigger_submit pl s2 of
                   (s3, Thrown) \<Rightarrow> (s3, Thrown)
                 | (s3, _) \<Rightarrow> (s3\<lparr>v_formSubmitted := False\<rparr>, NoValue))
            | (s2, Thrown) \<Rightarrow> (s2, Thrown)
            | (s2, _) \<Rightarrow> (s2, NoValue))
         else if \<not> ok \<and> v_pendingRequest s1 = 0 \<and> v_formSubmitted s1 then
           ((emit InvalidForm s1)\<lparr>v_formSubmitted := False\<rparr>, NoValue)
         else (s1, NoValue))"

section \<open>Answers of the server\<close>

definition accepts_response :: "jsval \<Rightarrow> bool" where
  "accepts_response resp = (resp = Bool True \<or> resp = Str (js ''true''))"

text \<open>The message of a negative answer: the answer itself as a text, or the default.\<close>

definition response_text :: "plugin \<Rightarrow> remote_request \<Rightarrow> jsval \<Rightarrow> validator \<Rightarrow> jstr" where
  "response_text pl rr resp s =
     (case (if js_truthy resp then MText (js_String resp) else defaultMessage pl s (rr_field rr) (js ''remote'')) of
        MText t \<Rightarrow> t
      | MFormat source \<Rightarrow> format source (rr_value rr))"

definition settle :: "remote_request \<Rightarrow> bool \<Rightarrow> validator \<Rightarrow> validator" where
  "settle rr ok s =
     emit (Answered (fl_id (rr_field rr)) (rr_value rr) ok) (update_object (rr_object rr) (\<lambda>p. p\<lparr>pv_valid := ok\<rparr>) s)"

text \<open>The callback \<open>success\<close> of \<open>remote\<close>.\<close>

definition remote_success :: "plugin \<Rightarrow> remote_request \<Rightarrow> jsval \<Rightarrow> validator \<Rightarrow> validator \<times> outcome" where
  "remote_success pl rr resp s =
     (let e = rr_field rr;
          s1 = set_remote_message (fl_name e) (pv_original (v_objects s ! rr_object rr)) s
      in if accepts_response resp then
           (let s2 = prepareElement e s1;
                s3 = showErrors (s2\<lparr>v_successList := v_successList s2 @ [e], v_invalid := removeAll (fl_name e) (v_invalid s2)\<rparr>)
            in stopRequest pl e True (settle rr True s3))
         else
           (let text = response_text pl rr resp s1;
                s2 = update_object (rr_object rr) (\<lambda>p. p\<lparr>pv_message := MText text\<rparr>) s1
            in case showErrors_with (fl_name e) text (s2\<lparr>v_invalid := List.insert (fl_name e) (v_invalid s2)\<rparr>) of
                 (s3, Thrown) \<Rightarrow> (s3, Thrown)
               | (s3, _) \<Rightarrow> stopRequest pl e False (settle rr False s3)))"

definition drop_request :: "jstr \<Rightarrow> validator \<Rightarrow> validator" where
  "drop_request name s = s\<lparr>v_requests := filter (\<lambda>(n, _). n \<noteq> name) (v_requests s)\<rparr>"

text \<open>A request that is answered, and one that fails: there is no callback for failure.\<close>

definition respond :: "plugin \<Rightarrow> jstr \<Rightarrow> jsval \<Rightarrow> validator \<Rightarrow> validator \<times> outcome" where
  "respond pl name resp s =
     (case map_of (v_requests s) name of
        None \<Rightarrow> (s, NoValue)
      | Some rr \<Rightarrow> remote_success pl rr resp (drop_request name s))"

section \<open>Start and settings\<close>

definition init_groups :: "(jstr \<times> (jstr + jstr list)) list \<Rightarrow> (jstr \<times> jstr) list" where
  "init_groups gs =
     fold (\<lambda>(key, value) groups. fold (\<lambda>name. put_entry name key) (case value of Inl t \<Rightarrow> split_ws t | Inr ns \<Rightarrow> ns) groups) gs []"

definition init_validator :: "plugin \<Rightarrow> field list \<Rightarrow> rule_config \<Rightarrow> (jstr \<times> custom) list \<Rightarrow> validator" where
  "init_validator pl fs cf messages =
     \<lparr>v_fields = fs, v_rules = cf\<lparr>rc_rules := map (\<lambda>(k, r). (k, RuleMap (normalizeRule r))) (rc_rules cf)\<rparr>, v_messages = messages,
      v_groups = init_groups (vo_groups (vp_options pl)), v_submitted = [], v_invalid = [], v_pendingRequest = 0, v_pending = [],
      v_successList = [], v_errorList = [], v_errorMap = [], v_currentElements = [], v_toShow = [], v_toHide = [],
      v_labels = [], v_marks = [], v_previous = [], v_objects = [], v_requests = [], v_formSubmitted = False,
      v_cancelSubmit = False, v_lastElement = None, v_lastActive = None, v_out = []\<rparr>"

text \<open>\<open>$.validator.addMethod\<close>; the number is \<open>method.length\<close>.\<close>

definition addMethod ::
  "jstr \<Rightarrow> (jsval \<Rightarrow> field \<Rightarrow> jsval \<Rightarrow> answer) \<Rightarrow> nat \<Rightarrow> message option \<Rightarrow> plugin \<times> rule_config \<Rightarrow> plugin \<times> rule_config" where
  "addMethod name method arity message c =
     (case c of (pl, cf) \<Rightarrow>
        (pl\<lparr>vp_custom := (vp_custom pl)(name \<mapsto> method),
            vp_messages := (case message of Some m \<Rightarrow> put_entry name m (vp_messages pl) | None \<Rightarrow> vp_messages pl)\<rparr>,
         (if arity < 3 then addClassRules name (normalizeRule (RuleText name)) else (\<lambda>x. x))
           (cf\<lparr>rc_methods := List.insert name (rc_methods cf)\<rparr>)))"

text \<open>\<open>rules("add", argument)\<close> with messages.\<close>

definition add_messages :: "(jstr \<times> message option) list \<Rightarrow> field \<Rightarrow> validator \<Rightarrow> validator" where
  "add_messages ms e s =
     s\<lparr>v_messages := put_entry (fl_name e)
        (CMap (fold (\<lambda>(k, m) old. if m = None then old else put_entry k m old) ms
          (case map_of (v_messages s) (fl_name e) of Some (CMap old) \<Rightarrow> old | _ \<Rightarrow> []))) (v_messages s)\<rparr>"

text \<open>\<open>$(elements).valid()\<close>: the elements up to the first that is not valid.\<close>

fun valid_all :: "plugin \<Rightarrow> field list \<Rightarrow> validator \<Rightarrow> validator \<times> outcome" where
  "valid_all pl [] s = (s, Returned True)"
| "valid_all pl (e # es) s =
     (case element pl e s of
        (s', Returned True) \<Rightarrow> valid_all pl es s'
      | r \<Rightarrow> r)"

definition removeAttrs :: "jstr \<Rightarrow> field \<Rightarrow> field \<times> (jstr \<times> jstr option) list" where
  "removeAttrs attributes e =
     fold (\<lambda>a (e, result). (e\<lparr>fl_attr := (fl_attr e)(a := None)\<rparr>, put_entry a (fl_attr e a) result)) (split_ws attributes) (e, [])"

text \<open>The selectors \<open>:blank\<close>, \<open>:filled\<close> and \<open>:unchecked\<close>: the value is turned into a text first.\<close>

definition blank :: "field \<Rightarrow> bool" where
  "blank a = (js_trim (js_String (fl_val a)) = [])"

definition filled :: "field \<Rightarrow> bool" where
  "filled a = (js_trim (js_String (fl_val a)) \<noteq> [])"

definition is_unchecked :: "field \<Rightarrow> bool" where
  "is_unchecked a = (\<not> fl_checked a)"

end
