(* ===== verification/Validate_Safety.thy ===== *)
theory Validate_Safety
  imports Validate_Form "HOL-Library.Sublist"
begin

text \<open>
  What the validator of \<open>src/html/resource/js/jquery.validate.js\<close> guarantees over sequences of events: requests in flight are
  counted, and a form that is sent satisfies its rules.
\<close>

section \<open>The part of the state that decides\<close>

type_synonym view = "(jsval \<times> bool \<times> nat) list"

definition view :: "previous list \<Rightarrow> view" where
  "view objs = map (\<lambda>p. (pv_old p, pv_valid p, pv_element p)) objs"

definition core :: "validator \<Rightarrow> field list \<times> rule_config \<times> int \<times> jstr list \<times> (jstr \<times> remote_request) list \<times> (nat \<times> nat) list \<times> view" where
  "core s = (v_fields s, v_rules s, v_pendingRequest s, v_pending s, v_requests s, v_previous s, view (v_objects s))"

definition flags :: "validator \<Rightarrow> bool \<times> bool" where
  "flags s = (v_formSubmitted s, v_cancelSubmit s)"

named_theorems frame

text \<open>Operations on labels, marks, messages and lists of errors leave the core and the flags alone.\<close>

definition same_core :: "validator \<Rightarrow> validator \<Rightarrow> bool" where
  "same_core s s' = (core s' = core s \<and> flags s' = flags s \<and> prefix (v_out s) (v_out s'))"

lemma same_core_refl [frame]: "same_core s s"
  by (simp add: same_core_def)

lemma same_core_trans: "same_core s s' \<Longrightarrow> same_core s' s'' \<Longrightarrow> same_core s s''"
  by (auto simp: same_core_def intro: prefix_order.trans)

lemmas same_core_defs = same_core_def core_def flags_def

lemma same_core_fold: "(\<And>x s. same_core s (f x s)) \<Longrightarrow> same_core s (fold f xs s)"
proof (induction xs arbitrary: s)
  case (Cons x xs)
  then show ?case using same_core_trans [of s "f x s"] by simp
qed (simp add: same_core_refl)

lemma same_core_prepare [frame]:
  "same_core s (reset s)" "same_core s (prepareForm s)" "same_core s (prepareElement e s)" "same_core s (emit x s)"
  by (auto simp: same_core_defs reset_def prepareForm_def prepareElement_def emit_def)

lemma same_core_show [frame]:
  "same_core s (highlight e s)" "same_core s (unhighlight e s)" "same_core s (showLabel e m s)" "same_core s (hideErrors s)"
  "same_core s (formatAndAdd pl e m p s)"
  by (auto simp: same_core_defs highlight_def unhighlight_def showLabel_def hideErrors_def formatAndAdd_def Let_def)

lemma nth_change: "xs[k := y] ! i = (if i = k \<and> k < length xs then y else xs ! i)"
  by (cases "i = k"; cases "k < length xs") (simp_all add: list_update_beyond not_less)

lemma view_update [simp]:
  "view (objs[k := (objs ! k)\<lparr>pv_original := x\<rparr>]) = view objs" "view (objs[k := (objs ! k)\<lparr>pv_message := y\<rparr>]) = view objs"
  by (rule nth_equalityI; simp add: view_def nth_change)+

lemma same_core_messages [frame]:
  "same_core s (set_remote_message n m s)" "same_core s (ensure_messages n s)"
  "same_core s (update_object k (\<lambda>p. p\<lparr>pv_original := x\<rparr>) s)" "same_core s (update_object k (\<lambda>p. p\<lparr>pv_message := y\<rparr>) s)"
  by (auto simp: same_core_defs set_remote_message_def ensure_messages_def update_object_def split: option.splits custom.splits)

lemma same_core_update:
  "core (s\<lparr>v_toHide := a\<rparr>) = core s" "core (s\<lparr>v_labels := b\<rparr>) = core s" "core (s\<lparr>v_currentElements := c\<rparr>) = core s"
  by (simp_all add: core_def)

lemma same_core_showErrors [frame]: "same_core s (defaultShowErrors s)"
proof -
  define s1 where "s1 = fold (\<lambda>(message, e) s. showLabel e message (highlight e s)) (v_errorList s) s"
  define s2 where "s2 = fold unhighlight (validElements s1) s1"
  define s3 where "s3 = hideErrors (s2\<lparr>v_toHide := filter (\<lambda>i. i \<notin> set (v_toShow s2)) (v_toHide s2)\<rparr>)"
  have "same_core s s1" unfolding s1_def
    by (rule same_core_fold) (auto intro: same_core_trans frame)
  moreover have "same_core s1 s2" unfolding s2_def by (rule same_core_fold) (rule frame)
  moreover have "same_core s2 s3" unfolding s3_def by (rule same_core_trans [OF _ same_core_show(4)]) (simp add: same_core_defs)
  moreover have "same_core s3 (s3\<lparr>v_labels := set_labels (\<lambda>l. l\<lparr>lb_shown := True\<rparr>) (v_toShow s3) (v_labels s3)\<rparr>)" by (simp add: same_core_defs)
  ultimately have "same_core s (s3\<lparr>v_labels := set_labels (\<lambda>l. l\<lparr>lb_shown := True\<rparr>) (v_toShow s3) (v_labels s3)\<rparr>)"
    by (blast intro: same_core_trans)
  then show ?thesis by (simp add: defaultShowErrors_def Let_def s1_def s2_def s3_def)
qed

lemma same_core_onfocusin [frame]: "same_core s (onfocusin pl e s)"
  by (auto simp: onfocusin_def Let_def same_core_defs unhighlight_def)

lemma same_core_focusInvalid [frame]: "same_core s (focusInvalid pl s)"
  by (auto simp: focusInvalid_def Let_def split: option.splits list.splits intro: frame same_core_trans)

section \<open>The invariant\<close>

text \<open>The only field of its name.\<close>

definition sole :: "field list \<Rightarrow> field \<Rightarrow> bool" where
  "sole fs t = list_all (\<lambda>x. fl_name x = fl_name t \<longrightarrow> fl_id x = fl_id t) fs"

definition on_page :: "field list \<Rightarrow> field \<Rightarrow> bool" where
  "on_page fs e = list_ex (\<lambda>x. fl_id x = fl_id e \<and> fl_name x = fl_name e) fs"

text \<open>
  The object of a field alone with its name: it has not asked yet, the answer for its value has come, its request is in
  flight, or its request has failed and its name is still pending.
\<close>

definition resolved :: "jstr \<Rightarrow> nat \<Rightarrow> nat \<Rightarrow> jstr list \<Rightarrow> (jstr \<times> remote_request) list \<Rightarrow> view \<Rightarrow> vout list \<Rightarrow> bool" where
  "resolved name i k pend reqs os out =
     (fst (os ! k) = Null
      \<or> Answered i (fst (os ! k)) (fst (snd (os ! k))) \<in> set out
      \<or> (case map_of reqs name of Some rr \<Rightarrow> rr_object rr = k | None \<Rightarrow> name \<in> set pend))"

text \<open>A request and the object it shares with its element.\<close>

definition request_ok :: "field list \<Rightarrow> jstr list \<Rightarrow> view \<Rightarrow> jstr \<times> remote_request \<Rightarrow> bool" where
  "request_ok fs pend os r =
     (case r of (name, rr) \<Rightarrow>
        name \<in> set pend \<and> rr_object rr < length os \<and> fst (os ! rr_object rr) = rr_value rr
        \<and> snd (snd (os ! rr_object rr)) = fl_id (rr_field rr) \<and> on_page fs (rr_field rr) \<and> fl_name (rr_field rr) = name)"

definition entry_ok :: "view \<Rightarrow> nat \<times> nat \<Rightarrow> bool" where
  "entry_ok os p = (case p of (i, k) \<Rightarrow> k < length os \<and> snd (snd (os ! k)) = i)"

definition linked ::
  "field list \<Rightarrow> int \<Rightarrow> jstr list \<Rightarrow> (jstr \<times> remote_request) list \<Rightarrow> (nat \<times> nat) list \<Rightarrow> view \<Rightarrow> vout list \<Rightarrow> bool" where
  "linked fs n pend reqs prev os out =
     (n = int (length pend) \<and> distinct pend \<and> distinct (map fst reqs) \<and> distinct (map fst prev)
      \<and> (\<forall>r \<in> set reqs. request_ok fs pend os r) \<and> (\<forall>p \<in> set prev. entry_ok os p)
      \<and> (\<forall>t \<in> set fs. sole fs t \<longrightarrow> (\<forall>k. map_of prev (fl_id t) = Some k \<longrightarrow> resolved (fl_name t) (fl_id t) k pend reqs os out)))"

definition consistent :: "validator \<Rightarrow> bool" where
  "consistent s = linked (v_fields s) (v_pendingRequest s) (v_pending s) (v_requests s) (v_previous s) (view (v_objects s)) (v_out s)"

lemma set_put_entry_eq: "distinct (map fst xs) \<Longrightarrow> set (put_entry k v xs) = insert (k, v) {p \<in> set xs. fst p \<noteq> k}"
proof (induction k v xs rule: put_entry.induct)
  case (2 k v k' v' xs)
  then show ?case by (cases "k' = k") (auto simp: image_iff)
qed simp

lemma on_page_name: "distinct (map fl_id fs) \<Longrightarrow> on_page fs a \<Longrightarrow> on_page fs b \<Longrightarrow> fl_id a = fl_id b \<Longrightarrow> fl_name a = fl_name b"
  unfolding on_page_def list_ex_iff distinct_map inj_on_def by metis

lemma on_page_member: "e \<in> set fs \<Longrightarrow> on_page fs e"
  by (auto simp: on_page_def list_ex_iff)

lemma sole_id: "sole fs t \<Longrightarrow> on_page fs e \<Longrightarrow> fl_name e = fl_name t \<Longrightarrow> fl_id e = fl_id t"
  by (auto simp: sole_def on_page_def list_all_iff list_ex_iff)

lemma linked_mono: "linked fs n pend reqs prev os out \<Longrightarrow> set out \<subseteq> set out' \<Longrightarrow> linked fs n pend reqs prev os out'"
  unfolding linked_def resolved_def by blast

lemma consistent_frame: "same_core s s' \<Longrightarrow> consistent s \<Longrightarrow> consistent s'"
  by (auto simp: consistent_def same_core_defs dest: set_mono_prefix intro: linked_mono)

text \<open>An object is added for an element that has none.\<close>

lemma linked_new:
  assumes "linked fs n pend reqs prev os out" "map_of prev i = None"
  shows "linked fs n pend reqs (put_entry i (length os) prev) (os @ [(Null, b, i)]) out"
proof -
  have reqs: "request_ok fs pend (os @ [(Null, b, i)]) r" if "request_ok fs pend os r" for r
    using that by (auto simp: request_ok_def nth_append split: prod.splits)
  have prev: "entry_ok (os @ [(Null, b, i)]) p" if "p \<in> set (put_entry i (length os) prev)" for p
  proof -
    have "p = (i, length os) \<or> p \<in> set prev" using that by (induction prev) (auto split: if_splits)
    then show ?thesis using assms(1) by (auto simp: entry_ok_def linked_def nth_append split: prod.splits)
  qed
  have res: "resolved nm j k pend reqs (os @ [(Null, b, i)]) out"
    if "map_of (put_entry i (length os) prev) j = Some k" "map_of prev j = Some k \<longrightarrow> resolved nm j k pend reqs os out" for nm j k
  proof (cases "j = i")
    case True
    then show ?thesis using that by (auto simp: resolved_def map_of_put_entry)
  next
    case False
    then have "map_of prev j = Some k" using that by (simp add: map_of_put_entry)
    moreover from this have "k < length os" using assms(1) by (auto simp: linked_def entry_ok_def dest!: map_of_SomeD)
    ultimately show ?thesis using that(2) by (simp add: resolved_def nth_append)
  qed
  show ?thesis using assms reqs prev res unfolding linked_def by (simp add: distinct_put_entry)
qed

text \<open>A request is started for an element of the page.\<close>

lemma linked_ask:
  assumes "linked fs n pend reqs prev os out" "map_of prev (fl_id e) = Some k" "on_page fs e" "distinct (map fl_id fs)"
  shows "linked fs (if fl_name e \<in> set pend then n else n + 1) (if fl_name e \<in> set pend then pend else pend @ [fl_name e])
           (put_entry (fl_name e) \<lparr>rr_field = e, rr_value = v, rr_object = k\<rparr> reqs) prev (os[k := (v, snd (os ! k))]) out"
    (is "linked fs ?n ?pend ?reqs prev ?os out")
proof -
  have lk: "n = int (length pend)" "distinct pend" "distinct (map fst reqs)" "distinct (map fst prev)"
      "\<forall>r \<in> set reqs. request_ok fs pend os r" "\<forall>p \<in> set prev. entry_ok os p"
    using assms(1) unfolding linked_def by blast+
  have k: "k < length os" "snd (snd (os ! k)) = fl_id e"
    using lk assms(2) by (auto simp: entry_ok_def dest!: map_of_SomeD)
  have reqs: "request_ok fs ?pend ?os r" if "r \<in> set ?reqs" for r
  proof (cases "r = (fl_name e, \<lparr>rr_field = e, rr_value = v, rr_object = k\<rparr>)")
    case True
    then show ?thesis using k assms(3) by (simp add: request_ok_def)
  next
    case False
    then have r: "r \<in> set reqs" "fst r \<noteq> fl_name e" using that set_put_entry_eq [OF lk(3)] by auto
    obtain nm rr where nm: "r = (nm, rr)" by (cases r)
    have ok: "request_ok fs pend os (nm, rr)" using lk(5) r nm by blast
    then have "rr_object rr \<noteq> k"
      using k r(2) nm on_page_name [OF assms(4), of "rr_field rr" e] assms(3) by (auto simp: request_ok_def)
    then show ?thesis using ok by (auto simp: request_ok_def nm)
  qed
  have prev: "entry_ok ?os p" if "p \<in> set prev" for p
    using lk(6) that k by (force simp: entry_ok_def nth_change split: prod.splits)
  have res: "resolved (fl_name t) (fl_id t) k' ?pend ?reqs ?os out"
    if t: "t \<in> set fs" "sole fs t" "map_of prev (fl_id t) = Some k'" for t k'
  proof (cases "k' = k")
    case True
    then have "fl_id t = fl_id e" using k t(3) lk(6) by (auto simp: entry_ok_def dest!: map_of_SomeD)
    then have "fl_name t = fl_name e" using on_page_name [OF assms(4) on_page_member [OF t(1)] assms(3)] by blast
    then show ?thesis using True by (simp add: resolved_def map_of_put_entry)
  next
    case False
    then have "fl_name e \<noteq> fl_name t" using sole_id [OF t(2) assms(3)] t(3) assms(2) by auto
    moreover have "resolved (fl_name t) (fl_id t) k' pend reqs os out" using assms(1) t unfolding linked_def by blast
    ultimately show ?thesis using False by (auto simp: resolved_def map_of_put_entry split: option.splits)
  qed
  show ?thesis unfolding linked_def using lk reqs prev res by (auto simp: distinct_put_entry)
qed

text \<open>A request fails: it is no longer in flight, its name stays pending.\<close>

lemma map_of_drop: "map_of (filter (\<lambda>(n, _). n \<noteq> nm) xs) = (map_of xs)(nm := None)"
  by (induction xs) (auto simp: fun_eq_iff)

lemma distinct_drop: "distinct (map fst xs) \<Longrightarrow> distinct (map fst (filter p xs))"
  by (induction xs) auto

lemma linked_drop:
  assumes "linked fs n pend reqs prev os out"
  shows "linked fs n pend (filter (\<lambda>(n, _). n \<noteq> nm) reqs) prev os out"
proof -
  have "resolved (fl_name t) (fl_id t) k pend (filter (\<lambda>(n, _). n \<noteq> nm) reqs) os out"
    if r: "resolved (fl_name t) (fl_id t) k pend reqs os out" for t :: field and k
  proof (cases "fl_name t = nm \<and> map_of reqs nm \<noteq> None")
    case True
    then obtain rr where "(nm, rr) \<in> set reqs" "fl_name t = nm" by (auto dest: map_of_SomeD)
    then have "fl_name t \<in> set pend" using assms by (auto simp: linked_def request_ok_def)
    then show ?thesis using True by (simp add: resolved_def map_of_drop)
  next
    case False
    then show ?thesis using r by (auto simp: resolved_def map_of_drop)
  qed
  then show ?thesis using assms unfolding linked_def by (auto simp: distinct_drop)
qed

text \<open>A request is answered: the answer is recorded in its object and its name is no longer pending.\<close>

lemma linked_answer:
  assumes "linked fs n pend reqs prev os out" "map_of reqs nm = Some rr"
    and "distinct (map fl_id fs)" "Answered (fl_id (rr_field rr)) (rr_value rr) b \<in> set out'" "set out \<subseteq> set out'"
  shows "linked fs (n - 1) (removeAll nm pend) (filter (\<lambda>(n, _). n \<noteq> nm) reqs) prev
           (os[rr_object rr := (fst (os ! rr_object rr), b, snd (snd (os ! rr_object rr)))]) out'"
    (is "linked fs _ ?pend ?reqs prev ?os out'")
proof -
  have lk: "n = int (length pend)" "distinct pend" "distinct (map fst reqs)" "distinct (map fst prev)"
      "\<forall>r \<in> set reqs. request_ok fs pend os r" "\<forall>p \<in> set prev. entry_ok os p"
    using assms(1) unfolding linked_def by blast+
  have rr: "request_ok fs pend os (nm, rr)" using lk(5) assms(2) map_of_SomeD by fast
  have nm: "nm \<in> set pend" using rr by (simp add: request_ok_def)
  then have "length ?pend = length pend - 1" using lk(2) by (simp add: distinct_remove1_removeAll [symmetric] length_remove1)
  then have n: "n - 1 = int (length ?pend)" using lk(1) length_pos_if_in_set [OF nm] by linarith
  have len: "length ?os = length os" by simp
  have nth: "fst (?os ! j) = fst (os ! j)" "snd (snd (?os ! j)) = snd (snd (os ! j))" for j by (auto simp: nth_change)
  have reqs: "request_ok fs ?pend ?os r" if "r \<in> set ?reqs" for r
  proof -
    have "request_ok fs pend os r" "fst r \<noteq> nm" using that lk(5) by auto
    then show ?thesis unfolding request_ok_def len nth by (auto split: prod.splits)
  qed
  have prev: "entry_ok ?os p" if "p \<in> set prev" for p
    using lk(6) that unfolding entry_ok_def len nth by (auto split: prod.splits)
  have res: "resolved (fl_name t) (fl_id t) k ?pend ?reqs ?os out'"
    if t: "t \<in> set fs" "sole fs t" "map_of prev (fl_id t) = Some k" for t k
  proof -
    have r: "resolved (fl_name t) (fl_id t) k pend reqs os out" using assms(1) t unfolding linked_def by blast
    show ?thesis
    proof (cases "k = rr_object rr")
      case True
      have "snd (snd (os ! k)) = fl_id t" using lk(6) t(3) by (auto simp: entry_ok_def dest!: map_of_SomeD)
      then have "fl_id (rr_field rr) = fl_id t" using rr True by (simp add: request_ok_def)
      then show ?thesis using True rr assms(4) by (simp add: resolved_def request_ok_def)
    next
      case False
      have "fl_name t \<noteq> nm \<or> fst (os ! k) = Null \<or> Answered (fl_id t) (fst (os ! k)) (fst (snd (os ! k))) \<in> set out"
        using r False assms(2) by (auto simp: resolved_def)
      then show ?thesis using r False assms(5) by (auto simp: resolved_def map_of_drop split: option.splits)
    qed
  qed
  show ?thesis unfolding linked_def using n lk reqs prev res by (auto simp: distinct_drop distinct_removeAll)
qed

section \<open>Checking keeps the invariant\<close>

text \<open>
  A page: elements are told apart by their ids, no name is that of a member of \<open>Object.prototype\<close>, and only a select
  has the value \<open>null\<close>.
\<close>

definition page_ok :: "field list \<Rightarrow> bool" where
  "page_ok fs = (distinct (map fl_id fs)
     \<and> list_all (\<lambda>x. fl_name x \<notin> set proto_names \<and> (fl_node x = js ''select'' \<or> fl_val x \<noteq> Null)) fs)"

definition vinv :: "validator \<Rightarrow> bool" where
  "vinv s = (page_ok (v_fields s) \<and> consistent s)"

text \<open>What the validator knows of an element: the last value it asked the server about, and the answer.\<close>

definition known :: "validator \<Rightarrow> nat \<Rightarrow> jsval \<times> bool" where
  "known s i =
     (case map_of (v_previous s) i of
        Some k \<Rightarrow> (fst (view (v_objects s) ! k), fst (snd (view (v_objects s) ! k)))
      | None \<Rightarrow> (Null, True))"

definition later :: "validator \<Rightarrow> validator \<Rightarrow> bool" where
  "later s s' = (v_fields s' = v_fields s \<and> v_rules s' = v_rules s \<and> flags s' = flags s \<and> prefix (v_out s) (v_out s')
     \<and> v_pendingRequest s \<le> v_pendingRequest s')"

lemma later_refl [simp]: "later s s"
  by (simp add: later_def)

lemma later_trans: "later s s' \<Longrightarrow> later s' s'' \<Longrightarrow> later s s''"
  by (auto simp: later_def intro: prefix_order.trans)

lemma later_frame: "same_core s s' \<Longrightarrow> later s s'"
  by (auto simp: later_def same_core_defs)

lemma known_frame: "same_core s s' \<Longrightarrow> known s' = known s"
  by (rule ext) (simp add: known_def same_core_defs cong: option.case_cong)

lemma vinv_frame: "same_core s s' \<Longrightarrow> vinv s \<Longrightarrow> vinv s'"
  using consistent_frame by (auto simp: vinv_def same_core_defs)

lemma vinv_pending: "vinv s \<Longrightarrow> v_pendingRequest s = int (length (v_pending s))"
  by (simp add: vinv_def consistent_def linked_def)

lemma page_name: "page_ok fs \<Longrightarrow> on_page fs e \<Longrightarrow> fl_name e \<notin> set proto_names"
  by (auto simp: page_ok_def on_page_def list_ex_iff list_all_iff)

lemma length_view [simp]: "length (view objs) = length objs"
  by (simp add: view_def)

lemma view_append [simp]: "view (xs @ ys) = view xs @ view ys"
  by (simp add: view_def)

lemma view_old [simp]:
  "k < length objs \<Longrightarrow> view (objs[k := (objs ! k)\<lparr>pv_old := v\<rparr>]) = (view objs)[k := (v, snd (view objs ! k))]"
  by (rule nth_equalityI) (auto simp: view_def nth_change)

lemma view_valid [simp]:
  "k < length objs \<Longrightarrow>
    view (objs[k := (objs ! k)\<lparr>pv_valid := b\<rparr>]) = (view objs)[k := (fst (view objs ! k), b, snd (snd (view objs ! k)))]"
  by (rule nth_equalityI) (auto simp: view_def nth_change)

lemma view_nth: "k < length objs \<Longrightarrow> view objs ! k = (pv_old (objs ! k), pv_valid (objs ! k), pv_element (objs ! k))"
  by (simp add: view_def)

lemma entry_bound: "vinv s \<Longrightarrow> map_of (v_previous s) i = Some k \<Longrightarrow> k < length (v_objects s)"
  by (auto simp: vinv_def consistent_def linked_def entry_ok_def dest!: map_of_SomeD)

lemma entry_element: "vinv s \<Longrightarrow> map_of (v_previous s) i = Some k \<Longrightarrow> snd (snd (view (v_objects s) ! k)) = i"
  by (auto simp: vinv_def consistent_def linked_def entry_ok_def dest!: map_of_SomeD)

lemma previousValue_spec:
  assumes "previousValue pl e s = (s', k)" "vinv s"
  shows "vinv s'" "later s s'" "known s' = known s" "map_of (v_previous s') (fl_id e) = Some k" "v_pendingRequest s' = v_pendingRequest s"
    "v_errorList s' = v_errorList s"
proof -
  show "map_of (v_previous s') (fl_id e) = Some k" "v_errorList s' = v_errorList s" "v_pendingRequest s' = v_pendingRequest s" "later s s'"
    using assms(1) by (auto simp: previousValue_def map_of_put_entry later_def flags_def split: option.splits)
  show "vinv s'"
    using assms linked_new [of _ _ _ _ "v_previous s" "view (v_objects s)" _ "fl_id e" True]
    by (auto simp: previousValue_def vinv_def consistent_def view_def split: option.splits)
  show "known s' = known s"
  proof (cases "map_of (v_previous s) (fl_id e)")
    case None
    have bound: "k' < length (v_objects s)" if "map_of (v_previous s) i = Some k'" for i k'
      using entry_bound [OF assms(2)] that by blast
    show ?thesis
    proof
      fix i
      show "known s' i = known s i"
        using assms(1) None bound
        by (cases "i = fl_id e"; cases "map_of (v_previous s) i")
          (auto simp: previousValue_def known_def map_of_put_entry nth_append view_def)
    qed
  qed (use assms(1) in \<open>simp add: previousValue_def\<close>)
qed

text \<open>What a method answers for an element, from what is known of it.\<close>

definition method_answer :: "plugin \<Rightarrow> validator \<Rightarrow> field \<Rightarrow> jstr \<Rightarrow> jsval \<Rightarrow> answer" where
  "method_answer pl s e m p =
     (if is_remote pl m then
        (if optional (vp_env pl) (v_fields s) e then Mismatch
         else if js_same (fst (known s (fl_id e))) (elementValue (v_fields s) e) then Res (snd (known s (fl_id e)))
         else Pending)
      else local_answer pl (v_fields s) m (elementValue (v_fields s) e) e p)"

text \<open>
  What a call leaves: the invariant; what is known of other elements; and of this one too, unless the answer is
  pending, when a request is in flight.
\<close>

definition effect :: "field \<Rightarrow> answer \<Rightarrow> validator \<Rightarrow> validator \<Rightarrow> bool" where
  "effect e a s s' =
     (vinv s' \<and> later s s' \<and> (\<forall>i. i \<noteq> fl_id e \<longrightarrow> known s' i = known s i)
      \<and> (if a = Pending then 0 < v_pendingRequest s' else known s' = known s \<and> v_pendingRequest s' = v_pendingRequest s))"

lemma effect_frame: "effect e a s s1 \<Longrightarrow> same_core s1 s' \<Longrightarrow> effect e a s s'"
  using vinv_frame [of s1 s'] later_trans [OF _ later_frame [of s1 s']] known_frame [of s1 s'] by (auto simp: effect_def same_core_defs)

lemma effect_trans: "effect e a0 s s1 \<Longrightarrow> a0 \<noteq> Pending \<Longrightarrow> effect e a s1 s' \<Longrightarrow> effect e a s s'"
  using later_trans by (auto simp: effect_def)

lemma effect_refl: "vinv s \<Longrightarrow> a \<noteq> Pending \<Longrightarrow> effect e a s s"
  by (simp add: effect_def)

lemma remote_spec:
  assumes "remote pl (elementValue (v_fields s) e) e s = (s', a)" "vinv s" "on_page (v_fields s) e" "is_remote pl m"
  shows "a = method_answer pl s e m p \<and> effect e a s s' \<and> v_errorList s' = v_errorList s"
proof (cases "optional (vp_env pl) (v_fields s) e")
  case True
  then show ?thesis using assms by (simp add: remote_def method_answer_def effect_refl)
next
  case False
  define v where "v = elementValue (v_fields s) e"
  obtain s1 k where s1: "previousValue pl e s = (s1, k)" by (cases "previousValue pl e s")
  note spec = previousValue_spec [OF s1 assms(2)]
  define s2 where "s2 = ensure_messages (fl_name e) s1"
  define s3 where "s3 = update_object k (\<lambda>p. p\<lparr>pv_original := remote_message (fl_name e) s2\<rparr>) s2"
  define s4 where "s4 = set_remote_message (fl_name e) (Some (pv_message (v_objects s3 ! k))) s3"
  define s5 where "s5 = startRequest e (update_object k (\<lambda>p. p\<lparr>pv_old := v\<rparr>) s4)"
  have "same_core s1 s2" "same_core s2 s3" "same_core s3 s4" unfolding s4_def s3_def s2_def by (rule frame)+
  then have sc: "same_core s1 s4" by (rule same_core_trans [OF same_core_trans])
  have err: "v_errorList s4 = v_errorList s"
    unfolding s4_def s3_def s2_def using spec(6)
    by (simp add: set_remote_message_def update_object_def ensure_messages_def split: option.splits custom.splits)
  have i4: "vinv s4" "later s s4" "known s4 = known s" "map_of (v_previous s4) (fl_id e) = Some k" "v_pendingRequest s4 = v_pendingRequest s"
    using vinv_frame [OF sc] later_frame [OF sc] later_trans [of s s1 s4] known_frame [OF sc] spec sc by (auto simp: same_core_defs)
  have k: "k < length (v_objects s4)" using entry_bound i4 by blast
  have kn: "known s (fl_id e) = (pv_old (v_objects s4 ! k), pv_valid (v_objects s4 ! k))"
    unfolding i4(3) [symmetric] by (simp add: known_def i4(4) view_nth k)
  have eq: "remote pl v e s = (if js_same (fst (known s (fl_id e))) v then (s4, Res (snd (known s (fl_id e))))
      else (s5\<lparr>v_requests := put_entry (fl_name e) \<lparr>rr_field = e, rr_value = v, rr_object = k\<rparr> (v_requests s5)\<rparr>, Pending))"
    unfolding remote_def s1 kn using False by (simp add: Let_def s2_def s3_def s4_def s5_def)
  have ma: "method_answer pl s e m p = (if js_same (fst (known s (fl_id e))) v then Res (snd (known s (fl_id e))) else Pending)"
    using assms(4) False by (simp add: method_answer_def v_def)
  show ?thesis
  proof (cases "js_same (fst (known s (fl_id e))) v")
    case True
    then have "s' = s4" "a = Res (snd (known s (fl_id e)))" using assms(1) eq by (auto simp: v_def)
    then show ?thesis using i4 err ma True by (simp add: effect_def)
  next
    case False
    have f4: "v_fields s4 = v_fields s" using i4(2) by (simp add: later_def)
    have "fl_name e \<notin> set proto_names" using page_name assms(2, 3) by (auto simp: vinv_def)
    then have in_p: "in_object (fl_name e) (v_pending s4) = (fl_name e \<in> set (v_pending s4))" by (simp add: in_object_def)
    let ?s = "s5\<lparr>v_requests := put_entry (fl_name e) \<lparr>rr_field = e, rr_value = v, rr_object = k\<rparr> (v_requests s5)\<rparr>"
    have s': "s' = ?s" "a = Pending" using assms(1) eq False by (simp_all add: v_def)
    have lk: "linked (v_fields s4) (v_pendingRequest s4) (v_pending s4) (v_requests s4) (v_previous s4) (view (v_objects s4)) (v_out s4)"
        "distinct (map fl_id (v_fields s4))" "on_page (v_fields s4) e"
      using i4(1) assms(3) f4 by (auto simp: vinv_def consistent_def page_ok_def)
    from linked_ask [OF lk(1) i4(4) lk(3, 2), of v] have "consistent ?s"
      using k in_p by (auto simp: consistent_def s5_def startRequest_def update_object_def)
    then have inv': "vinv ?s" using i4(1) by (simp add: vinv_def s5_def startRequest_def update_object_def)
    have "fl_name e \<in> set (v_pending ?s)" using in_p by (simp add: s5_def startRequest_def update_object_def)
    then have pos: "0 < v_pendingRequest ?s" using vinv_pending [OF inv'] length_pos_if_in_set by fastforce
    have "later s4 ?s" by (simp add: later_def flags_def s5_def startRequest_def update_object_def)
    then have "later s ?s" using later_trans i4(2) by blast
    moreover have "known ?s i = known s i" if i: "i \<noteq> fl_id e" for i
    proof -
      have "k' \<noteq> k" if "map_of (v_previous s4) i = Some k'" for k'
        using entry_element [OF i4(1)] that i4(4) i by metis
      then show ?thesis
        unfolding i4(3) [symmetric]
        by (auto simp: known_def s5_def startRequest_def update_object_def k split: option.splits)
    qed
    moreover have "v_errorList ?s = v_errorList s" using err by (simp add: s5_def startRequest_def update_object_def)
    ultimately show ?thesis using inv' pos s' False ma by (simp add: effect_def)
  qed
qed

text \<open>Methods that are added answer at once.\<close>

definition quiet :: "plugin \<Rightarrow> bool" where
  "quiet pl = (\<forall>m f v e p. vp_custom pl m = Some f \<longrightarrow> f v e p \<noteq> Pending)"

lemma unless_not_pending: "unless_optional env fs e b \<noteq> Pending"
  by (simp add: unless_optional_def)

lemma local_not_pending: "quiet pl \<Longrightarrow> local_answer pl fs m v e p \<noteq> Pending"
proof -
  have "a \<noteq> Pending" if "(m, a) \<in> set (builtins (vp_env pl) fs v e p)" for a
    using that
    by (auto simp: builtins_def required_def email_def url_def date_def dateISO_def number_def digits_def creditcard_def minlength_def
        maxlength_def rangelength_def min_method_def max_method_def range_method_def equalTo_def Let_def
        unless_not_pending [THEN not_sym] split: if_splits jsval.splits)
  then show "quiet pl \<Longrightarrow> local_answer pl fs m v e p \<noteq> Pending"
    by (auto simp: local_answer_def quiet_def split: option.splits) (metis map_of_SomeD)
qed

lemma call_method_spec:
  assumes "call_method pl m (elementValue (v_fields s) e) e p s = (s', a)" "vinv s" "on_page (v_fields s) e" "quiet pl"
  shows "a = method_answer pl s e m p \<and> effect e a s s' \<and> v_errorList s' = v_errorList s"
proof (cases "is_remote pl m")
  case True
  then have "remote pl (elementValue (v_fields s) e) e s = (s', a)" using assms(1) by (simp add: call_method_def)
  from remote_spec [OF this assms(2, 3) True] show ?thesis .
next
  case False
  then have sc: "same_core s s'" "v_errorList s' = v_errorList s" "a = local_answer pl (v_fields s) m (elementValue (v_fields s) e) e p"
    using assms(1) by (auto simp: call_method_def emit_def same_core_defs split: if_splits)
  then show ?thesis
    using effect_frame [OF effect_refl [OF assms(2)] sc(1)] False local_not_pending [OF assms(4)] by (simp add: method_answer_def)
qed

text \<open>The verdict on an element: the answer of the first rule that decides.\<close>

fun verdict :: "plugin \<Rightarrow> validator \<Rightarrow> field \<Rightarrow> rules \<Rightarrow> bool \<Rightarrow> answer" where
  "verdict pl s e [] mismatch = (if mismatch then Mismatch else Res True)"
| "verdict pl s e ((m, p) # rs) mismatch =
     (case method_answer pl s e m (param_value p) of
        Mismatch \<Rightarrow> verdict pl s e rs True
      | Res b \<Rightarrow> if b then verdict pl s e rs False else Res False
      | a \<Rightarrow> a)"

fun outcome_of :: "answer \<Rightarrow> outcome" where
  "outcome_of (Res b) = Returned b"
| "outcome_of Raise = Thrown"
| "outcome_of _ = NoValue"

lemma verdict_passes:
  "verdict pl s e rs mm \<in> {Mismatch, Res True} = list_all (\<lambda>(m, p). method_answer pl s e m (param_value p) \<in> {Mismatch, Res True}) rs"
proof (induction rs arbitrary: mm)
  case (Cons mp rs)
  obtain m p where mp: "mp = (m, p)" by (cases mp)
  show ?case
  proof (cases "method_answer pl s e m (param_value p)")
    case (Res b)
    then show ?thesis using Cons [of False] by (cases b) (simp_all add: mp)
  qed (use Cons [of True] in \<open>simp_all add: mp\<close>)
qed simp

lemma method_answer_eq:
  "v_fields s' = v_fields s \<Longrightarrow> known s' (fl_id e) = known s (fl_id e) \<Longrightarrow> method_answer pl s' e m p = method_answer pl s e m p"
  by (simp add: method_answer_def)

lemma verdict_eq:
  assumes "v_fields s' = v_fields s" "known s' (fl_id e) = known s (fl_id e)"
  shows "verdict pl s' e rs mm = verdict pl s e rs mm"
proof (induction rs arbitrary: mm)
  case (Cons mp rs)
  then show ?case using method_answer_eq [OF assms] by (cases mp) (simp cong: answer.case_cong if_cong)
qed simp

definition reports :: "field \<Rightarrow> answer \<Rightarrow> validator \<Rightarrow> validator \<Rightarrow> bool" where
  "reports e a s s' = (map snd (v_errorList s') = map snd (v_errorList s) @ (if a = Res False then [e] else []))"

lemma check_rules_spec:
  assumes "check_rules pl (elementValue (v_fields s) e) e rs mm s = (s', r)" "vinv s" "on_page (v_fields s) e" "quiet pl"
  shows "r = outcome_of (verdict pl s e rs mm) \<and> effect e (verdict pl s e rs mm) s s' \<and> reports e (verdict pl s e rs mm) s s'"
  using assms
proof (induction rs arbitrary: mm s)
  case Nil
  then show ?case by (auto simp: effect_refl reports_def split: if_splits)
next
  case (Cons mp rs)
  obtain m p where mp: "mp = (m, p)" by (cases mp)
  obtain s1 a where a: "call_method pl m (elementValue (v_fields s) e) e (param_value p) s = (s1, a)" by fastforce
  note spec = call_method_spec [OF a Cons.prems(2-4)]
  then have f: "v_fields s1 = v_fields s" "vinv s1" by (simp_all add: effect_def later_def)
  have rest: ?case
    if ck: "check_rules pl (elementValue (v_fields s) e) e rs mm' s1 = (s', r)" and "a \<noteq> Pending"
      and eq: "verdict pl s e (mp # rs) mm = verdict pl s e rs mm'" for mm'
  proof -
    have "verdict pl s1 e rs mm' = verdict pl s e rs mm'" using spec f that(2) by (intro verdict_eq) (simp_all add: effect_def)
    then show ?thesis
      using Cons.IH [of s1 mm'] ck spec Cons.prems f that(2) effect_trans [of e a s s1] unfolding eq by (auto simp: reports_def)
  qed
  show ?case
  proof (cases a)
    case Mismatch
    then show ?thesis using Cons.prems(1) a mp spec by (intro rest) auto
  next
    case Pending
    let ?s = "s1\<lparr>v_toHide := filter (\<lambda>i. i \<notin> set (errorsFor s1 e)) (v_toHide s1)\<rparr>"
    have sc: "same_core s1 ?s" by (simp add: same_core_defs)
    have s': "s' = ?s" "r = NoValue" using Cons.prems(1) a mp Pending by auto
    show ?thesis using spec Pending effect_frame [OF _ sc, of e Pending s] unfolding s' mp by (auto simp: reports_def)
  next
    case (Res b)
    show ?thesis
    proof (cases b)
      case True
      then show ?thesis using Res Cons.prems(1) a mp spec by (intro rest) auto
    next
      case False
      let ?s = "formatAndAdd pl e m (param_value p) s1"
      have sc: "same_core s1 ?s" by (rule frame)
      have s': "s' = ?s" "r = Returned False" using Cons.prems(1) a mp Res False by auto
      have "method_answer pl s e m (param_value p) = Res False" using spec Res False by simp
      then have v: "verdict pl s e (mp # rs) mm = Res False" by (simp add: mp)
      have "effect e (Res False) s s1" using spec Res False by metis
      then have "effect e (Res False) s ?s" using sc by (rule effect_frame)
      moreover have "reports e (Res False) s ?s" using spec by (simp add: reports_def formatAndAdd_def Let_def)
      ultimately show ?thesis unfolding s' v by simp
    qed
  next
    case Raise
    then have "s' = s1" "r = Thrown" using Cons.prems(1) a mp by auto
    then show ?thesis using spec Raise by (auto simp: reports_def mp)
  qed
qed

end
