(* ===== verification/Validate_Machine.thy ===== *)
theory Validate_Machine
  imports Validate_Safety
begin

text \<open>
  The validator of \<open>src/html/resource/js/jquery.validate.js\<close> as a machine: what checking a form finds, and the events that
  change it.
\<close>

section \<open>Checking a form\<close>

text \<open>The verdict on an element of the form, which is that on its target.\<close>

definition field_verdict :: "plugin \<Rightarrow> validator \<Rightarrow> field \<Rightarrow> answer" where
  "field_verdict pl s e =
     (case validationTargetFor s e of
        None \<Rightarrow> Raise
      | Some t \<Rightarrow>
          (case rules_of (vp_env pl) (v_rules s) t of
             None \<Rightarrow> Raise
           | Some rs \<Rightarrow> verdict pl s t rs False))"

lemma target_eq: "v_fields s' = v_fields s \<Longrightarrow> validationTargetFor s' = validationTargetFor s"
  by (simp add: validationTargetFor_def fun_eq_iff)

lemma target_later: "later s s' \<Longrightarrow> validationTargetFor s' = validationTargetFor s"
  by (rule target_eq) (simp add: later_def)

lemma field_verdict_eq:
  assumes "v_fields s' = v_fields s" "v_rules s' = v_rules s"
    and "\<And>t. validationTargetFor s e = Some t \<Longrightarrow> known s' (fl_id t) = known s (fl_id t)"
  shows "field_verdict pl s' e = field_verdict pl s e"
proof (cases "validationTargetFor s e")
  case (Some t)
  have "verdict pl s' t rs False = verdict pl s t rs False" for rs
    using assms(1) assms(3) [OF Some] by (intro verdict_eq) simp_all
  then show ?thesis using assms(2) Some target_eq [OF assms(1)] by (simp add: field_verdict_def cong: option.case_cong)
qed (simp add: field_verdict_def target_eq [OF assms(1)])

lemma field_verdict_later:
  "later s s' \<Longrightarrow> (\<And>t. validationTargetFor s e = Some t \<Longrightarrow> known s' (fl_id t) = known s (fl_id t)) \<Longrightarrow>
    field_verdict pl s' e = field_verdict pl s e"
  by (rule field_verdict_eq) (simp_all add: later_def)

lemma elements_later: "later s s' \<Longrightarrow> elements env s' = elements env s"
  by (simp add: elements_def later_def)

lemma target_on_page: "validationTargetFor s e = Some t \<Longrightarrow> e \<in> set (v_fields s) \<Longrightarrow> t \<in> set (v_fields s)"
  by (auto simp: validationTargetFor_def findByName_def filter_eq_Cons_iff split: if_splits list.splits)

lemma target_name: "validationTargetFor s e = Some t \<Longrightarrow> fl_name t = fl_name e"
  by (auto simp: validationTargetFor_def findByName_def filter_eq_Cons_iff split: if_splits list.splits)

lemma elements_names:
  assumes "elements_from env cf cache fs = Some es"
  shows "set es \<subseteq> set fs \<and> distinct (map fl_name es) \<and> (\<forall>e \<in> set es. fl_name e \<notin> set cache)"
  using assms
proof (induction fs arbitrary: cache es)
  case (Cons e fs)
  consider "elements_from env cf cache fs = Some es"
    | es' where "elements_from env cf (fl_name e # cache) fs = Some es'" "es = e # es'" "fl_name e \<notin> set cache"
    using Cons.prems by (auto simp: in_object_def split: if_splits option.splits)
  then show ?case
  proof cases
    case 1
    then show ?thesis using Cons.IH [OF 1] by auto
  next
    case 2
    then show ?thesis using Cons.IH [OF 2(1)] by auto
  qed
qed simp

lemma target_ids:
  assumes "vinv s" "e \<in> set (v_fields s)" "e' \<in> set (v_fields s)" "fl_name e \<noteq> fl_name e'"
    and "validationTargetFor s e = Some t" "validationTargetFor s e' = Some t'"
  shows "fl_id t \<noteq> fl_id t'"
  using assms target_on_page target_name on_page_name [of "v_fields s" t t'] on_page_member [of _ "v_fields s"]
  by (metis vinv_def page_ok_def)

definition target :: "validator \<Rightarrow> field \<Rightarrow> field" where
  "target s e = (case validationTargetFor s e of Some t \<Rightarrow> t | None \<Rightarrow> e)"

lemma check_spec:
  assumes "check pl e s = (s', r)" "vinv s" "e \<in> set (v_fields s)" "quiet pl"
  shows "r = outcome_of (field_verdict pl s e) \<and> effect (target s e) (field_verdict pl s e) s s' \<and> reports (target s e) (field_verdict pl s e) s s'"
proof (cases "validationTargetFor s e")
  case None
  then show ?thesis using assms by (simp add: check_def field_verdict_def effect_refl reports_def)
next
  case (Some t)
  have t: "on_page (v_fields s) t" using target_on_page Some assms(3) on_page_member by blast
  show ?thesis
  proof (cases "rules_of (vp_env pl) (v_rules s) t")
    case None
    then show ?thesis using assms Some by (simp add: check_def field_verdict_def effect_refl reports_def)
  next
    case rs: (Some rs)
    obtain s1 r1 where s1: "check_rules pl (elementValue (v_fields s) t) t rs False s = (s1, r1)" by fastforce
    note ch = check_rules_spec [OF s1 assms(2) t assms(4)]
    have sc: "same_core s1 s'" "v_errorList s' = v_errorList s1" "r = r1"
      using assms(1) Some rs s1 by (auto simp: check_def same_core_defs split: outcome.splits bool.splits if_splits)
    have "field_verdict pl s e = verdict pl s t rs False" "target s e = t" by (simp_all add: field_verdict_def Some rs target_def)
    then show ?thesis using ch effect_frame [OF _ sc(1)] sc(2, 3) by (simp add: reports_def)
  qed
qed

text \<open>What checking a list of elements finds: all verdicts are those of the state before.\<close>

definition findings :: "plugin \<Rightarrow> validator \<Rightarrow> field list \<Rightarrow> field list" where
  "findings pl s es = map (target s) (filter (\<lambda>e. field_verdict pl s e = Res False) es)"

lemma check_all_spec:
  assumes "check_all pl es s = (s', r)" "vinv s" "set es \<subseteq> set (v_fields s)" "distinct (map fl_name es)" "quiet pl"
  shows "vinv s' \<and> later s s' \<and> r = (if Raise \<in> field_verdict pl s ` set es then Thrown else NoValue)
    \<and> (r \<noteq> Thrown \<longrightarrow> map snd (v_errorList s') = map snd (v_errorList s) @ findings pl s es
        \<and> (if Pending \<in> field_verdict pl s ` set es then 0 < v_pendingRequest s' else known s' = known s \<and> v_pendingRequest s' = v_pendingRequest s))"
  using assms
proof (induction es arbitrary: s)
  case Nil
  then show ?case by (simp add: findings_def)
next
  case (Cons e es)
  obtain s1 r1 where s1: "check pl e s = (s1, r1)" by fastforce
  have e: "e \<in> set (v_fields s)" using Cons.prems(3) by simp
  note spec = check_spec [OF s1 Cons.prems(2) e Cons.prems(5)]
  then have v1: "vinv s1" "later s s1" "v_fields s1 = v_fields s" by (simp_all add: effect_def later_def)
  have same: "field_verdict pl s1 x = field_verdict pl s x" if x: "x \<in> set es" for x
  proof (rule field_verdict_later [OF v1(2)])
    fix t assume t: "validationTargetFor s x = Some t"
    show "known s1 (fl_id t) = known s (fl_id t)"
    proof (cases "validationTargetFor s e")
      case None
      then show ?thesis using spec by (simp add: field_verdict_def effect_def)
    next
      case (Some te)
      have "fl_name x \<in> fl_name ` set es" "x \<in> set (v_fields s)" using Cons.prems(3) x by auto
      then have "fl_name x \<noteq> fl_name e" "x \<in> set (v_fields s)" using Cons.prems(4) by auto
      then have "fl_id t \<noteq> fl_id te" using target_ids [OF Cons.prems(2) _ e _ t Some] by blast
      then show ?thesis using spec Some by (simp add: effect_def target_def)
    qed
  qed
  have tg: "target s1 = target s" by (simp add: target_def target_later [OF v1(2)] fun_eq_iff)
  show ?case
  proof (cases "field_verdict pl s e = Raise")
    case True
    then have "check_all pl (e # es) s = (s1, Thrown)" using s1 spec by simp
    then show ?thesis using True v1 Cons.prems(1) by auto
  next
    case False
    have "r1 \<noteq> Thrown" using False spec by (cases "field_verdict pl s e") auto
    then have all: "check_all pl es s1 = (s', r)" using Cons.prems(1) s1 by (cases r1) auto
    have img: "field_verdict pl s1 ` set es = field_verdict pl s ` set es" using same by (intro image_cong) auto
    have fnd: "findings pl s1 es = findings pl s es" using same by (simp add: findings_def tg cong: filter_cong)
    have IH: "vinv s' \<and> later s1 s' \<and> r = (if Raise \<in> field_verdict pl s ` set es then Thrown else NoValue)
      \<and> (r \<noteq> Thrown \<longrightarrow> map snd (v_errorList s') = map snd (v_errorList s1) @ findings pl s es
        \<and> (if Pending \<in> field_verdict pl s ` set es then 0 < v_pendingRequest s' else known s' = known s1 \<and> v_pendingRequest s' = v_pendingRequest s1))"
      using Cons.IH [OF all v1(1) _ _ Cons.prems(5)] Cons.prems(3, 4) v1(3) unfolding img fnd by simp
    have "findings pl s (e # es) = (if field_verdict pl s e = Res False then [target s e] else []) @ findings pl s es"
      by (simp add: findings_def)
    moreover have "v_pendingRequest s1 \<le> v_pendingRequest s'" using IH by (simp add: later_def)
    ultimately show ?thesis using IH spec False later_trans [OF v1(2)] by (auto simp: effect_def reports_def split: if_splits)
  qed
qed

lemma errors_show: "v_errorList (defaultShowErrors s) = v_errorList s"
proof -
  have f: "v_errorList (fold (\<lambda>(message, e) s. showLabel e message (highlight e s)) xs s) = v_errorList s" for xs s
    by (induction xs arbitrary: s) (auto simp: showLabel_def highlight_def Let_def)
  have g: "v_errorList (fold unhighlight xs s) = v_errorList s" for xs s
    by (induction xs arbitrary: s) (auto simp: unhighlight_def)
  show ?thesis by (simp add: defaultShowErrors_def Let_def hideErrors_def f g)
qed

lemma form_spec:
  assumes "form pl s = (s', r)" "vinv s" "quiet pl"
  shows "vinv s' \<and> later s s' \<and>
    (case elements (vp_env pl) s of
       None \<Rightarrow> r = Thrown
     | Some es \<Rightarrow>
         if Raise \<in> field_verdict pl s ` set es then r = Thrown
         else map snd (v_errorList s') = findings pl s es \<and> r = Returned (findings pl s es = [])
           \<and> (if Pending \<in> field_verdict pl s ` set es then 0 < v_pendingRequest s' else known s' = known s \<and> v_pendingRequest s' = v_pendingRequest s))"
proof -
  let ?s0 = "prepareForm s"
  have sc0: "same_core s ?s0" by (rule frame)
  have el: "elements (vp_env pl) ?s0 = elements (vp_env pl) s" by (rule elements_later [OF later_frame [OF sc0]])
  show ?thesis
  proof (cases "elements (vp_env pl) s")
    case None
    then show ?thesis using assms vinv_frame [OF sc0] later_frame [OF sc0] el by (auto simp: form_def checkForm_def)
  next
    case (Some es)
    let ?s1 = "?s0\<lparr>v_currentElements := es\<rparr>"
    have sc1: "same_core s ?s1" using sc0 by (simp add: same_core_defs)
    obtain s2 r2 where s2: "check_all pl es ?s1 = (s2, r2)" by fastforce
    have es: "set es \<subseteq> set (v_fields ?s1)" "distinct (map fl_name es)"
      using Some elements_names sc1 by (auto simp: elements_def same_core_defs)
    have fv: "field_verdict pl ?s1 = field_verdict pl s" "target ?s1 = target s"
      using field_verdict_later [OF later_frame [OF sc1]] known_frame [OF sc1] target_later [OF later_frame [OF sc1]]
      by (auto simp: fun_eq_iff target_def)
    note spec = check_all_spec [OF s2 vinv_frame [OF sc1 assms(2)] es assms(3), unfolded fv known_frame [OF sc1]]
    have fnd: "findings pl ?s1 es = findings pl s es" by (simp add: findings_def fv)
    have l2: "vinv s2" "later s s2" using spec later_trans [OF later_frame [OF sc1]] by auto
    show ?thesis
    proof (cases "Raise \<in> field_verdict pl s ` set es")
      case True
      then have "s' = s2" "r = Thrown" using assms(1) Some s2 el spec by (auto simp: form_def checkForm_def Let_def)
      then show ?thesis using l2 Some True by simp
    next
      case False
      let ?s3 = "s2\<lparr>v_submitted := fold (\<lambda>(n, m). put_entry n m) (v_errorMap s2) (v_submitted s2), v_invalid := map fst (v_errorMap s2)\<rparr>"
      let ?s4 = "if valid ?s3 then ?s3 else emit InvalidForm ?s3"
      have ck: "checkForm pl s = (s2, Returned (valid s2))"
        using Some s2 False el spec by (auto simp: checkForm_def Let_def)
      have s': "s' = defaultShowErrors ?s4" "r = Returned (valid s')"
        using assms(1) ck by (auto simp: form_def Let_def showErrors_def)
      have "same_core s2 ?s4" by (auto simp: same_core_defs emit_def)
      then have sc: "same_core s2 s'" unfolding s'(1) by (rule same_core_trans) (rule frame)
      have err: "v_errorList s' = v_errorList s2" unfolding s'(1) errors_show by (simp add: emit_def)
      have "v_errorList ?s1 = []" "v_pendingRequest ?s1 = v_pendingRequest s" by (simp_all add: prepareForm_def reset_def)
      then have m: "map snd (v_errorList s') = findings pl s es"
        and p: "if Pending \<in> field_verdict pl s ` set es then 0 < v_pendingRequest s2 else known s2 = known s \<and> v_pendingRequest s2 = v_pendingRequest s"
        using spec False fnd err by simp_all
      have "valid s' = (findings pl s es = [])" unfolding m [symmetric] by (simp add: valid_def)
      then show ?thesis
        using l2 m p Some False s'(2) vinv_frame [OF sc] later_trans [OF _ later_frame [OF sc]] known_frame [OF sc] sc
        by (auto simp: same_core_defs)
    qed
  qed
qed

section \<open>Other operations keep the invariant\<close>

lemma element_spec:
  assumes "element pl e s = (s', r)" "vinv s" "e \<in> set (v_fields s)" "quiet pl"
  shows "vinv s' \<and> later s s'"
proof (cases "validationTargetFor s e")
  case None
  then have "same_core s s'" using assms(1) by (auto simp: element_def same_core_defs reset_def)
  then show ?thesis using vinv_frame later_frame assms(2) by blast
next
  case (Some t)
  let ?s0 = "(prepareElement t (s\<lparr>v_lastElement := Some (fl_id t)\<rparr>))\<lparr>v_currentElements := [t]\<rparr>"
  have sc0: "same_core s ?s0" by (simp add: same_core_defs prepareElement_def reset_def)
  obtain s1 r1 where s1: "check pl t ?s0 = (s1, r1)" by fastforce
  have "t \<in> set (v_fields ?s0)" using target_on_page [OF Some assms(3)] sc0 by (simp add: same_core_defs)
  from check_spec [OF s1 vinv_frame [OF sc0 assms(2)] this assms(4)]
  have v1: "vinv s1" "later s s1" using later_trans [OF later_frame [OF sc0]] by (auto simp: effect_def)
  have "same_core s1 s'"
  proof (cases "r1 = Thrown")
    case True
    then show ?thesis using assms(1) Some s1 same_core_refl by (simp add: element_def)
  next
    case False
    then obtain s2 where "s' = defaultShowErrors s2" "same_core s1 s2"
      using assms(1) Some s1 by (cases r1) (auto simp: element_def Let_def showErrors_def same_core_defs)
    then show ?thesis using same_core_trans same_core_showErrors by blast
  qed
  then show ?thesis using v1 vinv_frame later_trans later_frame by blast
qed

lemma vinv_flags [simp]: "vinv (s\<lparr>v_formSubmitted := a\<rparr>) = vinv s" "vinv (s\<lparr>v_cancelSubmit := b\<rparr>) = vinv s"
  by (simp_all add: vinv_def consistent_def)

lemma submit_handler_vinv:
  assumes "submit_handler pl s = (s', r)" "vinv s" "quiet pl"
  shows "vinv s'"
proof (cases "v_cancelSubmit s")
  case True
  then show ?thesis using assms by (auto simp: submit_handler_def)
next
  case False
  obtain s1 r1 where s1: "form pl s = (s1, r1)" by fastforce
  have "vinv s1" using form_spec [OF s1 assms(2, 3)] by blast
  then show ?thesis
    using assms(1) False s1 vinv_frame [OF same_core_focusInvalid [of s1 pl]]
    by (auto simp: submit_handler_def split: outcome.splits bool.splits if_splits)
qed

lemma user_submit_vinv: "vinv s \<Longrightarrow> quiet pl \<Longrightarrow> vinv (user_submit pl s)"
  using submit_handler_vinv [of pl s "fst (submit_handler pl s)" "snd (submit_handler pl s)"] vinv_frame [OF same_core_prepare(4)]
  by (simp add: user_submit_def split_beta)

lemma trigger_submit_vinv: "vinv s \<Longrightarrow> quiet pl \<Longrightarrow> vinv (fst (trigger_submit pl s))"
  using submit_handler_vinv [of pl s "fst (submit_handler pl s)" "snd (submit_handler pl s)"] vinv_frame [OF same_core_prepare(4)]
  by (simp add: trigger_submit_def split_beta)

lemma stopRequest_vinv:
  assumes "vinv (forget_request e s)" "quiet pl"
  shows "vinv (fst (stopRequest pl e ok s))"
proof -
  let ?s1 = "forget_request e s"
  obtain s2 r2 where s2: "form pl ?s1 = (s2, r2)" by fastforce
  have "vinv s2" using form_spec [OF s2 assms] by blast
  then have "vinv (fst (trigger_submit pl s2))" using trigger_submit_vinv assms(2) by blast
  then have "vinv (fst (case trigger_submit pl s2 of (s3, Thrown) \<Rightarrow> (s3, Thrown) | (s3, _) \<Rightarrow> (s3\<lparr>v_formSubmitted := False\<rparr>, NoValue)))"
    by (cases "trigger_submit pl s2") (auto split: outcome.splits)
  moreover have "vinv ((emit InvalidForm ?s1)\<lparr>v_formSubmitted := False\<rparr>)"
    using vinv_frame [OF same_core_prepare(4) assms(1)] by simp
  ultimately show ?thesis using \<open>vinv s2\<close> assms(1) s2 by (simp add: stopRequest_def Let_def split: outcome.splits bool.splits)
qed

lemma showErrors_with_frame:
  assumes "showErrors_with name text s = (s', r)"
  shows "same_core s s' \<and> r \<in> {Thrown, NoValue}"
proof (cases "findByName (v_fields s) name")
  case Nil
  then show ?thesis using assms same_core_refl by (simp add: showErrors_with_def)
next
  case (Cons x xs)
  let ?s = "s\<lparr>v_errorMap := put_entry name text (v_errorMap s), v_errorList := [(text, x)],
                v_successList := filter (\<lambda>x. \<not> in_object (fl_name x) [name]) (v_successList s)\<rparr>"
  have "same_core s ?s" by (simp add: same_core_defs)
  then have "same_core s (defaultShowErrors ?s)" by (rule same_core_trans) (rule frame)
  then show ?thesis using assms Cons by (auto simp: showErrors_with_def)
qed

lemma drop_vinv: "vinv s \<Longrightarrow> vinv (drop_request nm s)"
  using linked_drop by (simp add: vinv_def consistent_def drop_request_def)

text \<open>A request that has been answered is counted off.\<close>

lemma settle_vinv:
  assumes "vinv s" "map_of (v_requests s) nm = Some rr" "same_core (drop_request nm s) s3"
  shows "vinv (forget_request (rr_field rr) (settle rr ok s3))"
proof -
  let ?s = "forget_request (rr_field rr) (settle rr ok s3)"
  have lk: "linked (v_fields s) (v_pendingRequest s) (v_pending s) (v_requests s) (v_previous s) (view (v_objects s)) (v_out s)"
      "distinct (map fl_id (v_fields s))"
    using assms(1) by (simp_all add: vinv_def consistent_def page_ok_def)
  have "request_ok (v_fields s) (v_pending s) (view (v_objects s)) (nm, rr)"
    using lk(1) assms(2) map_of_SomeD by (fastforce simp: linked_def)
  then have rr: "fl_name (rr_field rr) = nm" "nm \<in> set (v_pending s)" "rr_object rr < length (v_objects s)" by (simp_all add: request_ok_def)
  have s3: "v_fields s3 = v_fields s" "v_pendingRequest s3 = v_pendingRequest s" "v_pending s3 = v_pending s" "v_previous s3 = v_previous s"
      "v_requests s3 = filter (\<lambda>(n, _). n \<noteq> nm) (v_requests s)" "view (v_objects s3) = view (v_objects s)" "set (v_out s) \<subseteq> set (v_out s3)"
    using assms(3) set_mono_prefix [of "v_out s" "v_out s3"] by (simp_all add: same_core_defs drop_request_def)
  have "length (v_objects s3) = length (v_objects s)" using arg_cong [OF s3(6), of length] by simp
  then have view: "view (v_objects ?s) = (view (v_objects s))[rr_object rr := (fst (view (v_objects s) ! rr_object rr), ok, snd (snd (view (v_objects s) ! rr_object rr)))]"
    using rr(3) s3(6) by (simp add: forget_request_def settle_def update_object_def emit_def Let_def)
  have "0 < v_pendingRequest s" using vinv_pending [OF assms(1)] rr(2) length_pos_if_in_set by fastforce
  then have fields: "v_fields ?s = v_fields s" "v_pendingRequest ?s = v_pendingRequest s - 1" "v_pending ?s = removeAll nm (v_pending s)"
      "v_requests ?s = filter (\<lambda>(n, _). n \<noteq> nm) (v_requests s)" "v_previous ?s = v_previous s"
    using s3 rr(1) by (simp_all add: forget_request_def settle_def update_object_def emit_def Let_def)
  have out: "Answered (fl_id (rr_field rr)) (rr_value rr) ok \<in> set (v_out ?s)" "set (v_out s) \<subseteq> set (v_out ?s)"
    using s3(7) by (auto simp: forget_request_def settle_def update_object_def emit_def Let_def)
  have "consistent ?s" unfolding consistent_def fields view by (rule linked_answer [OF lk(1) assms(2) lk(2) out])
  then show ?thesis using assms(1) fields(1) by (simp add: vinv_def)
qed

lemma respond_vinv:
  assumes "vinv s" "quiet pl"
  shows "vinv (fst (respond pl nm resp s))"
proof (cases "map_of (v_requests s) nm")
  case None
  then show ?thesis using assms by (simp add: respond_def)
next
  case (Some rr)
  let ?s0 = "drop_request nm s" and ?e = "rr_field rr"
  let ?s1 = "set_remote_message (fl_name ?e) (pv_original (v_objects ?s0 ! rr_object rr)) ?s0"
  have sc1: "same_core ?s0 ?s1" by (rule frame)
  show ?thesis
  proof (cases "accepts_response resp")
    case True
    let ?s2 = "prepareElement ?e ?s1"
    let ?s3 = "showErrors (?s2\<lparr>v_successList := v_successList ?s2 @ [?e], v_invalid := removeAll (fl_name ?e) (v_invalid ?s2)\<rparr>)"
    have "same_core ?s1 (?s2\<lparr>v_successList := v_successList ?s2 @ [?e], v_invalid := removeAll (fl_name ?e) (v_invalid ?s2)\<rparr>)"
      by (simp add: same_core_defs prepareElement_def reset_def)
    then have "same_core ?s0 ?s3" unfolding showErrors_def using sc1 same_core_trans same_core_showErrors by blast
    then have "vinv (forget_request ?e (settle rr True ?s3))" by (rule settle_vinv [OF assms(1) Some])
    then show ?thesis using stopRequest_vinv [OF _ assms(2)] Some True by (simp add: respond_def remote_success_def Let_def)
  next
    case False
    let ?text = "response_text pl rr resp ?s1"
    let ?s2 = "update_object (rr_object rr) (\<lambda>p. p\<lparr>pv_message := MText ?text\<rparr>) ?s1"
    let ?s3 = "?s2\<lparr>v_invalid := List.insert (fl_name ?e) (v_invalid ?s2)\<rparr>"
    have "same_core ?s1 ?s2" by (rule frame)
    then have "same_core ?s1 ?s3" by (simp add: same_core_defs)
    then have sc3: "same_core ?s0 ?s3" using sc1 same_core_trans by blast
    obtain s4 r4 where s4: "showErrors_with (fl_name ?e) ?text ?s3 = (s4, r4)" by fastforce
    have sw: "same_core ?s3 s4" "r4 \<in> {Thrown, NoValue}" using showErrors_with_frame [OF s4] by blast+
    then have sc4: "same_core ?s0 s4" using sc3 same_core_trans by blast
    then have "vinv (forget_request ?e (settle rr False s4))" by (rule settle_vinv [OF assms(1) Some])
    moreover have "vinv s4" using drop_vinv [OF assms(1)] sc4 vinv_frame by blast
    ultimately show ?thesis
      using stopRequest_vinv [OF _ assms(2)] Some False s4 sw(2) by (auto simp: respond_def remote_success_def Let_def)
  qed
qed

lemma map_of_without: "map_of (filter (\<lambda>(i, _). i \<notin> A) xs) i = (if i \<in> A then None else map_of xs i)"
  by (induction xs) auto

lemma resetForm_vinv:
  assumes "vinv s"
  shows "vinv (fst (resetForm pl s))"
proof -
  let ?s1 = "hideErrors (prepareForm (s\<lparr>v_submitted := [], v_lastElement := None\<rparr>))"
  have "same_core s ?s1" by (simp add: same_core_defs hideErrors_def prepareForm_def reset_def)
  then have v1: "vinv ?s1" using assms vinv_frame by blast
  have "linked fs n pend reqs (filter (\<lambda>(i, _). i \<notin> A) prev) os out" if "linked fs n pend reqs prev os out" for fs n pend reqs A prev os out
    using that unfolding linked_def by (auto simp: map_of_without distinct_drop)
  then show ?thesis using v1 by (simp add: resetForm_def Let_def vinv_def consistent_def split: option.split)
qed

text \<open>Values, states and classes of fields change; ids and names stay.\<close>

definition same_names :: "field list \<Rightarrow> field list \<Rightarrow> bool" where
  "same_names fs fs' = (map (\<lambda>x. (fl_id x, fl_name x)) fs' = map (\<lambda>x. (fl_id x, fl_name x)) fs)"

lemma linked_edit:
  assumes "same_names fs fs'" "linked fs n pend reqs prev os out"
  shows "linked fs' n pend reqs prev os out"
proof -
  have mem: "(\<exists>x \<in> set fs. fl_id x = i \<and> fl_name x = nm) = (\<exists>x \<in> set fs'. fl_id x = i \<and> fl_name x = nm)" for i nm
    using arg_cong [OF assms(1) [unfolded same_names_def], of "\<lambda>xs. (i, nm) \<in> set xs"] by (auto simp: image_iff)
  have page: "on_page fs' e = on_page fs e" for e :: field
    using mem [of "fl_id e" "fl_name e"] by (simp add: on_page_def list_ex_iff)
  have sole: "sole fs' t = sole fs t" for t
    using mem by (auto simp: sole_def list_all_iff) metis+
  have req: "request_ok fs' pend os r = request_ok fs pend os r" for r
    by (simp add: request_ok_def page)
  have res: "resolved (fl_name t) (fl_id t) k pend reqs os out"
    if t: "t \<in> set fs'" "sole fs' t" "map_of prev (fl_id t) = Some k" for t k
  proof -
    obtain x where x: "x \<in> set fs" "fl_id x = fl_id t" "fl_name x = fl_name t" using t(1) mem [of "fl_id t" "fl_name t"] by auto
    then have "sole fs x" using t(2) unfolding sole by (simp add: sole_def)
    then show ?thesis using assms(2) x t(3) unfolding linked_def by metis
  qed
  show ?thesis using assms(2) res unfolding linked_def req by blast
qed

section \<open>Events\<close>

text \<open>
  The steps of a validator: the user edits the page, submits, clicks, types; a request is answered or fails; a script
  checks an element, resets the form or changes rules and messages.
\<close>

inductive vstep :: "plugin \<Rightarrow> validator \<Rightarrow> validator \<Rightarrow> bool" for pl where
  Edit: "same_names (v_fields s) fs \<Longrightarrow> page_ok fs \<Longrightarrow> vstep pl s (s\<lparr>v_fields := fs\<rparr>)"
| Submit: "vstep pl s (user_submit pl s)"
| Cancel: "vstep pl s (submit_click b s)"
| Respond: "vstep pl s (fst (respond pl nm resp s))"
| Fail: "vstep pl s (drop_request nm s)"
| Focus_in: "e \<in> set (v_fields s) \<Longrightarrow> vstep pl s (onfocusin pl e s)"
| Focus_out: "e \<in> set (v_fields s) \<Longrightarrow> vstep pl s (fst (onfocusout pl e s))"
| Key: "e \<in> set (v_fields s) \<Longrightarrow> vstep pl s (fst (onkeyup pl e which s))"
| Click: "e \<in> set (v_fields s) \<Longrightarrow> parent \<in> set (v_fields s) \<Longrightarrow> vstep pl s (fst (onclick pl e parent s))"
| Element: "e \<in> set (v_fields s) \<Longrightarrow> vstep pl s (fst (element pl e s))"
| Form: "vstep pl s (fst (form pl s))"
| Reset: "vstep pl s (fst (resetForm pl s))"
| Rules: "vstep pl s (s\<lparr>v_rules := cf\<rparr>)"
| Messages: "vstep pl s (add_messages ms e s)"

inductive reachable :: "plugin \<Rightarrow> validator \<Rightarrow> bool" for pl where
  Init: "page_ok fs \<Longrightarrow> reachable pl (init_validator pl fs cf ms)"
| Step: "reachable pl s \<Longrightarrow> vstep pl s s' \<Longrightarrow> reachable pl s'"

lemma element_vinv: "vinv s \<Longrightarrow> quiet pl \<Longrightarrow> e \<in> set (v_fields s) \<Longrightarrow> vinv (fst (element pl e s))"
  using element_spec [of pl e s "fst (element pl e s)" "snd (element pl e s)"] by simp

lemma step_vinv:
  assumes "vstep pl s s'" "vinv s" "quiet pl"
  shows "vinv s'"
  using assms
proof (cases rule: vstep.cases)
  case (Edit fs)
  then show ?thesis using assms(2) linked_edit by (auto simp: vinv_def consistent_def)
next
  case (Form)
  then show ?thesis using form_spec [of pl s "fst (form pl s)" "snd (form pl s)"] assms by simp
next
  case (Focus_in e)
  then show ?thesis using vinv_frame [OF same_core_onfocusin] assms by simp
next
  case (Cancel b)
  then show ?thesis using assms by (simp add: submit_click_def)
next
  case (Rules cf)
  then show ?thesis using assms by (simp add: vinv_def consistent_def)
next
  case (Messages ms e)
  then show ?thesis using assms by (simp add: vinv_def consistent_def add_messages_def)
qed (use assms element_vinv in \<open>auto simp: user_submit_vinv respond_vinv drop_vinv resetForm_vinv onfocusout_def onkeyup_def onclick_def\<close>)

lemma reachable_vinv: "reachable pl s \<Longrightarrow> quiet pl \<Longrightarrow> vinv s"
proof (induction rule: reachable.induct)
  case (Init fs cf ms)
  then show ?case by (simp add: init_validator_def vinv_def consistent_def linked_def)
qed (rule step_vinv)

section \<open>What holds in every state\<close>

text \<open>
  C11: requests are counted. In every state that events can lead to, \<open>pendingRequest\<close> is the number of names in
  \<open>pending\<close>, each is there once, and every request in flight has its name there, with at most one request for a name.
\<close>

theorem pending_counted:
  assumes "reachable pl s" "quiet pl"
  shows "v_pendingRequest s = int (length (v_pending s)) \<and> distinct (v_pending s)
    \<and> set (map fst (v_requests s)) \<subseteq> set (v_pending s) \<and> distinct (map fst (v_requests s))"
  using reachable_vinv [OF assms] by (auto simp: vinv_def consistent_def linked_def request_ok_def)

text \<open>
  C9: errors are reported exactly. Checking a form whose rules raise no exception reports, in the order of the page, the elements
  with a rule that answers false before one that is pending; the form is valid if there is none.
\<close>

theorem form_reports_exactly:
  assumes "reachable pl s" "quiet pl" "elements (vp_env pl) s = Some es" "Raise \<notin> field_verdict pl s ` set es"
  shows "map snd (v_errorList (fst (form pl s))) = findings pl s es \<and> snd (form pl s) = Returned (findings pl s es = [])"
  using form_spec [of pl s "fst (form pl s)" "snd (form pl s)"] reachable_vinv [OF assms(1, 2)] assms by simp

text \<open>The server has called this value of an element valid.\<close>

definition server_accepted :: "validator \<Rightarrow> nat \<Rightarrow> jsval \<Rightarrow> bool" where
  "server_accepted s i v = list_ex (\<lambda>x. case x of Answered j u b \<Rightarrow> b \<and> j = i \<and> js_same u v | _ \<Rightarrow> False) (v_out s)"

text \<open>
  A rule that holds for an element: a method that asks the server holds if the server has accepted the value. Nothing is
  said about such a rule if other fields have the same name.
\<close>

definition approved :: "plugin \<Rightarrow> validator \<Rightarrow> field \<Rightarrow> jstr \<times> param \<Rightarrow> bool" where
  "approved pl s e r =
     (case r of (m, p) \<Rightarrow>
        if is_remote pl m then
          optional (vp_env pl) (v_fields s) e \<or> server_accepted s (fl_id e) (elementValue (v_fields s) e) \<or> \<not> sole (v_fields s) e
        else local_answer pl (v_fields s) m (elementValue (v_fields s) e) e (param_value p) \<in> {Mismatch, Res True})"

definition form_approved :: "plugin \<Rightarrow> validator \<Rightarrow> bool" where
  "form_approved pl s =
     (case elements (vp_env pl) s of
        None \<Rightarrow> False
      | Some es \<Rightarrow>
          list_all (\<lambda>e. case validationTargetFor s e of
              None \<Rightarrow> False
            | Some t \<Rightarrow>
                (case rules_of (vp_env pl) (v_rules s) t of
                   None \<Rightarrow> False
                 | Some rs \<Rightarrow> list_all (approved pl s t) rs)) es)"

lemma js_same_Null: "js_same Null v \<Longrightarrow> v = Null"
  by (cases v) auto

lemma value_not_Null:
  assumes "page_ok fs" "e \<in> set fs" "\<not> optional env fs e"
  shows "elementValue fs e \<noteq> Null"
proof
  assume null: "elementValue fs e = Null"
  have page: "fl_node x = js ''select'' \<or> fl_val x \<noteq> Null" if "x \<in> set fs" for x
    using assms(1) that by (auto simp: page_ok_def list_all_iff)
  show False
  proof (cases "fl_attr e (js ''type'') \<in> {Some (js ''radio''), Some (js ''checkbox'')}")
    case True
    then obtain x where "x \<in> set fs" "fl_node x = js ''input''" "fl_val x = Null"
      using null by (auto simp: elementValue_def filter_eq_Cons_iff split: list.splits) blast+
    then show False using page [of x] by (simp add: js_def)
  next
    case False
    then have v: "fl_val e = Null" using null by (auto simp: elementValue_def split: jsval.splits if_splits)
    then have "fl_node e = js ''select''" using page assms(2) by blast
    then show False using assms(3) v by (simp add: optional_def required_def)
  qed
qed

lemma nothing_pending:
  assumes "vinv s" "v_pendingRequest s = 0" "t \<in> set (v_fields s)" "sole (v_fields s) t" "known s (fl_id t) = (u, True)" "u \<noteq> Null"
  shows "Answered (fl_id t) u True \<in> set (v_out s)"
proof -
  have "v_pending s = []" using vinv_pending [OF assms(1)] assms(2) by simp
  moreover have "v_requests s = []"
    using assms(1) calculation by (cases "v_requests s") (auto simp: vinv_def consistent_def linked_def request_ok_def)
  ultimately have res: "map_of (v_previous s) (fl_id t) = Some k \<Longrightarrow> resolved (fl_name t) (fl_id t) k [] [] (view (v_objects s)) (v_out s)" for k
    using assms(1, 3, 4) unfolding vinv_def consistent_def linked_def by metis
  obtain k where "map_of (v_previous s) (fl_id t) = Some k" "fst (view (v_objects s) ! k) = u" "fst (snd (view (v_objects s) ! k)) = True"
    using assms(5, 6) by (auto simp: known_def split: option.splits)
  then show ?thesis using res [of k] assms(6) by (simp add: resolved_def)
qed

text \<open>
  C7: a form that is sent satisfies its rules. When the handler of \<open>submit\<close> lets a form through that is not
  sent by a cancel button, every rule of every element holds for its value now; for a rule \<open>remote\<close> of a field that is alone
  with its name, the server has accepted this value, even when earlier requests were overtaken or failed.
\<close>

theorem sent_form_satisfies_rules:
  assumes "reachable pl s" "quiet pl" "submit_handler pl s = (s', Returned True)" "\<not> v_cancelSubmit s"
  shows "form_approved pl s"
proof -
  have inv: "vinv s" by (rule reachable_vinv [OF assms(1, 2)])
  obtain s1 r1 where s1: "form pl s = (s1, r1)" by fastforce
  have ok: "r1 = Returned True" "v_pendingRequest s1 = 0"
    using assms(3, 4) s1 by (auto simp: submit_handler_def split: outcome.splits bool.splits if_splits)
  note spec = form_spec [OF s1 inv assms(2)]
  then obtain es where es: "elements (vp_env pl) s = Some es" using ok by (cases "elements (vp_env pl) s") auto
  have v: "Raise \<notin> field_verdict pl s ` set es" "Pending \<notin> field_verdict pl s ` set es" "findings pl s es = []" "v_pendingRequest s = 0"
    using spec es ok by (auto split: if_splits)
  have "\<exists>t rs. validationTargetFor s e = Some t \<and> rules_of (vp_env pl) (v_rules s) t = Some rs \<and> list_all (approved pl s t) rs"
    if e: "e \<in> set es" for e
  proof -
    have "field_verdict pl s e \<noteq> Res False" using v(3) e by (auto simp: findings_def filter_empty_conv)
    moreover have "field_verdict pl s e \<noteq> Raise" "field_verdict pl s e \<noteq> Pending" using v(1, 2) e by force+
    ultimately obtain t rs where t: "validationTargetFor s e = Some t" "rules_of (vp_env pl) (v_rules s) t = Some rs"
        "verdict pl s t rs False \<in> {Mismatch, Res True}"
      by (cases "field_verdict pl s e") (auto simp: field_verdict_def split: option.splits)
    have "e \<in> set (v_fields s)" using elements_names [of "vp_env pl" "v_rules s" "[]" "v_fields s" es] es e by (auto simp: elements_def)
    then have tp: "t \<in> set (v_fields s)" using target_on_page t(1) by blast
    have "approved pl s t (m, p)" if r: "(m, p) \<in> set rs" for m p
    proof -
      have ma: "method_answer pl s t m (param_value p) \<in> {Mismatch, Res True}" using t(3) r unfolding verdict_passes by (auto simp: list_all_iff)
      show ?thesis
      proof (cases "is_remote pl m \<and> \<not> optional (vp_env pl) (v_fields s) t \<and> sole (v_fields s) t")
        case True
        then have kn: "js_same (fst (known s (fl_id t))) (elementValue (v_fields s) t)" "snd (known s (fl_id t))"
          using ma by (auto simp: method_answer_def split: if_splits)
        moreover have "fst (known s (fl_id t)) \<noteq> Null"
          using kn(1) js_same_Null value_not_Null [OF _ tp] True inv by (metis vinv_def)
        ultimately have "Answered (fl_id t) (fst (known s (fl_id t))) True \<in> set (v_out s)"
          using nothing_pending [OF inv v(4) tp] True by (metis prod.collapse)
        then have "server_accepted s (fl_id t) (elementValue (v_fields s) t)" using kn(1) by (force simp: server_accepted_def list_ex_iff)
        then show ?thesis using True by (simp add: approved_def)
      next
        case False
        then show ?thesis using ma by (auto simp: approved_def method_answer_def)
      qed
    qed
    then show ?thesis using t by (auto simp: list_all_iff)
  qed
  then show ?thesis using es by (fastforce simp: form_approved_def list_all_iff)
qed

section \<open>Pending requests\<close>

text \<open>
  C12: an unanswered request holds the form back. As long as a name is pending, whether its request is in
  flight or has failed, the handler of \<open>submit\<close> does not let the form through, except for a cancel button.
\<close>

theorem pending_blocks_submit:
  assumes "reachable pl s" "quiet pl" "v_pending s \<noteq> []" "\<not> v_cancelSubmit s"
  shows "snd (submit_handler pl (drop_request nm s)) \<noteq> Returned True"
proof
  let ?s = "drop_request nm s"
  assume r: "snd (submit_handler pl ?s) = Returned True"
  have inv: "vinv ?s" by (rule drop_vinv [OF reachable_vinv [OF assms(1, 2)]])
  obtain s1 r1 where s1: "form pl ?s = (s1, r1)" by fastforce
  have "0 < v_pendingRequest ?s" using vinv_pending [OF inv] assms(3) by (simp add: drop_request_def)
  then have "0 < v_pendingRequest s1" using form_spec [OF s1 inv assms(2)] by (auto simp: later_def)
  then show False using r s1 assms(4) by (auto simp: submit_handler_def drop_request_def split: outcome.splits bool.splits if_splits)
qed

definition accepted :: "plugin \<Rightarrow> validator \<Rightarrow> field \<Rightarrow> bool" where
  "accepted pl s e = (field_verdict pl s e \<in> {Mismatch, Res True})"

lemma form_accepts:
  assumes "vinv s" "quiet pl" "elements (vp_env pl) s = Some es" "list_all (accepted pl s) es"
  shows "\<exists>s'. form pl s = (s', Returned True) \<and> vinv s' \<and> later s s' \<and> known s' = known s \<and> v_pendingRequest s' = v_pendingRequest s"
proof -
  obtain s' r where s': "form pl s = (s', r)" by fastforce
  have "Raise \<notin> field_verdict pl s ` set es" "Pending \<notin> field_verdict pl s ` set es" "findings pl s es = []"
    using assms(4) by (auto simp: list_all_iff accepted_def findings_def filter_empty_conv)
  then show ?thesis using form_spec [OF s' assms(1, 2)] assms(3) s' by auto
qed

lemma later_accepts: "later s s' \<Longrightarrow> known s' = known s \<Longrightarrow> accepted pl s' = accepted pl s"
  using field_verdict_later [of s s'] by (simp add: accepted_def fun_eq_iff)

lemma known_eq: "v_previous s' = v_previous s \<Longrightarrow> view (v_objects s') = view (v_objects s) \<Longrightarrow> known s' = known s"
  by (rule ext) (simp add: known_def cong: option.case_cong)

lemma known_settle:
  assumes "same_core s s'" "rr_object rr < length (v_objects s)"
  shows "known (settle rr ok s') = known (settle rr ok s)"
proof -
  have eq: "view (v_objects s') = view (v_objects s)" "v_previous s' = v_previous s" using assms(1) by (simp_all add: same_core_defs)
  have "length (v_objects s') = length (v_objects s)" using arg_cong [OF eq(1), of length] by simp
  then show ?thesis using eq assms(2) by (intro known_eq) (simp_all add: settle_def emit_def update_object_def)
qed

text \<open>
  C8: a form that waited is sent. The user has submitted a form while a request was pending; when the server
  accepts the value of the last pending request and every element then satisfies its rules, the form is sent at once.
\<close>

theorem waiting_form_sent:
  assumes "reachable pl s" "quiet pl" "map_of (v_requests s) nm = Some rr" "accepts_response resp" "v_pending s = [nm]"
    and "v_formSubmitted s" "\<not> v_cancelSubmit s" "\<not> vo_debug (vp_options pl)"
    and "elements (vp_env pl) s = Some es" "list_all (accepted pl (settle rr True (drop_request nm s))) es"
  shows "\<exists>s' out. respond pl nm resp s = (s', NoValue) \<and> \<not> v_formSubmitted s' \<and> v_out s' = v_out s @ out @ [Submitted]"
proof -
  have inv: "vinv s" by (rule reachable_vinv [OF assms(1, 2)])
  let ?s0 = "drop_request nm s" and ?e = "rr_field rr"
  let ?s1 = "set_remote_message (fl_name ?e) (pv_original (v_objects ?s0 ! rr_object rr)) ?s0"
  let ?s2 = "prepareElement ?e ?s1"
  define s3 where "s3 = showErrors (?s2\<lparr>v_successList := v_successList ?s2 @ [?e], v_invalid := removeAll (fl_name ?e) (v_invalid ?s2)\<rparr>)"
  have rsp: "respond pl nm resp s = stopRequest pl ?e True (settle rr True s3)"
    using assms(3, 4) by (simp add: respond_def remote_success_def s3_def Let_def)
  have "same_core ?s0 ?s1" by (rule frame)
  moreover have "same_core ?s1 (?s2\<lparr>v_successList := v_successList ?s2 @ [?e], v_invalid := removeAll (fl_name ?e) (v_invalid ?s2)\<rparr>)"
    by (simp add: same_core_defs prepareElement_def reset_def)
  ultimately have sc: "same_core ?s0 s3" unfolding s3_def showErrors_def using same_core_trans same_core_showErrors by blast
  define s4 where "s4 = forget_request ?e (settle rr True s3)"
  have inv4: "vinv s4" unfolding s4_def by (rule settle_vinv [OF inv assms(3) sc])
  have req: "request_ok (v_fields s) (v_pending s) (view (v_objects s)) (nm, rr)"
    using inv assms(3) map_of_SomeD by (fastforce simp: vinv_def consistent_def linked_def)
  then have "fl_name ?e = nm" "rr_object rr < length (v_objects ?s0)" by (simp_all add: request_ok_def drop_request_def)
  moreover have "v_pendingRequest s = 1" using vinv_pending [OF inv] assms(5) by simp
  ultimately have f4: "v_pendingRequest s4 = 0" "v_formSubmitted s4" "\<not> v_cancelSubmit s4" "prefix (v_out s) (v_out s4)"
      "v_fields s4 = v_fields ?s0" "v_rules s4 = v_rules ?s0" and "known (settle rr True s3) = known (settle rr True ?s0)"
    using sc assms(5, 6, 7) known_settle [OF sc, of rr True]
    by (auto simp: s4_def forget_request_def settle_def update_object_def emit_def same_core_defs drop_request_def Let_def prefix_order.trans)
  moreover have "known s4 = known (settle rr True s3)" unfolding s4_def by (rule known_eq) (simp_all add: forget_request_def Let_def)
  ultimately have k4: "known s4 = known (settle rr True ?s0)" by simp
  have "accepted pl s4 = accepted pl (settle rr True ?s0)"
    using field_verdict_eq [of s4 "settle rr True ?s0"] f4(5, 6) k4
    by (simp add: accepted_def settle_def emit_def update_object_def fun_eq_iff)
  moreover have "elements (vp_env pl) s4 = Some es" using assms(9) f4(5, 6) by (simp add: elements_def drop_request_def)
  ultimately obtain s5 where s5: "form pl s4 = (s5, Returned True)" "vinv s5" "later s4 s5" "known s5 = known s4" "v_pendingRequest s5 = 0"
    using form_accepts [OF inv4 assms(2), of es] assms(10) f4(1) by auto
  have "elements (vp_env pl) s5 = Some es" "list_all (accepted pl s5) es"
    using elements_later [OF s5(3)] later_accepts [OF s5(3, 4)] \<open>elements (vp_env pl) s4 = Some es\<close> assms(10)
      \<open>accepted pl s4 = accepted pl (settle rr True ?s0)\<close> by simp_all
  then obtain s6 where s6: "form pl s5 = (s6, Returned True)" "later s5 s6" "v_pendingRequest s6 = 0"
    using form_accepts [OF s5(2) assms(2), of es] s5(5) by auto
  have flags: "v_formSubmitted s4" "\<not> v_cancelSubmit s5" using f4(2, 3) s5(3) by (simp_all add: later_def flags_def)
  then have "trigger_submit pl s5 = (emit Submitted s6, Returned True)"
    using s6 assms(8) by (simp add: trigger_submit_def submit_handler_def)
  then have "respond pl nm resp s = ((emit Submitted s6)\<lparr>v_formSubmitted := False\<rparr>, NoValue)"
    unfolding rsp stopRequest_def using s5(1) f4(1) flags(1) by (simp add: s4_def [symmetric] Let_def)
  moreover have "prefix (v_out s) (v_out s6)" using f4(4) s5(3) s6(2) by (auto simp: later_def intro: prefix_order.trans)
  ultimately show ?thesis by (auto simp: emit_def prefix_def)
qed

section \<open>Exceptions\<close>

text \<open>
  C13: an exception sends the form. If a method that is unknown, or that raises an exception, is met while a form is
  checked that the user submits, the form is sent, whatever the other fields hold.
\<close>

theorem exception_sends_form:
  assumes "reachable pl s" "quiet pl" "\<not> v_cancelSubmit s" "\<not> vo_debug (vp_options pl)"
    and "elements (vp_env pl) s = Some es" "Raise \<in> field_verdict pl s ` set es"
  shows "\<exists>out. v_out (user_submit pl s) = v_out s @ out @ [Submitted]"
proof -
  obtain s1 r1 where s1: "form pl s = (s1, r1)" by fastforce
  have "r1 = Thrown" "later s s1" using form_spec [OF s1 reachable_vinv [OF assms(1, 2)] assms(2)] assms(5, 6) by auto
  then have "user_submit pl s = emit Submitted s1" "prefix (v_out s) (v_out s1)"
    using s1 assms(3, 4) by (auto simp: user_submit_def submit_handler_def later_def)
  then show ?thesis by (auto simp: emit_def prefix_def)
qed

section \<open>A form\<close>

text \<open>A form with one field and one rule, with the settings as they are by default.\<close>

definition demo_plugin :: plugin where
  "demo_plugin = \<lparr>vp_env = plain_env, vp_custom = (\<lambda>_. None), vp_messages = [],
     vp_options = \<lparr>vo_focusInvalid = True, vo_focusCleanup = False, vo_ignoreTitle = False, vo_debug = False, vo_groups = []\<rparr>\<rparr>"

definition demo_form :: "string \<Rightarrow> param \<Rightarrow> jstr \<Rightarrow> validator" where
  "demo_form m p v = init_validator demo_plugin [text_field (js ''user'') v]
     \<lparr>rc_methods = [], rc_classRuleSettings = [], rc_rules = [(js ''user'', RuleMap [(js m, p)])], rc_autoCreateRanges = False\<rparr> []"

lemma demo_quiet: "quiet demo_plugin"
  by (simp add: quiet_def demo_plugin_def)

lemma demo_reachable: "reachable demo_plugin (demo_form m p v)"
  unfolding demo_form_def by (rule reachable.Init) (simp add: page_ok_def text_field_def proto_names_def js_def)

text \<open>The form after it was submitted with a value the server has to check, and after the server has accepted it.\<close>

definition demo_asked :: validator where
  "demo_asked = user_submit demo_plugin (demo_form ''remote'' (Plain (Str (js ''check''))) (js ''bob''))"

definition demo_answered :: validator where
  "demo_answered = fst (respond demo_plugin (js ''user'') (Bool True)
     (fst (element demo_plugin (text_field (js ''user'') (js ''bob'')) (demo_form ''remote'' (Plain (Str (js ''check''))) (js ''bob'')))))"

definition demo_facts :: "validator \<Rightarrow> jstr list \<times> bool \<times> bool \<times> nat option \<times> bool option" where
  "demo_facts s =
     (v_pending s, v_formSubmitted s, v_cancelSubmit s, map_option rr_object (map_of (v_requests s) (js ''user'')),
      map_option (list_all (accepted demo_plugin (settle (the (map_of (v_requests s) (js ''user''))) True (drop_request (js ''user'') s))))
        (elements plain_env s))"

lemma demo_asked_facts: "demo_facts demo_asked = ([js ''user''], True, False, Some 0, Some True)"
  by code_simp

lemma demo_rules:
  "rules_of plain_env (v_rules (demo_form ''required'' (Plain (Bool True)) x)) (text_field (js ''user'') y) = Some [(js ''required'', Plain (Bool True))]"
  "rules_of plain_env (v_rules (demo_form ''nosuch'' (Plain (Bool True)) x)) (text_field (js ''user'') y) = Some [(js ''nosuch'', Plain (Bool True))]"
  by (simp_all add: rules_of_def merged_rules_def extend_rules_def classRules_def attributeRules_def dataRules_def staticRules_def
      normalizeRule_def normalizeRules_def dependency_def update_rule_def auto_range_def required_first_def del_rule_def
      demo_form_def init_validator_def text_field_def js_truthy_def js_def Let_def)

lemma demo_elements:
  "elements plain_env (demo_form ''required'' (Plain (Bool True)) x) = Some [text_field (js ''user'') x]"
  "elements plain_env (demo_form ''nosuch'' (Plain (Bool True)) x) = Some [text_field (js ''user'') x]"
proof -
  have ok: "\<not> (fl_button f \<or> fl_disabled f \<or> fl_ignored f \<or> fl_node f \<notin> set (map js [''input'', ''select'', ''textarea''])) \<and> \<not> in_object (fl_name f) []"
    if "f = text_field (js ''user'') x" for f
    by (simp add: that text_field_def in_object_def proto_names_def js_def)
  have f: "v_fields (demo_form m p x) = [text_field (js ''user'') x]" for m p by (simp add: demo_form_def init_validator_def)
  show "elements plain_env (demo_form ''required'' (Plain (Bool True)) x) = Some [text_field (js ''user'') x]"
    using ok by (simp add: elements_def f demo_rules)
  show "elements plain_env (demo_form ''nosuch'' (Plain (Bool True)) x) = Some [text_field (js ''user'') x]"
    using ok by (simp add: elements_def f demo_rules)
qed

lemma demo_target: "validationTargetFor s (text_field n x) = Some (text_field n x)"
proof -
  have "\<not> checkable (text_field n x)" by (simp add: text_field_def checkable_def lower_def js_def lower_char_def js_contains_def)
  then show ?thesis by (simp add: validationTargetFor_def)
qed

lemma demo_methods:
  "local_answer demo_plugin fs (js ''required'') v e p = required plain_env fs v e p"
  "local_answer demo_plugin fs (js ''nosuch'') v e p = Raise"
  "\<not> is_remote demo_plugin (js ''required'')" "\<not> is_remote demo_plugin (js ''nosuch'')"
  by (simp_all add: local_answer_def demo_plugin_def builtins_def is_remote_def js_def)

lemma demo_verdicts:
  "field_verdict demo_plugin (demo_form ''required'' (Plain (Bool True)) []) (text_field (js ''user'') []) = Res False"
  "field_verdict demo_plugin (demo_form ''nosuch'' (Plain (Bool True)) x) (text_field (js ''user'') x) = Raise"
proof -
  have env: "vp_env demo_plugin = plain_env" by (simp add: demo_plugin_def)
  have "required plain_env fs (elementValue fs (text_field n [])) (text_field n []) (Bool True) = Res False" for fs n
    by (simp add: required_def elementValue_def text_field_def checkable_def lower_def js_def lower_char_def js_contains_def jq_trim_def
        js_String.simps js_trim_def)
  then show "field_verdict demo_plugin (demo_form ''required'' (Plain (Bool True)) []) (text_field (js ''user'') []) = Res False"
    by (simp add: field_verdict_def demo_target env demo_rules method_answer_def demo_methods)
  show "field_verdict demo_plugin (demo_form ''nosuch'' (Plain (Bool True)) x) (text_field (js ''user'') x) = Raise"
    by (simp add: field_verdict_def demo_target env demo_rules method_answer_def demo_methods)
qed

definition handler_facts :: "validator \<Rightarrow> bool \<times> outcome" where
  "handler_facts s = (v_cancelSubmit s, snd (submit_handler demo_plugin s))"

lemma demo_answered_facts: "handler_facts demo_answered = (False, Returned True)"
  by code_simp

lemma demo_states: "reachable demo_plugin demo_asked" "reachable demo_plugin demo_answered"
proof -
  show "reachable demo_plugin demo_asked" unfolding demo_asked_def by (rule reachable.Step [OF demo_reachable vstep.Submit])
  have "text_field (js ''user'') v \<in> set (v_fields (demo_form m p v))" for m p v by (simp add: demo_form_def init_validator_def)
  then show "reachable demo_plugin demo_answered"
    unfolding demo_answered_def by (intro reachable.Step [OF reachable.Step [OF demo_reachable vstep.Element] vstep.Respond])
qed

theorem pending_counted_witness:
  "v_pendingRequest demo_asked = int (length (v_pending demo_asked)) \<and> v_pending demo_asked = [js ''user'']"
  using pending_counted [OF demo_states(1) demo_quiet] demo_asked_facts by (simp add: demo_facts_def)

theorem form_reports_exactly_witness:
  "snd (form demo_plugin (demo_form ''required'' (Plain (Bool True)) [])) = Returned False"
proof -
  have "elements (vp_env demo_plugin) (demo_form ''required'' (Plain (Bool True)) []) = Some [text_field (js ''user'') []]"
    using demo_elements(1) [of "[]"] by (simp add: demo_plugin_def)
  from form_reports_exactly [OF demo_reachable demo_quiet this] demo_verdicts(1) show ?thesis by (simp add: findings_def)
qed

theorem sent_form_satisfies_rules_witness: "form_approved demo_plugin demo_answered"
proof (rule sent_form_satisfies_rules [OF demo_states(2) demo_quiet])
  show "submit_handler demo_plugin demo_answered = (fst (submit_handler demo_plugin demo_answered), Returned True)" "\<not> v_cancelSubmit demo_answered"
    using demo_answered_facts by (simp_all add: handler_facts_def prod_eq_iff)
qed

theorem pending_blocks_submit_witness:
  "snd (submit_handler demo_plugin (drop_request (js ''user'') demo_asked)) \<noteq> Returned True"
  by (rule pending_blocks_submit [OF demo_states(1) demo_quiet]) (use demo_asked_facts in \<open>simp_all add: demo_facts_def\<close>)

theorem waiting_form_sent_witness:
  "\<exists>s' out. respond demo_plugin (js ''user'') (Bool True) demo_asked = (s', NoValue) \<and> \<not> v_formSubmitted s' \<and> v_out s' = v_out demo_asked @ out @ [Submitted]"
proof -
  let ?rr = "the (map_of (v_requests demo_asked) (js ''user''))"
  have env: "vp_env demo_plugin = plain_env" "\<not> vo_debug (vp_options demo_plugin)" by (simp_all add: demo_plugin_def)
  have rr: "map_of (v_requests demo_asked) (js ''user'') = Some ?rr" using demo_asked_facts by (auto simp: demo_facts_def)
  obtain es where es: "elements (vp_env demo_plugin) demo_asked = Some es"
      "list_all (accepted demo_plugin (settle ?rr True (drop_request (js ''user'') demo_asked))) es"
    using demo_asked_facts by (auto simp: demo_facts_def env)
  show ?thesis
    by (rule waiting_form_sent [OF demo_states(1) demo_quiet rr _ _ _ _ env(2) es])
      (use demo_asked_facts in \<open>simp_all add: demo_facts_def accepts_response_def\<close>)
qed

theorem exception_sends_form_witness:
  "\<exists>out. v_out (user_submit demo_plugin (demo_form ''nosuch'' (Plain (Bool True)) [])) = out @ [Submitted]"
proof -
  let ?s = "demo_form ''nosuch'' (Plain (Bool True)) []"
  have "elements (vp_env demo_plugin) ?s = Some [text_field (js ''user'') []]" using demo_elements(2) [of "[]"] by (simp add: demo_plugin_def)
  moreover have "\<not> v_cancelSubmit ?s" "\<not> vo_debug (vp_options demo_plugin)" by (simp_all add: demo_form_def init_validator_def demo_plugin_def)
  ultimately show ?thesis
    using exception_sends_form [OF demo_reachable demo_quiet, of "''nosuch''" "Plain (Bool True)" "[]"] demo_verdicts(2) [of "[]"]
    by (metis append.assoc list.set_intros(1) rev_image_eqI)
qed

end
