(* ===== verification/Validate_Labels.thy ===== *)
theory Validate_Labels
  imports Validate_Machine
begin

text \<open>
  The labels of the validation plugin: after a form has been checked the visible labels are those of the elements with an error,
  with their messages, and at most those of elements whose request is pending besides.
\<close>

section \<open>Checking does not touch the labels\<close>

text \<open>A label may be taken out of \<open>toHide\<close> if it belongs to a name that is pending.\<close>

definition kept :: "validator \<Rightarrow> validator \<Rightarrow> bool" where
  "kept s s' =
     (v_labels s' = v_labels s \<and> v_groups s' = v_groups s \<and> v_fields s' = v_fields s \<and> v_toShow s' = v_toShow s \<and> set (v_pending s) \<subseteq> set (v_pending s')
      \<and> (\<forall>i \<in> set (v_toHide s). i \<in> set (v_toHide s') \<or> (\<exists>e \<in> set (v_fields s). fl_name e \<in> set (v_pending s') \<and> lb_for (v_labels s ! i) = idOrName s e)))"

lemma kept_refl: "kept s s"
  by (simp add: kept_def)

lemma idOrName_groups: "v_groups s' = v_groups s \<Longrightarrow> idOrName s' = idOrName s"
  by (simp add: idOrName_def fun_eq_iff)

lemma kept_trans: "kept s s' \<Longrightarrow> kept s' s'' \<Longrightarrow> kept s s''"
  using idOrName_groups [of s' s] unfolding kept_def by (auto; metis subsetD)

definition quiet_labels :: "validator \<Rightarrow> validator \<Rightarrow> bool" where
  "quiet_labels s s' =
     (v_labels s' = v_labels s \<and> v_groups s' = v_groups s \<and> v_fields s' = v_fields s \<and> v_toShow s' = v_toShow s \<and> v_toHide s' = v_toHide s \<and> set (v_pending s) \<subseteq> set (v_pending s'))"

lemma quiet_kept: "quiet_labels s s' \<Longrightarrow> kept s s'"
  by (simp add: quiet_labels_def kept_def)

lemma quiet_labels_trans: "quiet_labels s s' \<Longrightarrow> quiet_labels s' s'' \<Longrightarrow> quiet_labels s s''"
  by (auto simp: quiet_labels_def)

lemma quiet_parts:
  "quiet_labels s (fst (previousValue pl e s))" "quiet_labels s (ensure_messages n s)" "quiet_labels s (update_object k f s)"
  "quiet_labels s (set_remote_message n m s)" "quiet_labels s (startRequest e s)" "quiet_labels s (formatAndAdd pl e n ps s)"
  by (auto simp: quiet_labels_def previousValue_def ensure_messages_def update_object_def set_remote_message_def startRequest_def formatAndAdd_def Let_def
      split: option.splits custom.splits)

lemma quiet_remote:
  assumes "remote pl v e s = (s', a)" "fl_name e \<notin> set proto_names"
  shows "quiet_labels s s' \<and> (a = Pending \<longrightarrow> fl_name e \<in> set (v_pending s'))"
proof (cases "optional (vp_env pl) (v_fields s) e")
  case True
  then show ?thesis using assms by (simp add: remote_def quiet_labels_def)
next
  case False
  obtain s1 k where s1: "previousValue pl e s = (s1, k)" by fastforce
  define s2 where "s2 = ensure_messages (fl_name e) s1"
  define s3 where "s3 = update_object k (\<lambda>p. p\<lparr>pv_original := remote_message (fl_name e) s2\<rparr>) s2"
  define s4 where "s4 = set_remote_message (fl_name e) (Some (pv_message (v_objects s3 ! k))) s3"
  define s5 where "s5 = startRequest e (update_object k (\<lambda>p. p\<lparr>pv_old := v\<rparr>) s4)"
  have "quiet_labels s s1" using quiet_parts(1) [of s pl e] s1 by simp
  then have q4: "quiet_labels s s4"
    unfolding s4_def s3_def s2_def by (intro quiet_labels_trans [OF _ quiet_parts(4)] quiet_labels_trans [OF _ quiet_parts(3)] quiet_labels_trans [OF _ quiet_parts(2)])
  then have q5: "quiet_labels s s5"
    unfolding s5_def by (intro quiet_labels_trans [OF _ quiet_parts(5)] quiet_labels_trans [OF _ quiet_parts(3)])
  have "fl_name e \<in> set (v_pending s5)" using assms(2) by (auto simp: s5_def startRequest_def in_object_def)
  moreover have "remote pl v e s = (if js_same (pv_old (v_objects s4 ! k)) v then (s4, Res (pv_valid (v_objects s4 ! k)))
      else (s5\<lparr>v_requests := put_entry (fl_name e) \<lparr>rr_field = e, rr_value = v, rr_object = k\<rparr> (v_requests s5)\<rparr>, Pending))"
    using False s1 by (simp add: remote_def Let_def s2_def s3_def s4_def s5_def)
  ultimately show ?thesis using assms(1) q4 q5 by (auto simp: quiet_labels_def split: if_splits)
qed

lemma quiet_call:
  assumes "call_method pl m v e p s = (s', a)" "fl_name e \<notin> set proto_names" "quiet pl"
  shows "quiet_labels s s' \<and> (a = Pending \<longrightarrow> fl_name e \<in> set (v_pending s'))"
proof (cases "is_remote pl m")
  case True
  then show ?thesis using assms quiet_remote by (simp add: call_method_def)
next
  case False
  then show ?thesis using assms(1) local_not_pending [OF assms(3)] by (auto simp: call_method_def quiet_labels_def emit_def)
qed

lemma kept_check_rules:
  "check_rules pl v e rs mm s = (s', r) \<Longrightarrow> fl_name e \<notin> set proto_names \<Longrightarrow> quiet pl \<Longrightarrow> e \<in> set (v_fields s) \<Longrightarrow> kept s s'"
proof (induction pl v e rs mm s rule: check_rules.induct)
  case (1 pl v e mm s)
  then show ?case by (auto simp: kept_refl split: if_splits)
next
  case (2 pl v e m p rs mm s)
  obtain s1 a where c: "call_method pl m v e (param_value p) s = (s1, a)" by fastforce
  have q: "quiet_labels s s1" "a = Pending \<Longrightarrow> fl_name e \<in> set (v_pending s1)" using quiet_call [OF c] "2.prems" by simp_all
  have k: "kept s s1" by (rule quiet_kept [OF q(1)])
  have e: "e \<in> set (v_fields s1)" using q(1) "2.prems"(4) by (simp add: quiet_labels_def)
  show ?case
  proof (cases a)
    case Mismatch
    then show ?thesis using "2.IH"(1) [OF c [symmetric]] "2.prems" e c kept_trans [OF k] by simp
  next
    case Pending
    then have "s' = s1\<lparr>v_toHide := filter (\<lambda>i. i \<notin> set (errorsFor s1 e)) (v_toHide s1)\<rparr>" using "2.prems"(1) c by simp
    then have "kept s1 s'" using q(2) [OF Pending] e by (auto simp: kept_def errorsFor_def)
    then show ?thesis by (rule kept_trans [OF k])
  next
    case (Res b)
    show ?thesis
    proof (cases b)
      case True
      then show ?thesis using "2.IH"(2) [OF c [symmetric] Res] "2.prems" e c Res kept_trans [OF k] by simp
    next
      case False
      then have "s' = formatAndAdd pl e m (param_value p) s1" using "2.prems"(1) c Res by simp
      then show ?thesis using kept_trans [OF k quiet_kept [OF quiet_parts(6)]] by simp
    qed
  next
    case Raise
    then show ?thesis using "2.prems"(1) c k by simp
  qed
qed

lemma kept_check:
  assumes "check pl e s = (s', r)" "quiet pl" "page_ok (v_fields s)" "e \<in> set (v_fields s)"
  shows "kept s s'"
proof -
  have "kept s s'" if "validationTargetFor s e = Some t" "rules_of (vp_env pl) (v_rules s) t = Some rs" for t rs
  proof -
    obtain s1 r1 where c: "check_rules pl (elementValue (v_fields s) t) t rs False s = (s1, r1)" by fastforce
    have "kept s1 s'" using assms(1) that c by (auto simp: check_def kept_def split: outcome.splits bool.splits if_splits)
    moreover have "fl_name t \<notin> set proto_names" using assms(3, 4) target_name [OF that(1)] by (auto simp: page_ok_def list_all_iff)
    ultimately show ?thesis using kept_check_rules [OF c _ assms(2) target_on_page [OF that(1) assms(4)]] kept_trans by blast
  qed
  then show ?thesis using assms(1) kept_refl by (auto simp: check_def split: option.splits)
qed
lemma kept_check_all:
  "check_all pl es s = (s', r) \<Longrightarrow> vinv s \<Longrightarrow> set es \<subseteq> set (v_fields s) \<Longrightarrow> quiet pl \<Longrightarrow> kept s s'"
proof (induction es arbitrary: s)
  case Nil
  then show ?case by (simp add: kept_refl)
next
  case (Cons e es)
  obtain s1 r1 where s1: "check pl e s = (s1, r1)" by fastforce
  have e: "e \<in> set (v_fields s)" using Cons.prems(3) by simp
  have v1: "vinv s1" "v_fields s1 = v_fields s" using check_spec [OF s1 Cons.prems(2) e Cons.prems(4)] by (simp_all add: effect_def later_def)
  have k: "kept s s1" using kept_check [OF s1 Cons.prems(4) _ e] Cons.prems(2) by (simp add: vinv_def)
  have "kept s1 s'"
  proof (cases "r1 = Thrown")
    case True
    then show ?thesis using Cons.prems(1) s1 by (simp add: kept_refl)
  next
    case False
    then have "check_all pl es s1 = (s', r)" using Cons.prems(1) s1 by (cases r1) auto
    then show ?thesis using Cons.IH [OF _ v1(1) _ Cons.prems(4)] Cons.prems(3) v1(2) by simp
  qed
  then show ?case by (rule kept_trans [OF k])
qed

section \<open>Showing errors\<close>

text \<open>The messages by the names of labels, and the labels after those of the errors have been shown.\<close>

definition messages_by :: "validator \<Rightarrow> (jstr \<times> field) list \<Rightarrow> (jstr \<times> jstr) set" where
  "messages_by s errs = (\<lambda>(m, e). (idOrName s e, m)) ` set errs"

definition labelled :: "validator \<Rightarrow> (jstr \<times> jstr) set \<Rightarrow> validator \<Rightarrow> bool" where
  "labelled s M s' =
     (v_groups s' = v_groups s \<and> v_toHide s' = v_toHide s
      \<and> (\<exists>ext. map lb_for (v_labels s') = map lb_for (v_labels s) @ ext \<and> set ext \<subseteq> fst ` M)
      \<and> fst ` M \<subseteq> lb_for ` set (v_labels s')
      \<and> set (v_toShow s') = {i. i < length (v_labels s') \<and> lb_for (v_labels s' ! i) \<in> fst ` M}
      \<and> (\<forall>i < length (v_labels s). lb_shown (v_labels s' ! i) = lb_shown (v_labels s ! i))
      \<and> (\<forall>l \<in> set (v_labels s'). lb_for l \<in> fst ` M \<longrightarrow> (lb_for l, lb_text l) \<in> M))"

lemma length_set_labels [simp]: "length (set_labels f is ls) = length ls"
  by (simp add: set_labels_def)

lemma nth_set_labels [simp]: "i < length ls \<Longrightarrow> set_labels f is ls ! i = (if i \<in> set is then f (ls ! i) else ls ! i)"
  by (simp add: set_labels_def)

lemma map_set_labels: "(\<And>l. g (f l) = g l) \<Longrightarrow> map g (set_labels f is ls) = map g ls"
  by (rule nth_equalityI) auto

lemma labelled_start: "v_toShow s = [] \<Longrightarrow> labelled s {} s"
  by (simp add: labelled_def)

lemma errorsFor_set: "set (errorsFor s e) = {i. i < length (v_labels s) \<and> lb_for (v_labels s ! i) = idOrName s e}"
  by (auto simp: errorsFor_def)

lemma labelledI:
  assumes "v_groups s' = v_groups s" "v_toHide s' = v_toHide s" "map lb_for (v_labels s') = map lb_for (v_labels s) @ ext" "set ext \<subseteq> fst ` M"
    "fst ` M \<subseteq> lb_for ` set (v_labels s')"
    "set (v_toShow s') = {i. i < length (v_labels s') \<and> lb_for (v_labels s' ! i) \<in> fst ` M}"
    "\<And>i. i < length (v_labels s) \<Longrightarrow> lb_shown (v_labels s' ! i) = lb_shown (v_labels s ! i)"
    "\<And>l. l \<in> set (v_labels s') \<Longrightarrow> lb_for l \<in> fst ` M \<Longrightarrow> (lb_for l, lb_text l) \<in> M"
  shows "labelled s M s'"
  unfolding labelled_def using assms by (intro conjI exI [of _ ext] ballI allI impI) blast+

lemma labelledD:
  assumes "labelled s M s'"
  shows "v_groups s' = v_groups s" "v_toHide s' = v_toHide s"
    "\<exists>ext. map lb_for (v_labels s') = map lb_for (v_labels s) @ ext \<and> set ext \<subseteq> fst ` M"
    "fst ` M \<subseteq> lb_for ` set (v_labels s')"
    "set (v_toShow s') = {i. i < length (v_labels s') \<and> lb_for (v_labels s' ! i) \<in> fst ` M}"
    "i < length (v_labels s) \<Longrightarrow> lb_shown (v_labels s' ! i) = lb_shown (v_labels s ! i)"
    "l \<in> set (v_labels s') \<Longrightarrow> lb_for l \<in> fst ` M \<Longrightarrow> (lb_for l, lb_text l) \<in> M"
  using assms unfolding labelled_def by blast+

lemma labelled_marks: "labelled s M (s'\<lparr>v_marks := ms\<rparr>) = labelled s M s'"
  by (simp add: labelled_def)

lemma labelled_length: "labelled s M s' \<Longrightarrow> length (v_labels s) \<le> length (v_labels s')"
  using labelledD(3) by (metis length_append length_map le_add1)

lemma labelled_old:
  assumes l: "labelled s M s'" and e: "errorsFor s' e \<noteq> []"
  shows "labelled s (insert (idOrName s e, m) M) (showLabel e m s')"
proof -
  let ?n = "idOrName s e" and ?is = "errorsFor s' e"
  let ?L = "set_labels (\<lambda>l. l\<lparr>lb_text := m\<rparr>) ?is (v_labels s')"
  have idx: "set ?is = {i. i < length (v_labels s') \<and> lb_for (v_labels s' ! i) = ?n}"
    using errorsFor_set [of s' e] idOrName_groups [OF labelledD(1) [OF l]] by simp
  have sl: "showLabel e m s' = s'\<lparr>v_labels := ?L, v_toShow := v_toShow s' @ ?is\<rparr>" using e by (simp add: showLabel_def Let_def)
  have fors: "map lb_for ?L = map lb_for (v_labels s')" by (simp add: map_set_labels)
  then have fors_set: "lb_for ` set ?L = lb_for ` set (v_labels s')" by (metis set_map)
  have nth: "lb_for (?L ! i) = lb_for (v_labels s' ! i)" "lb_shown (?L ! i) = lb_shown (v_labels s' ! i)" if "i < length (v_labels s')" for i
    using that by simp_all
  obtain ext where ext: "map lb_for (v_labels s') = map lb_for (v_labels s) @ ext" "set ext \<subseteq> fst ` M" using labelledD(3) [OF l] by blast
  have texts: "(lb_for x, lb_text x) \<in> insert (?n, m) M" if x: "x \<in> set ?L" "lb_for x \<in> insert ?n (fst ` M)" for x
  proof -
    obtain i where i: "i < length (v_labels s')" "x = ?L ! i" using x(1) by (metis in_set_conv_nth length_set_labels)
    show ?thesis
    proof (cases "i \<in> set ?is")
      case False
      then have "x = v_labels s' ! i" "lb_for x \<noteq> ?n" using i idx by simp_all
      then show ?thesis using x(2) i(1) labelledD(7) [OF l, of x] by simp
    qed (use i idx in simp)
  qed
  have "?is \<noteq> [] \<Longrightarrow> hd ?is \<in> set ?is" by simp
  then have n: "?n \<in> lb_for ` set (v_labels s')" using e idx by (metis (mono_tags, lifting) image_eqI mem_Collect_eq nth_mem)
  show ?thesis unfolding sl
  proof (rule labelledI [of _ _ ext])
    show "set (v_toShow (s'\<lparr>v_labels := ?L, v_toShow := v_toShow s' @ ?is\<rparr>)) = {i. i < length (v_labels (s'\<lparr>v_labels := ?L, v_toShow := v_toShow s' @ ?is\<rparr>))
        \<and> lb_for (v_labels (s'\<lparr>v_labels := ?L, v_toShow := v_toShow s' @ ?is\<rparr>) ! i) \<in> fst ` insert (?n, m) M}"
      using labelledD(5) [OF l] idx nth(1) by (simp cong: conj_cong) blast
  next
    fix i assume "i < length (v_labels s)"
    then show "lb_shown (v_labels (s'\<lparr>v_labels := ?L, v_toShow := v_toShow s' @ ?is\<rparr>) ! i) = lb_shown (v_labels s ! i)"
      using labelledD(6) [OF l] nth(2) labelled_length [OF l] by simp
  qed (use labelledD(1, 2, 4) [OF l] ext fors fors_set n texts in auto)
qed

lemma labelled_new:
  assumes l: "labelled s M s'" and e: "errorsFor s' e = []"
  shows "labelled s (insert (idOrName s e, m) M) (showLabel e m s')"
proof -
  let ?n = "idOrName s e" and ?l = "\<lparr>lb_for = idOrName s e, lb_text = m, lb_shown = True\<rparr>"
  have g: "idOrName s' = idOrName s" using labelledD(1) [OF l] by (rule idOrName_groups)
  have sl: "showLabel e m s' = s'\<lparr>v_labels := v_labels s' @ [?l], v_toShow := v_toShow s' @ [length (v_labels s')]\<rparr>" (is "_ = ?s")
    using e g by (simp add: showLabel_def)
  have "{i. i < length (v_labels s') \<and> lb_for (v_labels s' ! i) = ?n} = {}" using e errorsFor_set [of s' e] g by simp
  then have new: "?n \<noteq> lb_for x" if "x \<in> set (v_labels s')" for x using that by (metis (mono_tags, lifting) empty_Collect_eq in_set_conv_nth)
  obtain ext where ext: "map lb_for (v_labels s') = map lb_for (v_labels s) @ ext" "set ext \<subseteq> fst ` M" using labelledD(3) [OF l] by blast
  show ?thesis unfolding sl
  proof (rule labelledI [of _ _ "ext @ [?n]"])
    show "set (v_toShow ?s) = {i. i < length (v_labels ?s) \<and> lb_for (v_labels ?s ! i) \<in> fst ` insert (?n, m) M}"
      using labelledD(5) [OF l] new [OF nth_mem] by (force simp: nth_append less_Suc_eq)
  next
    fix i assume "i < length (v_labels s)"
    then show "lb_shown (v_labels ?s ! i) = lb_shown (v_labels s ! i)"
      using labelledD(6) [OF l] labelled_length [OF l] by (simp add: nth_append)
  next
    fix x assume "x \<in> set (v_labels ?s)" "lb_for x \<in> fst ` insert (?n, m) M"
    then show "(lb_for x, lb_text x) \<in> insert (?n, m) M" using labelledD(7) [OF l, of x] new [of x] by auto
  qed (use labelledD(1, 2, 4) [OF l] ext in auto)
qed

lemma labelled_show: "labelled s M s' \<Longrightarrow> labelled s (insert (idOrName s e, m) M) (showLabel e m (highlight e s'))"
proof -
  assume "labelled s M s'"
  then have "labelled s M (highlight e s')" by (simp add: labelled_marks highlight_def)
  then show ?thesis using labelled_old labelled_new by blast
qed

lemma labelled_fold:
  "labelled s M s' \<Longrightarrow> labelled s (messages_by s errs \<union> M) (fold (\<lambda>(m, e) s. showLabel e m (highlight e s)) errs s')"
proof (induction errs arbitrary: s' M)
  case Nil
  then show ?case by (simp add: messages_by_def)
next
  case (Cons x errs)
  obtain m e where x: "x = (m, e)" by fastforce
  have "messages_by s (x # errs) \<union> M = messages_by s errs \<union> insert (idOrName s e, m) M" by (auto simp: messages_by_def x)
  then show ?case using Cons.IH [OF labelled_show [OF Cons.prems]] x by simp
qed

lemma labelled_unhighlight: "labelled s M s' \<Longrightarrow> labelled s M (fold unhighlight es s')"
  by (induction es arbitrary: s') (simp_all add: labelled_marks unhighlight_def)

text \<open>
  After \<open>defaultShowErrors\<close> each label of a message is shown with it, every message has one, and another label is shown only
  if it was before and was not to be hidden.
\<close>

lemma shown_labels:
  assumes "v_toShow s = []"
  defines "s' \<equiv> defaultShowErrors s" and "M \<equiv> messages_by s (v_errorList s)"
  shows "fst ` M \<subseteq> lb_for ` set (v_labels s')"
    and "l \<in> set (v_labels s') \<Longrightarrow> lb_for l \<in> fst ` M \<Longrightarrow> lb_shown l \<and> (lb_for l, lb_text l) \<in> M"
    and "l \<in> set (v_labels s') \<Longrightarrow> lb_shown l \<Longrightarrow> lb_for l \<notin> fst ` M \<Longrightarrow>
      \<exists>i < length (v_labels s). lb_for l = lb_for (v_labels s ! i) \<and> i \<notin> set (v_toHide s)"
proof -
  define s1 where "s1 = fold unhighlight (validElements (fold (\<lambda>(m, e) s. showLabel e m (highlight e s)) (v_errorList s) s))
    (fold (\<lambda>(m, e) s. showLabel e m (highlight e s)) (v_errorList s) s)"
  have l1: "labelled s M s1" unfolding s1_def M_def using labelled_unhighlight [OF labelled_fold [OF labelled_start [OF assms(1)]]] by simp
  let ?hide = "filter (\<lambda>i. i \<notin> set (v_toShow s1)) (v_toHide s1)"
  let ?L = "set_labels (\<lambda>l. l\<lparr>lb_shown := True\<rparr>) (v_toShow s1) (set_labels (\<lambda>l. l\<lparr>lb_shown := False\<rparr>) ?hide (v_labels s1))"
  have L: "v_labels s' = ?L" unfolding s'_def defaultShowErrors_def Let_def s1_def by (simp add: hideErrors_def)
  have fors: "map lb_for ?L = map lb_for (v_labels s1)" by (simp add: map_set_labels)
  have "lb_for ` set ?L = lb_for ` set (v_labels s1)" using arg_cong [OF fors, of set] by (simp only: set_map)
  then show "fst ` M \<subseteq> lb_for ` set (v_labels s')" using labelledD(4) [OF l1] L by simp
  have nth: "lb_for (?L ! i) = lb_for (v_labels s1 ! i)" "lb_text (?L ! i) = lb_text (v_labels s1 ! i)"
    "lb_shown (?L ! i) = (i \<in> set (v_toShow s1) \<or> i \<notin> set (v_toHide s1) \<and> lb_shown (v_labels s1 ! i))" if "i < length (v_labels s1)" for i
    using that by auto
  assume "l \<in> set (v_labels s')"
  then obtain i where i: "i < length (v_labels s1)" "l = ?L ! i" unfolding L by (metis in_set_conv_nth length_set_labels)
  { assume "lb_for l \<in> fst ` M"
    then show "lb_shown l \<and> (lb_for l, lb_text l) \<in> M" using nth [OF i(1)] i labelledD(5) [OF l1] labelledD(7) [OF l1, of "v_labels s1 ! i"] by simp }
  { assume shown: "lb_shown l" "lb_for l \<notin> fst ` M"
    obtain ext where ext: "map lb_for (v_labels s1) = map lb_for (v_labels s) @ ext" "set ext \<subseteq> fst ` M" using labelledD(3) [OF l1] by blast
    have "i < length (v_labels s)"
    proof (rule ccontr)
      assume "\<not> i < length (v_labels s)"
      then have "lb_for (v_labels s1 ! i) \<in> set ext"
      proof -
        have "map lb_for (v_labels s1) ! i = ext ! (i - length (v_labels s))" using \<open>\<not> i < length (v_labels s)\<close> by (simp add: ext(1) nth_append)
        moreover have "length (v_labels s1) = length (v_labels s) + length ext" using arg_cong [OF ext(1), of length] by simp
        ultimately show ?thesis using i(1) \<open>\<not> i < length (v_labels s)\<close> by simp
      qed
      then show False using ext(2) shown(2) nth(1) [OF i(1)] i(2) by auto
    qed
    moreover have "lb_for (v_labels s1 ! i) = lb_for (v_labels s ! i)"
      using arg_cong [OF ext(1), of "\<lambda>xs. xs ! i"] calculation i(1) by (simp add: nth_append)
    moreover have "i \<notin> set (v_toHide s)" using shown nth [OF i(1)] i labelledD(2, 5) [OF l1] by simp
    ultimately show "\<exists>i < length (v_labels s). lb_for l = lb_for (v_labels s ! i) \<and> i \<notin> set (v_toHide s)" using nth(1) [OF i(1)] i(2) by auto }
qed
section \<open>After a form has been checked\<close>

lemma form_state:
  assumes "form pl s = (s', r)" "r \<noteq> Thrown" "vinv s" "quiet pl" "elements (vp_env pl) s = Some es"
  obtains s2 where "s' = defaultShowErrors s2" "v_toShow s2 = []" "idOrName s2 = idOrName s" "v_labels s2 = v_labels s"
    "\<And>i. i < length (v_labels s) \<Longrightarrow> i \<notin> set (v_toHide s2) \<Longrightarrow> \<exists>e \<in> set (v_fields s). fl_name e \<in> set (v_pending s') \<and> lb_for (v_labels s ! i) = idOrName s e"
proof -
  let ?s0 = "(prepareForm s)\<lparr>v_currentElements := es\<rparr>"
  have sc: "same_core s ?s0" using same_core_prepare [of s] by (simp add: same_core_defs)
  have el: "elements (vp_env pl) (prepareForm s) = Some es" using assms(5) elements_later [OF later_frame, of s "prepareForm s"] same_core_prepare by metis
  obtain s1 r1 where s1: "check_all pl es ?s0 = (s1, r1)" by fastforce
  have "set es \<subseteq> set (v_fields ?s0)" using assms(5) elements_names sc by (auto simp: elements_def same_core_defs)
  then have k: "kept ?s0 s1" using kept_check_all [OF s1 vinv_frame [OF sc assms(3)] _ assms(4)] by blast
  let ?s2 = "s1\<lparr>v_submitted := fold (\<lambda>(n, m). put_entry n m) (v_errorMap s1) (v_submitted s1), v_invalid := map fst (v_errorMap s1)\<rparr>"
  let ?s3 = "if valid ?s2 then ?s2 else emit InvalidForm ?s2"
  have "form pl s = (defaultShowErrors ?s3, Returned (valid (defaultShowErrors ?s3)))"
    using assms(1, 2) el s1 by (cases r1) (auto simp: form_def checkForm_def showErrors_def Let_def)
  then have s': "s' = defaultShowErrors ?s3" using assms(1) by simp
  have pend: "v_pending s' = v_pending s1" using same_core_showErrors [of ?s3] unfolding s' by (simp add: same_core_defs emit_def)
  have groups: "v_groups ?s3 = v_groups s" using k by (simp add: kept_def emit_def prepareForm_def reset_def)
  show ?thesis
  proof (rule that [OF s'])
    show "v_toShow ?s3 = []" "v_labels ?s3 = v_labels s" using k by (simp_all add: kept_def emit_def prepareForm_def reset_def)
    show "idOrName ?s3 = idOrName s" by (rule idOrName_groups [OF groups])
    fix i assume i: "i < length (v_labels s)" "i \<notin> set (v_toHide ?s3)"
    have "idOrName ?s0 = idOrName s" by (rule idOrName_groups) (simp add: prepareForm_def reset_def)
    moreover have "i \<in> set (v_toHide ?s0)" "i \<notin> set (v_toHide s1)" "v_labels ?s0 = v_labels s" "v_fields ?s0 = v_fields s"
      using i by (simp_all add: prepareForm_def reset_def emit_def split: if_splits)
    ultimately show "\<exists>e \<in> set (v_fields s). fl_name e \<in> set (v_pending s') \<and> lb_for (v_labels s ! i) = idOrName s e"
      using k unfolding kept_def pend by (metis (no_types, lifting))
  qed
qed

text \<open>
  C10: the labels tell the truth. After a form has been checked every element with an error has a label, and all labels of it are
  shown with the message of an error of that label; any other label that is shown belongs to an element whose request is pending.
\<close>

theorem labels_exact:
  assumes "reachable pl s" "quiet pl" "elements (vp_env pl) s = Some es" "Raise \<notin> field_verdict pl s ` set es"
  defines "s' \<equiv> fst (form pl s)"
  shows "(\<forall>e \<in> set (findings pl s es). \<exists>l \<in> set (v_labels s'). lb_for l = idOrName s e)
    \<and> (\<forall>l \<in> set (v_labels s'). lb_for l \<in> idOrName s ` set (findings pl s es) \<longrightarrow>
         lb_shown l \<and> (\<exists>(m, e) \<in> set (v_errorList s'). lb_for l = idOrName s e \<and> lb_text l = m))
    \<and> (\<forall>l \<in> set (v_labels s'). lb_shown l \<longrightarrow> lb_for l \<in> idOrName s ` set (findings pl s es)
         \<or> (\<exists>e \<in> set (v_fields s). fl_name e \<in> set (v_pending s') \<and> lb_for l = idOrName s e))"
proof -
  have v: "vinv s" by (rule reachable_vinv [OF assms(1, 2)])
  obtain r where f: "form pl s = (s', r)" unfolding s'_def by (metis surjective_pairing)
  have spec: "map snd (v_errorList s') = findings pl s es" "r \<noteq> Thrown" using form_spec [OF f v assms(2)] assms(3, 4) by simp_all
  obtain s2 where s2: "s' = defaultShowErrors s2" "v_toShow s2 = []" "idOrName s2 = idOrName s" "v_labels s2 = v_labels s"
      "\<And>i. i < length (v_labels s) \<Longrightarrow> i \<notin> set (v_toHide s2) \<Longrightarrow> \<exists>e \<in> set (v_fields s). fl_name e \<in> set (v_pending s') \<and> lb_for (v_labels s ! i) = idOrName s e"
    using form_state [OF f spec(2) v assms(2, 3)] by metis
  let ?M = "messages_by s2 (v_errorList s2)"
  have errs: "v_errorList s' = v_errorList s2" by (simp add: s2(1) errors_show)
  have "fst ` ?M = idOrName s ` snd ` set (v_errorList s')" unfolding errs by (force simp: messages_by_def s2(3))
  then have names: "fst ` ?M = idOrName s ` set (findings pl s es)" using spec(1) by (metis set_map)
  note shown = shown_labels [OF s2(2), folded s2(1), unfolded names]
  have msg: "\<exists>(m, e) \<in> set (v_errorList s'). lb_for l = idOrName s e \<and> lb_text l = m" if "(lb_for l, lb_text l) \<in> ?M" for l
    using that unfolding errs by (auto simp: messages_by_def s2(3))
  show ?thesis
  proof (intro conjI ballI impI)
    fix e assume "e \<in> set (findings pl s es)"
    then have "idOrName s e \<in> lb_for ` set (v_labels s')" using shown(1) by blast
    then show "\<exists>l \<in> set (v_labels s'). lb_for l = idOrName s e" by force
  next
    fix l assume l: "l \<in> set (v_labels s')" "lb_for l \<in> idOrName s ` set (findings pl s es)"
    show "lb_shown l" by (rule conjunct1 [OF shown(2) [OF l]])
    show "\<exists>(m, e) \<in> set (v_errorList s'). lb_for l = idOrName s e \<and> lb_text l = m" by (rule msg [OF conjunct2 [OF shown(2) [OF l]]])
  next
    fix l assume l: "l \<in> set (v_labels s')" "lb_shown l"
    show "lb_for l \<in> idOrName s ` set (findings pl s es) \<or> (\<exists>e \<in> set (v_fields s). fl_name e \<in> set (v_pending s') \<and> lb_for l = idOrName s e)"
    proof (cases "lb_for l \<in> idOrName s ` set (findings pl s es)")
      case False
      from shown(3) [OF l this] obtain i where "i < length (v_labels s)" "lb_for l = lb_for (v_labels s ! i)" "i \<notin> set (v_toHide s2)"
        using s2(4) by auto
      then show ?thesis using s2(5) by simp
    qed simp
  qed
qed
theorem labels_exact_witness:
  "list_ex (\<lambda>l. lb_for l = idOrName (demo_form ''required'' (Plain (Bool True)) []) (text_field (js ''user'') []) \<and> lb_shown l)
    (v_labels (fst (form demo_plugin (demo_form ''required'' (Plain (Bool True)) []))))"
proof -
  have "elements (vp_env demo_plugin) (demo_form ''required'' (Plain (Bool True)) []) = Some [text_field (js ''user'') []]"
    using demo_elements(1) [of "[]"] by (simp add: demo_plugin_def)
  from labels_exact [OF demo_reachable demo_quiet this] demo_verdicts(1) show ?thesis by (auto simp: findings_def demo_target target_def list_ex_iff)
qed

end
