(* ===== verification/Highlight.thy ===== *)
theory Highlight
  imports Js_Prelude "HOL-Library.Monad_Syntax"
begin

text \<open>
  \<open>src/html/resource/js/jquery.highlight-3.js\<close>: marking the occurrences of a text in a part of the document and
  removing the marks. A document is a tree of elements and texts;
  comments and other nodes are opaque. \<open>toUpperCase\<close> is a parameter: its tables are those of Unicode.
\<close>

section \<open>Documents\<close>

datatype node =
    Txt jstr
  | Elem jstr "jstr list" "node list"
  | Opaque jstr

datatype outcome = Raised | Done "node list"

definition is_mark :: "node \<Rightarrow> bool" where
  "is_mark n = (case n of Elem tag cls _ \<Rightarrow> tag = js ''span'' \<and> js ''highlight'' \<in> set cls | _ \<Rightarrow> False)"

definition mark_span :: "jstr \<Rightarrow> node" where
  "mark_span s = Elem (js ''span'') [js ''highlight''] [Txt s]"

text \<open>\<open>!/(script|style)/i.test(node.tagName)\<close>; names of tags are in lower case here.\<close>

definition searched :: "jstr \<Rightarrow> bool" where
  "searched tag = (\<not> js_contains (js ''script'') tag \<and> \<not> js_contains (js ''style'') tag)"

section \<open>Highlighting\<close>

text \<open>\<open>node.splitText(pos)\<close> raises an exception behind the end of the text.\<close>

definition splitText :: "nat \<Rightarrow> jstr \<Rightarrow> (jstr \<times> jstr) option" where
  "splitText pos s = (if pos \<le> length s then Some (take pos s, drop pos s) else None)"

definition split_match :: "nat \<Rightarrow> nat \<Rightarrow> jstr \<Rightarrow> (jstr \<times> jstr \<times> jstr) option" where
  "split_match pos len s = do { (before, rest) \<leftarrow> splitText pos s; (middlebit, endbit) \<leftarrow> splitText len rest; Some (before, middlebit, endbit) }"

definition prepend :: "node list \<Rightarrow> outcome \<Rightarrow> outcome" where
  "prepend ns r = (case r of Raised \<Rightarrow> Raised | Done ms \<Rightarrow> Done (ns @ ms))"

text \<open>
  \<open>innerHighlight\<close> on the nodes from position \<open>i\<close> of the loop on. After a match the loop goes on with the text behind
  it. The value is \<open>None\<close> if the loop does not end.
\<close>

partial_function (option) innerHighlight :: "(jstr \<Rightarrow> jstr) \<Rightarrow> jstr \<Rightarrow> node list \<Rightarrow> outcome option" where
  "innerHighlight up pat ns =
     (case ns of
        [] \<Rightarrow> Some (Done [])
      | Txt s # rest \<Rightarrow>
          (case index_of pat (up s) of
             None \<Rightarrow> do { r \<leftarrow> innerHighlight up pat rest; Some (prepend [Txt s] r) }
           | Some pos \<Rightarrow>
               (case split_match pos (length pat) s of
                  None \<Rightarrow> Some Raised
                | Some (before, middlebit, endbit) \<Rightarrow>
                    do { r \<leftarrow> innerHighlight up pat (Txt endbit # rest); Some (prepend [Txt before, mark_span middlebit] r) }))
      | Elem tag cls children # rest \<Rightarrow>
          if searched tag then
            do {
              c \<leftarrow> innerHighlight up pat children;
              (case c of
                 Raised \<Rightarrow> Some Raised
               | Done cs \<Rightarrow> do { r \<leftarrow> innerHighlight up pat rest; Some (prepend [Elem tag cls cs] r) })
            }
          else do { r \<leftarrow> innerHighlight up pat rest; Some (prepend [Elem tag cls children] r) }
      | Opaque t # rest \<Rightarrow> do { r \<leftarrow> innerHighlight up pat rest; Some (prepend [Opaque t] r) })"

declare innerHighlight.simps [code]

text \<open>jQuery calls it for each selected node. For a text it is one call, without the loop of a parent.\<close>

definition highlight :: "(jstr \<Rightarrow> jstr) \<Rightarrow> jstr \<Rightarrow> node \<Rightarrow> outcome option" where
  "highlight up pat n =
     (case n of
        Txt s \<Rightarrow>
          (case index_of (up pat) (up s) of
             None \<Rightarrow> Some (Done [Txt s])
           | Some pos \<Rightarrow>
               (case split_match pos (length (up pat)) s of
                  None \<Rightarrow> Some Raised
                | Some (before, middlebit, endbit) \<Rightarrow> Some (Done [Txt before, mark_span middlebit, Txt endbit])))
      | _ \<Rightarrow> innerHighlight up (up pat) [n])"

section \<open>Removing highlights\<close>

text \<open>\<open>normalize()\<close>: empty texts go and neighbouring texts are joined, in the whole subtree.\<close>

fun join_texts :: "node list \<Rightarrow> node list" where
  "join_texts [] = []"
| "join_texts (Txt s # ns) =
     (case join_texts ns of
        Txt t # ms \<Rightarrow> Txt (s @ t) # ms
      | ms \<Rightarrow> if s = [] then ms else Txt s # ms)"
| "join_texts (n # ns) = n # join_texts ns"

primrec normalize :: "node \<Rightarrow> node" where
  "normalize (Txt s) = Txt s"
| "normalize (Elem tag cls cs) = Elem tag cls (join_texts (map normalize cs))"
| "normalize (Opaque t) = Opaque t"

definition rebuild :: "jstr \<Rightarrow> jstr list \<Rightarrow> node list \<Rightarrow> node list \<Rightarrow> node" where
  "rebuild tag cls old cs = (if list_ex is_mark old then normalize (Elem tag cls cs) else Elem tag cls cs)"

text \<open>
  The marks are visited in the order of the document. A mark is replaced by its first child, which may be a mark again, and
  its other children are lost; a mark without children raises an exception, also among those. The parent of the mark
  is normalised at once, which normalises the marks behind it too: the flag says that this has happened to the nodes.
\<close>

primrec weight :: "node \<Rightarrow> nat" where
  "weight (Txt s) = 1"
| "weight (Elem tag cls cs) = 1 + sum_list (map weight cs)"
| "weight (Opaque t) = 1"

lemma weight_join: "sum_list (map weight (join_texts ns)) \<le> sum_list (map weight ns)"
  by (induction ns rule: join_texts.induct) (auto split: list.splits node.splits)

lemma weight_normalize: "weight (normalize n) \<le> weight n"
proof (induction n)
  case (Elem tag cls cs)
  then have "sum_list (map weight (map normalize cs)) \<le> sum_list (map weight cs)" by (induction cs) (simp_all add: add_mono)
  then show ?case using weight_join [of "map normalize cs"] by simp
qed simp_all

lemma weight_pos [simp]: "0 < weight n"
  by (cases n) simp_all

definition seen :: "bool \<Rightarrow> node list \<Rightarrow> node list" where
  "seen nz cs = (if nz then join_texts (map normalize cs) else cs)"

lemma weight_seen: "sum_list (map weight (seen nz cs)) \<le> sum_list (map weight cs)"
proof -
  have "sum_list (map weight (map normalize cs)) \<le> sum_list (map weight cs)"
    by (induction cs) (simp_all add: add_mono weight_normalize)
  then show ?thesis using weight_join [of "map normalize cs"] by (simp add: seen_def)
qed

function rm_children :: "bool \<Rightarrow> node list \<Rightarrow> node list option" where
  "rm_children nz [] = Some []"
| "rm_children nz (Elem tag cls cs # ns) =
     (if is_mark (Elem tag cls cs) then
        (case seen nz cs of
           [] \<Rightarrow> None
         | c # lost \<Rightarrow> do { u \<leftarrow> rm_children True [c]; _ \<leftarrow> rm_children nz lost; us \<leftarrow> rm_children True ns; Some (u @ us) })
      else do { cs' \<leftarrow> rm_children nz (seen nz cs); ns' \<leftarrow> rm_children nz ns; Some (rebuild tag cls cs cs' # ns') })"
| "rm_children nz (Txt s # ns) = map_option ((#) (Txt s)) (rm_children nz ns)"
| "rm_children nz (Opaque t # ns) = map_option ((#) (Opaque t)) (rm_children nz ns)"
  by pat_completeness auto

termination
proof (relation "measure (\<lambda>(nz, ns). sum_list (map weight ns))")
  fix nz tag cls cs ns c lost
  assume "seen nz cs = c # lost"
  then have "weight c + sum_list (map weight lost) \<le> sum_list (map weight cs)" using weight_seen [of nz cs] by simp
  then show "((True, [c]), nz, Elem tag cls cs # ns) \<in> measure (\<lambda>(nz, ns). sum_list (map weight ns))"
    "((nz, lost), nz, Elem tag cls cs # ns) \<in> measure (\<lambda>(nz, ns). sum_list (map weight ns))" by simp_all
next
  fix nz tag cls cs ns
  show "((nz, seen nz cs), nz, Elem tag cls cs # ns) \<in> measure (\<lambda>(nz, ns). sum_list (map weight ns))"
    using weight_seen [of nz cs] by simp
qed simp_all

definition removeHighlight :: "node \<Rightarrow> node option" where
  "removeHighlight n =
     (case n of
        Elem tag cls cs \<Rightarrow> map_option (rebuild tag cls cs) (rm_children False cs)
      | _ \<Rightarrow> Some n)"

section \<open>The search ends\<close>

lemma starts_with_length: "starts_with p s \<Longrightarrow> length p \<le> length s"
  by (induction p s rule: starts_with.induct) auto

lemma index_of_bound: "index_of p s = Some i \<Longrightarrow> i + length p \<le> length s"
  by (induction p s arbitrary: i rule: index_of.induct) (auto split: if_splits dest: starts_with_length)

text \<open>What a text becomes: pieces between the matches and marks for the matches, from left to right.\<close>

function text_parts :: "(jchar \<Rightarrow> jchar) \<Rightarrow> jstr \<Rightarrow> jstr \<Rightarrow> node list" where
  "text_parts u pat s =
     (case index_of pat (map u s) of
        None \<Rightarrow> [Txt s]
      | Some pos \<Rightarrow>
          if pat = [] then [Txt s]
          else Txt (take pos s) # mark_span (take (length pat) (drop pos s)) # text_parts u pat (drop (pos + length pat) s))"
  by pat_completeness auto

termination
proof (relation "measure (\<lambda>(u, pat, s). length s)")
  fix u :: "jchar \<Rightarrow> jchar" and pat s pos
  assume "index_of pat (map u s) = Some pos" "pat \<noteq> []"
  then have "pos + length pat \<le> length s" "0 < length pat" using index_of_bound by fastforce+
  then have "length s - (pos + length pat) < length s" by linarith
  then show "((u, pat, drop (pos + length pat) s), u, pat, s) \<in> measure (\<lambda>(u, pat, s). length s)" by simp
qed simp

declare text_parts.simps [simp del]

fun marked :: "(jchar \<Rightarrow> jchar) \<Rightarrow> jstr \<Rightarrow> node \<Rightarrow> node list" where
  "marked u pat (Txt s) = text_parts u pat s"
| "marked u pat (Elem tag cls cs) = [Elem tag cls (if searched tag then concat (map (marked u pat) cs) else cs)]"
| "marked u pat (Opaque t) = [Opaque t]"

lemma split_match_some:
  "pos + len \<le> length s \<Longrightarrow> split_match pos len s = Some (take pos s, take len (drop pos s), drop (pos + len) s)"
  by (simp add: split_match_def splitText_def add.commute)

text \<open>
  \<open>toUpperCase\<close> maps some units to several (sharp s becomes \<open>SS\<close>) and some pairs of units together.
  \<open>unit_wise\<close> says that on texts over the alphabet \<open>A\<close>, for instance the units of ASCII, it works
  unit by unit; \<open>texts_in\<close> says that the texts that are searched are over \<open>A\<close>.
\<close>

definition unit_wise :: "(jstr \<Rightarrow> jstr) \<Rightarrow> (jchar \<Rightarrow> jchar) \<Rightarrow> jchar set \<Rightarrow> bool" where
  "unit_wise up u A = (\<forall>s. set s \<subseteq> A \<longrightarrow> up s = map u s)"

primrec texts_in :: "jchar set \<Rightarrow> node \<Rightarrow> bool" where
  "texts_in A (Txt s) = (set s \<subseteq> A)"
| "texts_in A (Elem tag cls cs) = (searched tag \<longrightarrow> list_all (texts_in A) cs)"
| "texts_in A (Opaque t) = True"

lemma unit_wiseD: "unit_wise up u A \<Longrightarrow> set s \<subseteq> A \<Longrightarrow> up s = map u s"
  by (simp add: unit_wise_def)

lemma inner_text:
  assumes "unit_wise up u A" "set s \<subseteq> A" "pat \<noteq> []" "innerHighlight up pat rest = Some (Done ms)"
  shows "innerHighlight up pat (Txt s # rest) = Some (Done (text_parts u pat s @ ms))"
  using assms
proof (induction u pat s rule: text_parts.induct)
  case (1 u pat s)
  have up: "up s = map u s" using 1 unit_wiseD by blast
  show ?case
  proof (cases "index_of pat (map u s)")
    case None
    then show ?thesis using 1 up by (simp add: innerHighlight.simps [of _ _ "_ # _"] text_parts.simps [of u pat s] prepend_def)
  next
    case (Some pos)
    then have "pos + length pat \<le> length s" using index_of_bound by fastforce
    moreover have "set (drop (pos + length pat) s) \<subseteq> A" using "1.prems"(2) set_drop_subset by fastforce
    ultimately show ?thesis
      using 1 Some up by (simp add: innerHighlight.simps [of _ _ "Txt s # _"] text_parts.simps [of u pat s] split_match_some prepend_def)
  qed
qed

lemma inner_nodes:
  assumes "unit_wise up u A" "pat \<noteq> []"
  shows "texts_in A n \<Longrightarrow> innerHighlight up pat rest = Some (Done ms) \<Longrightarrow>
    innerHighlight up pat (n # rest) = Some (Done (marked u pat n @ ms))"
proof (induction n arbitrary: rest ms)
  case (Txt s)
  then show ?case using inner_text [OF assms(1) _ assms(2)] by simp
next
  case (Elem tag cls cs)
  have "innerHighlight up pat cs = Some (Done (concat (map (marked u pat) cs)))" if "searched tag"
    using Elem.IH Elem.prems(1) that by (induction cs) (simp_all add: innerHighlight.simps [of _ _ "[]"])
  then show ?case using Elem.prems by (simp add: innerHighlight.simps [of _ _ "_ # _"] prepend_def)
next
  case (Opaque t)
  then show ?case by (simp add: innerHighlight.simps [of _ _ "_ # _"] prepend_def)
qed

lemma highlight_marked:
  assumes "unit_wise up u A" "set pat \<subseteq> A" "texts_in A (Elem tag cls cs)" "pat \<noteq> []"
  shows "highlight up pat (Elem tag cls cs) = Some (Done (marked u (map u pat) (Elem tag cls cs)))"
  using inner_nodes [OF assms(1) _ assms(3), of "map u pat" "[]" "[]"] assms(4) unit_wiseD [OF assms(1,2)]
  by (simp add: highlight_def innerHighlight.simps [of _ _ "[]"])

lemma index_of_Nil [simp]: "index_of [] s = Some 0"
  by (cases s) simp_all

lemma inner_diverges: "innerHighlight up pat ns = Some r \<Longrightarrow> pat = [] \<Longrightarrow> ns \<noteq> Txt s # rest"
proof (induction arbitrary: s rest rule: innerHighlight.raw_induct [rotated, consumes 1])
  case (1 f up pat ns r)
  show ?case
  proof
    assume ns: "ns = Txt s # rest"
    then have "\<exists>r'. f up [] (Txt s # rest) = Some r'"
      using 1 by (auto simp: split_match_def splitText_def split: Option.bind_splits)
    then show False using 1 by blast
  qed
qed

text \<open>
  C39: an empty pattern is found again at the same place of a text after each match: highlighting the element around a
  text does not end.
\<close>

theorem highlight_empty_diverges:
  assumes "searched tag" "up [] = []"
  shows "highlight up [] (Elem tag cls (Txt s # rest)) = None"
proof -
  have "innerHighlight up [] (Txt s # rest) = None" using inner_diverges [of up "[]" "Txt s # rest"] by (cases "innerHighlight up [] (Txt s # rest)") auto
  then show ?thesis using assms by (simp add: highlight_def innerHighlight.simps [of _ _ "[_]"])
qed

section \<open>What is marked\<close>

text \<open>The text of a list of nodes.\<close>

fun content :: "node list \<Rightarrow> jstr" where
  "content [] = []"
| "content (Txt s # ns) = s @ content ns"
| "content (Elem tag cls cs # ns) = content cs @ content ns"
| "content (Opaque t # ns) = content ns"

lemma content_append: "content (xs @ ys) = content xs @ content ys"
  by (induction xs rule: content.induct) simp_all

lemma content_mark: "content (mark_span s # ns) = s @ content ns"
  by (simp add: mark_span_def)

lemma content_parts: "content (text_parts u pat s) = s"
proof (induction u pat s rule: text_parts.induct)
  case (1 u pat s)
  show ?case
  proof (cases "index_of pat (map u s)")
    case (Some pos)
    have "take pos s @ take (length pat) (drop pos s) @ drop (pos + length pat) s = s"
      by (metis append_take_drop_id drop_drop add.commute)
    then show ?thesis using 1 Some by (simp add: text_parts.simps [of u pat s] content_mark)
  qed (simp add: text_parts.simps [of u pat s])
qed

lemma content_marked: "content (marked u pat n) = content [n]"
proof (induction n)
  case (Elem tag cls cs)
  then have "content (concat (map (marked u pat) cs)) = content cs"
  proof (induction cs)
    case (Cons c cs)
    then show ?case using content_append [of "[c]" cs] by (simp add: content_append)
  qed simp
  then show ?case by simp
qed (simp_all add: content_parts)

text \<open>
  The texts a reader sees unmarked, and the marked ones, in the elements that are searched.
\<close>

fun plain_texts :: "node list \<Rightarrow> jstr list" where
  "plain_texts [] = []"
| "plain_texts (Txt s # ns) = s # plain_texts ns"
| "plain_texts (Elem tag cls cs # ns) = (if is_mark (Elem tag cls cs) \<or> \<not> searched tag then [] else plain_texts cs) @ plain_texts ns"
| "plain_texts (Opaque t # ns) = plain_texts ns"

fun mark_texts :: "node list \<Rightarrow> jstr list" where
  "mark_texts [] = []"
| "mark_texts (Elem tag cls cs # ns) =
     (if is_mark (Elem tag cls cs) then [content cs] else if searched tag then mark_texts cs else []) @ mark_texts ns"
| "mark_texts (n # ns) = mark_texts ns"

primrec no_marks :: "node \<Rightarrow> bool" where
  "no_marks (Txt s) = True"
| "no_marks (Elem tag cls cs) = (\<not> is_mark (Elem tag cls cs) \<and> list_all no_marks cs)"
| "no_marks (Opaque t) = True"

lemma plain_texts_append: "plain_texts (xs @ ys) = plain_texts xs @ plain_texts ys"
  by (induction xs rule: plain_texts.induct) simp_all

lemma mark_texts_append: "mark_texts (xs @ ys) = mark_texts xs @ mark_texts ys"
  by (induction xs rule: mark_texts.induct) simp_all

lemma texts_mark: "plain_texts (mark_span s # ns) = plain_texts ns" "mark_texts (mark_span s # ns) = s # mark_texts ns"
  by (simp_all add: mark_span_def is_mark_def)

lemma starts_with_take: "starts_with p (take k s) \<Longrightarrow> starts_with p s"
  by (induction p s arbitrary: k rule: starts_with.induct) (auto simp: take_Cons split: nat.splits)

lemma index_of_match: "index_of p s = Some i \<Longrightarrow> take (length p) (drop i s) = p"
  by (induction p s arbitrary: i rule: index_of.induct) (auto simp: starts_with_iff split: if_splits)

lemma index_of_first: "index_of p s = Some i \<Longrightarrow> p \<noteq> [] \<Longrightarrow> index_of p (take i s) = None"
proof (induction p s arbitrary: i rule: index_of.induct)
  case (2 p c s)
  show ?case
  proof (cases "starts_with p (c # s)")
    case False
    then obtain j where j: "i = Suc j" "index_of p s = Some j" using "2.prems" by auto
    have "\<not> starts_with p (c # take j s)" using False starts_with_take [of p "Suc j" "c # s"] by auto
    then show ?thesis using 2 j False by simp
  qed (use 2 in \<open>auto simp: neq_Nil_conv\<close>)
qed (simp split: if_splits)

lemma parts_exact:
  assumes "pat \<noteq> []"
  shows "list_all (\<lambda>s. index_of pat (map u s) = None) (plain_texts (text_parts u pat s)) \<and> list_all (\<lambda>s. map u s = pat) (mark_texts (text_parts u pat s))"
  using assms
proof (induction u pat s rule: text_parts.induct)
  case (1 u pat s)
  show ?case
  proof (cases "index_of pat (map u s)")
    case (Some pos)
    then have "index_of pat (map u (take pos s)) = None" "map u (take (length pat) (drop pos s)) = pat"
      using 1 index_of_first [of pat "map u s" pos] index_of_match [of pat "map u s" pos] by (simp_all add: take_map drop_map)
    then show ?thesis using 1 Some by (simp add: text_parts.simps [of u pat s] texts_mark)
  qed (simp add: text_parts.simps [of u pat s])
qed

definition exact_marks :: "(jchar \<Rightarrow> jchar) \<Rightarrow> jstr \<Rightarrow> node list \<Rightarrow> bool" where
  "exact_marks u pat ms = (list_all (\<lambda>s. index_of pat (map u s) = None) (plain_texts ms) \<and> list_all (\<lambda>s. map u s = pat) (mark_texts ms))"

lemma exact_append: "exact_marks u pat (xs @ ys) = (exact_marks u pat xs \<and> exact_marks u pat ys)"
  by (auto simp: exact_marks_def plain_texts_append mark_texts_append)

lemma exact_marked: "pat \<noteq> [] \<Longrightarrow> no_marks n \<Longrightarrow> exact_marks u pat (marked u pat n)"
proof (induction n)
  case (Elem tag cls cs)
  have "exact_marks u pat (concat (map (marked u pat) cs))"
    using Elem by (induction cs) (auto simp: exact_append exact_marks_def [of u pat "[]"] is_mark_def)
  then show ?case using Elem.prems by (auto simp: exact_marks_def is_mark_def)
qed (simp_all add: exact_marks_def parts_exact)

text \<open>
  C38: exactly the matches are marked. Let the pattern not be empty, the element be without marks, and
  \<open>toUpperCase\<close> work unit by unit on the units of the pattern and of the searched texts. Then highlighting the element returns;
  the text of the element is the same as before, every marked text is the pattern up to case, and no text outside the
  marks contains the pattern up to case.
\<close>

theorem highlight_exact:
  assumes "unit_wise up u A" "set pat \<subseteq> A" "texts_in A (Elem tag cls cs)" "pat \<noteq> []" "no_marks (Elem tag cls cs)"
  shows "\<exists>ms. highlight up pat (Elem tag cls cs) = Some (Done ms) \<and> content ms = content cs \<and> exact_marks u (map u pat) ms"
  using highlight_marked [OF assms(1-4)] exact_marked [OF _ assms(5), of "map u pat" u] content_marked [of u "map u pat" "Elem tag cls cs"] assms(4)
  by simp

section \<open>Removing what was marked\<close>

text \<open>Texts are neither empty nor neighbours.\<close>

fun joined :: "node list \<Rightarrow> bool" where
  "joined [] = True"
| "joined (Txt s # ns) = (s \<noteq> [] \<and> (case ns of Txt t # _ \<Rightarrow> False | _ \<Rightarrow> True) \<and> joined ns)"
| "joined (n # ns) = joined ns"

primrec normal :: "node \<Rightarrow> bool" where
  "normal (Txt s) = True"
| "normal (Elem tag cls cs) = (list_all normal cs \<and> joined cs)"
| "normal (Opaque t) = True"

lemma join_joined: "joined ns \<Longrightarrow> join_texts ns = ns"
  by (induction ns rule: joined.induct) (auto split: list.splits node.splits)

lemma joined_join: "joined (join_texts ns)"
  by (induction ns rule: join_texts.induct) (auto split: list.splits node.splits)

definition text_of :: "node \<Rightarrow> jstr option" where
  "text_of n = (case n of Txt s \<Rightarrow> Some s | _ \<Rightarrow> None)"

lemma text_of_simps [simp]: "text_of (Txt s) = Some s" "text_of (Elem tag cls cs) = None" "text_of (Opaque t) = None"
  by (simp_all add: text_of_def)

lemma joined_map: "(\<And>n. n \<in> set ns \<Longrightarrow> text_of (h n) = text_of n) \<Longrightarrow> joined (map h ns) = joined ns"
proof (induction ns)
  case (Cons n ns)
  then have IH: "joined (map h ns) = joined ns" "text_of (h n) = text_of n" by simp_all
  have "(case map h ns of Txt t # _ \<Rightarrow> False | _ \<Rightarrow> True) = (case ns of Txt t # _ \<Rightarrow> False | _ \<Rightarrow> True)"
    using Cons.prems by (cases ns; cases "hd ns"; cases "h (hd ns)") (fastforce simp: text_of_def)+
  then show ?case using IH by (cases n; cases "h n") (simp_all add: text_of_def)
qed simp

lemma join_cong: "join_texts xs = join_texts ys \<Longrightarrow> join_texts (n # xs) = join_texts (n # ys)"
  by (cases n) simp_all

lemma join_pair: "join_texts (Txt s # Txt t # ns) = join_texts (Txt (s @ t) # ns)"
  by (auto split: list.splits node.splits)

lemma join_empty: "join_texts (Txt [] # ns) = join_texts ns"
  by (auto split: list.splits node.splits)

lemma join_pieces: "ts \<noteq> [] \<Longrightarrow> join_texts (map Txt ts @ ns) = join_texts (Txt (concat ts) # ns)"
proof (induction ts)
  case (Cons t ts)
  show ?case
  proof (cases "ts = []")
    case False
    then have "join_texts (Txt t # map Txt ts @ ns) = join_texts (Txt t # Txt (concat ts) # ns)" using Cons.IH by (intro join_cong) simp
    then show ?thesis using join_pair by simp
  qed simp
qed simp

text \<open>Texts may be joined before or after the other nodes are changed.\<close>

lemma join_map_join:
  assumes "\<And>s. h (Txt s) = Txt s"
  shows "join_texts (map h (join_texts ns)) = join_texts (map h ns)"
proof (induction ns)
  case (Cons n ns)
  show ?case
  proof (cases n)
    case (Txt s)
    have *: "join_texts (map h (join_texts (Txt s # ns))) = join_texts (Txt s # map h (join_texts ns))"
    proof (cases "join_texts ns")
      case (Cons m ms)
      then show ?thesis using assms join_pair join_empty by (cases m) (auto simp del: join_texts.simps(2) simp: join_texts.simps(2) [of s ns])
    qed (use assms join_empty in \<open>auto simp del: join_texts.simps(2) simp: join_texts.simps(2) [of s ns]\<close>)
    show ?thesis using * join_cong [OF Cons.IH] assms Txt by simp
  qed (use join_cong [OF Cons.IH] in simp_all)
qed simp

lemma normalize_normalize: "join_texts (join_texts ns) = join_texts ns"
  by (rule join_joined [OF joined_join])

text \<open>
  What highlighting leaves behind: a mark holds one text that is not empty, and an element with texts in pieces has a
  mark. \<open>clean\<close> is the node without marks.
\<close>

primrec cut :: "node \<Rightarrow> bool" where
  "cut (Txt s) = True"
| "cut (Elem tag cls cs) =
     (if is_mark (Elem tag cls []) then \<exists>s. cs = [Txt s] \<and> s \<noteq> [] else list_all cut cs \<and> (list_ex is_mark cs \<or> joined cs))"
| "cut (Opaque t) = True"

primrec clean :: "node \<Rightarrow> node" where
  "clean (Txt s) = Txt s"
| "clean (Elem tag cls cs) =
     (if is_mark (Elem tag cls []) then Txt (content cs) else Elem tag cls (join_texts (map clean cs)))"
| "clean (Opaque t) = Opaque t"

lemma is_mark_children: "is_mark (Elem tag cls cs) = is_mark (Elem tag cls [])"
  by (simp add: is_mark_def)

lemma normalize_clean: "normalize (clean n) = clean n"
proof (induction n)
  case (Elem tag cls cs)
  then have "map normalize (map clean cs) = map clean cs" by simp
  then show ?case using join_map_join [of normalize "map clean cs"] by (simp del: map_map map_eq_conv)
qed simp_all

lemma list_all_join: "list_all cut ns \<Longrightarrow> list_all cut (join_texts ns)"
  by (induction ns rule: join_texts.induct) (auto split: list.splits node.splits)

lemma cut_normalize: "cut n \<Longrightarrow> cut (normalize n)"
proof (induction n)
  case (Elem tag cls cs)
  show ?case
  proof (cases "is_mark (Elem tag cls [])")
    case False
    then have "list_all cut (map normalize cs)" using Elem by (auto simp: list_all_iff)
    then show ?thesis using False list_all_join joined_join by simp
  qed (use Elem in auto)
qed simp_all

lemma clean_normalize: "cut n \<Longrightarrow> clean (normalize n) = clean n"
proof (induction n)
  case (Elem tag cls cs)
  show ?case
  proof (cases "is_mark (Elem tag cls [])")
    case False
    then have "map clean (map normalize cs) = map clean cs" using Elem by (auto simp: list_all_iff)
    then show ?thesis using False join_map_join [of clean "map normalize cs"] by (simp del: map_map map_eq_conv)
  qed (use Elem in auto)
qed simp_all

lemma marks_join: "list_ex is_mark (join_texts ns) = list_ex is_mark ns"
  by (induction ns rule: join_texts.induct) (auto simp: is_mark_def split: list.splits node.splits)

lemma marks_normalize: "is_mark (normalize n) = is_mark n"
  by (cases n) (simp_all add: is_mark_def)

lemma list_ex_normalize: "list_ex is_mark (map normalize cs) = list_ex is_mark cs"
  by (induction cs) (simp_all add: marks_normalize)

lemma text_clean: "\<not> is_mark n \<Longrightarrow> text_of (clean n) = text_of n"
  by (cases n) (simp_all add: is_mark_def)

lemma seen_cut:
  assumes "list_all cut cs"
  shows "list_all cut (seen nz cs)" "join_texts (map clean (seen nz cs)) = join_texts (map clean cs)"
    "list_ex is_mark (seen nz cs) = list_ex is_mark cs"
proof -
  have "list_all cut (map normalize cs)" "map clean (map normalize cs) = map clean cs"
    using assms cut_normalize clean_normalize by (auto simp: list_all_iff)
  then show "list_all cut (seen nz cs)" "join_texts (map clean (seen nz cs)) = join_texts (map clean cs)"
    using assms list_all_join join_map_join [of clean "map normalize cs"] by (simp_all add: seen_def del: map_map map_eq_conv)
  show "list_ex is_mark (seen nz cs) = list_ex is_mark cs" 
    using list_ex_normalize by (simp add: seen_def marks_join)
qed

lemma rebuild_clean:
  assumes "list_all cut cs" "list_ex is_mark cs \<or> joined cs"
  shows "rebuild tag cls cs (map clean (seen nz cs)) = Elem tag cls (join_texts (map clean cs))"
proof (cases "list_ex is_mark cs")
  case True
  have "map normalize (map clean (seen nz cs)) = map clean (seen nz cs)" using normalize_clean by simp
  then show ?thesis using True seen_cut(2) [OF assms(1), of nz] by (simp add: rebuild_def del: map_map map_eq_conv)
next
  case False
  have "text_of (clean c) = text_of c" if "c \<in> set (seen nz cs)" for c
    using that False seen_cut(3) [OF assms(1), of nz] text_clean by (metis list_ex_iff)
  then have "joined (map clean (seen nz cs)) = joined (seen nz cs)" by (rule joined_map)
  then have "joined (map clean (seen nz cs))" using False assms(2) joined_join by (simp add: seen_def)
  then show ?thesis using False seen_cut(2) [OF assms(1), of nz] join_joined by (simp add: rebuild_def)
qed

lemma rm_cut: "list_all cut ns \<Longrightarrow> rm_children nz ns = Some (map clean ns)"
proof (induction nz ns rule: rm_children.induct)
  case (2 nz tag cls cs ns)
  show ?case
  proof (cases "is_mark (Elem tag cls [])")
    case True
    then obtain s where "cs = [Txt s]" "s \<noteq> []" using 2 by auto
    then show ?thesis using 2 True is_mark_children [of tag cls cs] by (simp add: seen_def)
  next
    case False
    then have "list_all cut cs" "list_ex is_mark cs \<or> joined cs" "list_all cut ns" using "2.prems" by simp_all
    then show ?thesis
      using 2 False is_mark_children [of tag cls cs] rebuild_clean seen_cut(1) by simp
  qed
qed simp_all

text \<open>The nodes of a highlighted node are cut, and cleaning them gives the node back.\<close>

lemma clean_mark: "clean (mark_span s) = Txt s"
  by (simp add: mark_span_def is_mark_def)

lemma parts_cut: "list_all cut (text_parts u pat s)"
proof (induction u pat s rule: text_parts.induct)
  case (1 u pat s)
  show ?case
  proof (cases "index_of pat (map u s) = None \<or> pat = []")
    case False
    then obtain pos where pos: "index_of pat (map u s) = Some pos" "pat \<noteq> []" by auto
    then have "pos + length pat \<le> length s" "length pat \<noteq> 0" using index_of_bound by fastforce+
    then have "pos < length s" by linarith
    then have "take (length pat) (drop pos s) \<noteq> []" using pos(2) by simp
    then show ?thesis using 1 [OF pos] pos by (simp add: text_parts.simps [of u pat s] mark_span_def is_mark_def)
  qed (auto simp: text_parts.simps [of u pat s] split: option.splits)
qed

lemma parts_clean: "join_texts (map clean (text_parts u pat s) @ rest) = join_texts (Txt s # rest)"
proof (induction u pat s rule: text_parts.induct)
  case (1 u pat s)
  show ?case
  proof (cases "index_of pat (map u s) = None \<or> pat = []")
    case True
    then show ?thesis by (auto simp: text_parts.simps [of u pat s] split: option.splits)
  next
    case False
    then obtain pos where pos: "index_of pat (map u s) = Some pos" "pat \<noteq> []" by auto
    let ?a = "take pos s" and ?b = "take (length pat) (drop pos s)" and ?c = "drop (pos + length pat) s"
    have "?a @ ?b @ ?c = s" by (metis append_take_drop_id drop_drop add.commute)
    then have "join_texts (Txt ?a # Txt ?b # Txt ?c # rest) = join_texts (Txt s # rest)" using join_pieces [of "[?a, ?b, ?c]" rest] by simp
    moreover have "join_texts (Txt ?a # Txt ?b # map clean (text_parts u pat ?c) @ rest) = join_texts (Txt ?a # Txt ?b # Txt ?c # rest)"
      using 1 [OF pos] by (intro join_cong)
    ultimately show ?thesis using pos by (simp add: text_parts.simps [of u pat s] clean_mark del: join_texts.simps)
  qed
qed

lemma concat_clean:
  "(\<And>c rest. c \<in> set cs \<Longrightarrow> join_texts (map clean (f c) @ rest) = join_texts (c # rest)) \<Longrightarrow> join_texts (map clean (concat (map f cs))) = join_texts cs"
proof (induction cs)
  case (Cons c cs)
  then show ?case using join_cong [of "map clean (concat (map f cs))" cs c] by simp
qed simp

lemma no_marks_cut: "no_marks n \<Longrightarrow> normal n \<Longrightarrow> cut n \<and> clean n = n"
proof (induction n)
  case (Elem tag cls cs)
  then have "list_all cut cs" "map clean cs = cs" by (auto simp: list_all_iff intro: map_idI)
  then show ?case using Elem.prems join_joined is_mark_children [of tag cls cs] by simp
qed simp_all

lemma no_mark: "no_marks n \<Longrightarrow> \<not> is_mark n"
  by (cases n) (simp_all add: is_mark_def)

lemma parts_no_mark: "\<not> list_ex is_mark (text_parts u pat s) \<Longrightarrow> text_parts u pat s = [Txt s]"
  by (subst text_parts.simps) (auto simp: text_parts.simps [of u pat s] mark_span_def is_mark_def split: option.splits if_splits)

lemma marked_shape: "\<not> list_ex is_mark (marked u pat n) \<Longrightarrow> \<exists>m. marked u pat n = [m] \<and> text_of m = text_of n"
  by (cases n) (auto dest: parts_no_mark)

lemma joined_marked:
  "joined cs \<Longrightarrow> \<not> list_ex is_mark (concat (map (marked u pat) cs)) \<Longrightarrow> joined (concat (map (marked u pat) cs))"
proof -
  assume cs: "joined cs" and "\<not> list_ex is_mark (concat (map (marked u pat) cs))"
  then have one: "\<exists>m. marked u pat c = [m] \<and> text_of m = text_of c" if "c \<in> set cs" for c
    using that marked_shape [of u pat c] by (auto simp: list_ex_iff)
  then have "concat (map (marked u pat) cs) = map (\<lambda>c. hd (marked u pat c)) cs" by (induction cs) fastforce+
  then show ?thesis using cs one joined_map [of cs "\<lambda>c. hd (marked u pat c)"] by fastforce
qed

lemma marked_cut:
  "no_marks n \<Longrightarrow> normal n \<Longrightarrow> list_all cut (marked u pat n) \<and> (\<forall>rest. join_texts (map clean (marked u pat n) @ rest) = join_texts (n # rest))"
proof (induction n)
  case (Elem tag cls cs)
  let ?ms = "concat (map (marked u pat) cs)"
  have cs: "joined cs" "\<And>c. c \<in> set cs \<Longrightarrow> no_marks c \<and> normal c" using Elem.prems by (auto simp: list_all_iff)
  then have "list_all cut ?ms" "join_texts (map clean ?ms) = join_texts cs"
    using Elem.IH by (auto simp: list_all_iff intro!: concat_clean)
  moreover have "list_ex is_mark ?ms \<or> joined ?ms" using joined_marked [OF cs(1)] by blast
  ultimately have "cut (Elem tag cls ?ms) \<and> clean (Elem tag cls ?ms) = Elem tag cls cs"
    using Elem.prems join_joined [OF cs(1)] is_mark_children [of tag cls cs] by simp
  moreover have "cut (Elem tag cls cs) \<and> clean (Elem tag cls cs) = Elem tag cls cs" using Elem.prems by (rule no_marks_cut)
  ultimately show ?case by (simp del: cut.simps clean.simps)
qed (simp_all add: parts_cut parts_clean del: join_texts.simps)

text \<open>
  C37: removing undoes highlighting. Let the pattern not be empty, the element be without marks, its texts neither empty nor
  neighbours, and \<open>toUpperCase\<close> work unit by unit on the units of the pattern and of the searched texts. Then
  \<open>removeHighlight\<close> after \<open>highlight\<close> gives the element back.
\<close>

theorem highlight_removed:
  assumes "unit_wise up u A" "set pat \<subseteq> A" "texts_in A (Elem tag cls cs)" "pat \<noteq> []"
    and "no_marks (Elem tag cls cs)" "normal (Elem tag cls cs)"
  shows "\<exists>m. highlight up pat (Elem tag cls cs) = Some (Done [m]) \<and> removeHighlight m = Some (Elem tag cls cs)"
proof -
  let ?ms = "if searched tag then concat (map (marked u (map u pat)) cs) else cs"
  have m: "marked u (map u pat) (Elem tag cls cs) = [Elem tag cls ?ms]" by simp
  then have "cut (Elem tag cls ?ms)" "join_texts (map clean [Elem tag cls ?ms] @ []) = join_texts [Elem tag cls cs]"
    using marked_cut [OF assms(5, 6), of u "map u pat"] by simp_all
  then have "list_all cut ?ms" "list_ex is_mark ?ms \<or> joined ?ms" "Elem tag cls (join_texts (map clean ?ms)) = Elem tag cls cs"
    using assms(5) is_mark_children [of tag cls cs] by simp_all
  then have "removeHighlight (Elem tag cls ?ms) = Some (Elem tag cls cs)"
    using rm_cut [of ?ms False] rebuild_clean [of ?ms tag cls False] by (simp add: removeHighlight_def seen_def)
  then show ?thesis using highlight_marked [OF assms(1-4)] m by simp
qed

section \<open>An example\<close>

text \<open>Upper case of the letters of ASCII, and of sharp s, which becomes two letters.\<close>

definition upper_ascii :: "jchar \<Rightarrow> jchar" where
  "upper_ascii c = (if 97 \<le> c \<and> c \<le> 122 then c - 32 else c)"

definition upper_sharp :: "jstr \<Rightarrow> jstr" where
  "upper_sharp s = concat (map (\<lambda>c. if c = 0xDF then js ''SS'' else [upper_ascii c]) s)"

abbreviation ascii :: "jchar set" where
  "ascii \<equiv> {c. c < 128}"

lemma upper_sharp_ascii: "unit_wise upper_sharp upper_ascii ascii"
proof -
  have "set s \<subseteq> ascii \<Longrightarrow> upper_sharp s = map upper_ascii s" for s
    by (induction s) (auto simp: upper_sharp_def)
  then show ?thesis by (simp add: unit_wise_def)
qed

lemma upper_sharp_long: "upper_sharp [0x61, 0xDF] = js ''ASS''"
  by (simp add: upper_sharp_def upper_ascii_def js_def)

definition log_line :: node where
  "log_line = Elem (js ''td'') [] [Txt (js ''an Error and an error''), Elem (js ''b'') [] [Txt (js ''x'')]]"

lemma log_line_ok: "no_marks log_line" "normal log_line" "texts_in ascii log_line"
  "set (js ''error'') \<subseteq> ascii" "js ''error'' \<noteq> []"
  by (simp_all add: log_line_def is_mark_def js_def)

theorem highlight_exact_witness:
  "\<exists>ms. highlight upper_sharp (js ''error'') log_line = Some (Done ms) \<and> content ms = js ''an Error and an errorx'' \<and>
    exact_marks upper_ascii (js ''ERROR'') ms"
  using highlight_exact [OF upper_sharp_ascii log_line_ok(4) log_line_ok(3) [unfolded log_line_def] log_line_ok(5)
      log_line_ok(1) [unfolded log_line_def]]
  by (simp add: log_line_def upper_ascii_def js_def)

theorem highlight_removed_witness:
  "\<exists>m. highlight upper_sharp (js ''error'') log_line = Some (Done [m]) \<and> removeHighlight m = Some log_line"
  using highlight_removed [OF upper_sharp_ascii log_line_ok(4) log_line_ok(3) [unfolded log_line_def] log_line_ok(5)
      log_line_ok(1,2) [unfolded log_line_def]]
  unfolding log_line_def .

theorem highlight_empty_diverges_witness: "highlight upper_sharp [] log_line = None"
  unfolding log_line_def by (rule highlight_empty_diverges) (simp_all add: searched_def js_contains_def js_def upper_sharp_def)

end
