(* ===== verification/Ie_Hack.thy ===== *)
theory Ie_Hack
  imports Validate_Methods "HOL-Library.Monad_Syntax"
begin

text \<open>
  \<open>Array.prototype.indexOf\<close> of \<open>src/html/resource/js/iehack.js\<close>, for browsers without it. An array is a list whose holes
  are \<open>None\<close>; an object is its identity.
\<close>

datatype item = Undef | Nul | Truth bool | Numb jnum | Text jstr | Ref nat

text \<open>\<open>===\<close>: \<open>NaN\<close> is not equal to itself.\<close>

definition strict_eq :: "item \<Rightarrow> item \<Rightarrow> bool" where
  "strict_eq a b = (a = b \<and> a \<noteq> Numb NaN)"

fun js_less :: "jnum \<Rightarrow> jnum \<Rightarrow> bool" where
  "js_less NaN b = False"
| "js_less a NaN = False"
| "js_less (Fin a) (Fin b) = (a < b)"
| "js_less NegInf b = (b \<noteq> NegInf)"
| "js_less a PosInf = (a \<noteq> PosInf)"
| "js_less a b = False"

definition round_start :: "jnum \<Rightarrow> jnum" where
  "round_start n = (case n of Fin q \<Rightarrow> Fin (of_int (if q < 0 then \<lceil>q\<rceil> else \<lfloor>q\<rfloor>)) | _ \<Rightarrow> n)"

definition array_start :: "nat \<Rightarrow> jsval \<Rightarrow> jnum" where
  "array_start len arg =
     (let n = to_number arg;
          pos = round_start (if n = NaN then Fin 0 else n)
      in if js_less pos (Fin 0) then js_add pos (Fin (of_nat len)) else pos)"

text \<open>\<open>from in this \<and> this[from] === elt\<close>.\<close>

definition found_at :: "item option list \<Rightarrow> item \<Rightarrow> jnum \<Rightarrow> bool" where
  "found_at xs elt pos =
     (case pos of
        Fin q \<Rightarrow>
          q \<in> \<int> \<and> 0 \<le> q \<and> nat \<lfloor>q\<rfloor> < length xs
          \<and> (case xs ! nat \<lfloor>q\<rfloor> of None \<Rightarrow> False | Some v \<Rightarrow> strict_eq v elt)
      | _ \<Rightarrow> False)"

partial_function (option) array_scan :: "item option list \<Rightarrow> item \<Rightarrow> jnum \<Rightarrow> jnum option" where
  "array_scan xs elt pos =
     (if js_less pos (Fin (of_nat (length xs))) then
        if found_at xs elt pos then Some pos else array_scan xs elt (js_add pos (Fin 1))
      else Some (Fin (- 1)))"

definition array_indexOf :: "item option list \<Rightarrow> item \<Rightarrow> jsval \<Rightarrow> jnum option" where
  "array_indexOf xs elt arg = array_scan xs elt (array_start (length xs) arg)"

text \<open>The reference: the first position not before the start at which the element stands.\<close>

definition holds_at :: "item option list \<Rightarrow> item \<Rightarrow> nat \<Rightarrow> bool" where
  "holds_at xs elt i = (i < length xs \<and> (case xs ! i of None \<Rightarrow> False | Some v \<Rightarrow> strict_eq v elt))"

definition first_index :: "item option list \<Rightarrow> item \<Rightarrow> int \<Rightarrow> int" where
  "first_index xs elt start =
     (case List.find (\<lambda>i. start \<le> int i \<and> holds_at xs elt i) [0..<length xs] of None \<Rightarrow> -1 | Some i \<Rightarrow> int i)"

definition int_start :: "nat \<Rightarrow> rat \<Rightarrow> int" where
  "int_start len q = (if q \<le> - 1 then \<lceil>q\<rceil> + int len else if q < 0 then 0 else \<lfloor>q\<rfloor>)"

lemma first_index_skip:
  assumes "\<not> (0 \<le> pos \<and> holds_at xs elt (nat pos))"
  shows "first_index xs elt pos = first_index xs elt (pos + 1)"
proof -
  have "(pos \<le> int i \<and> holds_at xs elt i) = (pos + 1 \<le> int i \<and> holds_at xs elt i)" for i
    using assms by (cases "int i = pos") auto
  then show ?thesis by (simp add: first_index_def)
qed

lemma first_index_found:
  assumes "0 \<le> pos" "holds_at xs elt (nat pos)"
  shows "first_index xs elt pos = pos"
proof -
  have "List.find (\<lambda>i. pos \<le> int i \<and> holds_at xs elt i) [0..<length xs] = Some (nat pos)"
    using assms by (auto simp: find_Some_iff holds_at_def intro!: exI [of _ "nat pos"])
  then show ?thesis using assms by (simp add: first_index_def)
qed

lemma first_index_end: "int (length xs) \<le> pos \<Longrightarrow> first_index xs elt pos = -1"
  by (auto simp: first_index_def find_None_iff split: option.splits simp: find_Some_iff)

lemma found_int: "found_at xs elt (Fin (of_int pos)) = (0 \<le> pos \<and> holds_at xs elt (nat pos))"
  by (auto simp: found_at_def holds_at_def)

lemma less_length: "((of_int i :: rat) < of_nat n) = (i < int n)"
  by (metis of_int_less_iff of_int_of_nat_eq)

lemma scan_int: "array_scan xs elt (Fin (of_int pos)) = Some (Fin (of_int (first_index xs elt pos)))"
proof (induction "nat (int (length xs) - pos)" arbitrary: pos)
  case 0
  then have "\<not> (of_int pos :: rat) < of_nat (length xs)" by (simp add: less_length)
  then show ?case using 0 first_index_end [of xs pos elt] by (simp add: array_scan.simps [of _ _ "Fin (of_int pos)"])
next
  case (Suc k)
  then have less: "(of_int pos :: rat) < of_nat (length xs)" by (simp add: less_length)
  show ?case
  proof (cases "0 \<le> pos \<and> holds_at xs elt (nat pos)")
    case True
    then show ?thesis using less first_index_found found_int by (simp add: array_scan.simps [of _ _ "Fin (of_int pos)"])
  next
    case False
    have "array_scan xs elt (Fin (of_int (pos + 1))) = Some (Fin (of_int (first_index xs elt (pos + 1))))"
      using Suc by (intro Suc) linarith
    then show ?thesis
      using less False first_index_skip [OF False] found_int [of xs elt pos] by (auto simp: array_scan.simps [of _ _ "Fin (of_int pos)"])
  qed
qed

lemma array_start_fin: "to_number arg = Fin q \<Longrightarrow> array_start len arg = Fin (of_int (int_start len q))"
  using ceiling_eq_iff [of q 0] by (auto simp: array_start_def round_start_def int_start_def Let_def)

text \<open>
  For a finite start the search returns, and returns the first position at or behind the start that holds the element; a
  start that is negative counts pos the end, a fraction is cut off, and holes are skipped. Without such a position it
  is \<open>-1\<close>.
\<close>

theorem indexOf_first:
  assumes "to_number arg = Fin q"
  shows "array_indexOf xs elt arg = Some (Fin (of_int (first_index xs elt (int_start (length xs) q))))"
  unfolding array_indexOf_def array_start_fin [OF assms] by (rule scan_int)

text \<open>A start that is no number counts as 0.\<close>

lemma indexOf_nan: "to_number arg = NaN \<Longrightarrow> array_indexOf xs elt arg = Some (Fin (of_int (first_index xs elt 0)))"
  using scan_int [of xs elt 0] by (simp add: array_indexOf_def array_start_def round_start_def)

lemma scan_NegInf: "array_scan xs elt pos = Some r \<Longrightarrow> pos \<noteq> NegInf"
proof (induction rule: array_scan.raw_induct [rotated, consumes 1])
  case (1 f xs elt pos r)
  show ?case
  proof
    assume "pos = NegInf"
    then have "f xs elt NegInf = Some r" using 1(2) by (simp add: found_at_def)
    then show False using 1(1) by blast
  qed
qed

lemma indexOf_NegInf_diverges:
  assumes "to_number arg = NegInf"
  shows "array_indexOf xs elt arg = None"
  using assms scan_NegInf [of xs elt NegInf] by (cases "array_scan xs elt NegInf") (simp_all add: array_indexOf_def array_start_def round_start_def)

theorem indexOf_first_witness:
  "array_indexOf [Some (Text (js ''a'')), None, Some (Ref 1), Some (Text (js ''a''))] (Text (js ''a'')) (NumI (- 3)) = Some (Fin 3)"
proof -
  have "to_number (NumI (- 3)) = Fin (- 3)" by simp
  from indexOf_first [OF this] show ?thesis
    by (simp add: first_index_def int_start_def holds_at_def strict_eq_def upt_rec numeral_eq_Suc)
qed

end
