(* ===== verification/Easing.thy ===== *)
theory Easing
  imports Complex_Main
begin

text \<open>
  The curves of \<open>src/html/resource/js/jquery.easing.1.3.js\<close>: from the time \<open>t\<close>, the first value \<open>b\<close>, the change
  \<open>c\<close> and the duration \<open>d\<close> the value at that time; the argument \<open>x\<close> is not used by any of them. jQuery calls them with a
  positive duration and a time up to it. The numbers are real numbers: rounding is not modelled. An elastic curve of
  change 0 divides 0 by 0; its value is then \<open>None\<close>, for \<open>NaN\<close>.
\<close>

type_synonym curve = "real \<Rightarrow> real \<Rightarrow> real \<Rightarrow> real \<Rightarrow> real"

section \<open>Powers\<close>

definition easeInQuad :: curve where "easeInQuad t b c d = c * (t / d) * (t / d) + b"
definition easeOutQuad :: curve where "easeOutQuad t b c d = - c * (t / d) * (t / d - 2) + b"

definition easeInOutQuad :: curve where
  "easeInOutQuad t b c d =
     (let t = t / (d / 2) in if t < 1 then c / 2 * t * t + b else (let t = t - 1 in - c / 2 * (t * (t - 2) - 1) + b))"

definition easeInCubic :: curve where "easeInCubic t b c d = (let t = t / d in c * t * t * t + b)"
definition easeOutCubic :: curve where "easeOutCubic t b c d = (let t = t / d - 1 in c * (t * t * t + 1) + b)"

definition easeInOutCubic :: curve where
  "easeInOutCubic t b c d =
     (let t = t / (d / 2) in if t < 1 then c / 2 * t * t * t + b else (let t = t - 2 in c / 2 * (t * t * t + 2) + b))"

definition easeInQuart :: curve where "easeInQuart t b c d = (let t = t / d in c * t * t * t * t + b)"
definition easeOutQuart :: curve where "easeOutQuart t b c d = (let t = t / d - 1 in - c * (t * t * t * t - 1) + b)"

definition easeInOutQuart :: curve where
  "easeInOutQuart t b c d =
     (let t = t / (d / 2) in if t < 1 then c / 2 * t * t * t * t + b else (let t = t - 2 in - c / 2 * (t * t * t * t - 2) + b))"

definition easeInQuint :: curve where "easeInQuint t b c d = (let t = t / d in c * t * t * t * t * t + b)"
definition easeOutQuint :: curve where "easeOutQuint t b c d = (let t = t / d - 1 in c * (t * t * t * t * t + 1) + b)"

definition easeInOutQuint :: curve where
  "easeInOutQuint t b c d =
     (let t = t / (d / 2) in if t < 1 then c / 2 * t * t * t * t * t + b else (let t = t - 2 in c / 2 * (t * t * t * t * t + 2) + b))"

section \<open>Sine, exponential, circle\<close>

definition easeInSine :: curve where "easeInSine t b c d = - c * cos (t / d * (pi / 2)) + c + b"
definition easeOutSine :: curve where "easeOutSine t b c d = c * sin (t / d * (pi / 2)) + b"
definition easeInOutSine :: curve where "easeInOutSine t b c d = - c / 2 * (cos (pi * t / d) - 1) + b"

definition easeInExpo :: curve where
  "easeInExpo t b c d = (if t = 0 then b else c * 2 powr (10 * (t / d - 1)) + b)"

definition easeOutExpo :: curve where
  "easeOutExpo t b c d = (if t = d then b + c else c * (- (2 powr (- 10 * t / d)) + 1) + b)"

definition easeInOutExpo :: curve where
  "easeInOutExpo t b c d =
     (if t = 0 then b else if t = d then b + c
      else (let t = t / (d / 2) in
        if t < 1 then c / 2 * 2 powr (10 * (t - 1)) + b else (let t = t - 1 in c / 2 * (- (2 powr (- 10 * t)) + 2) + b)))"

definition easeInCirc :: curve where "easeInCirc t b c d = (let t = t / d in - c * (sqrt (1 - t * t) - 1) + b)"
definition easeOutCirc :: curve where "easeOutCirc t b c d = (let t = t / d - 1 in c * sqrt (1 - t * t) + b)"

definition easeInOutCirc :: curve where
  "easeInOutCirc t b c d =
     (let t = t / (d / 2) in
      if t < 1 then - c / 2 * (sqrt (1 - t * t) - 1) + b else (let t = t - 2 in c / 2 * (sqrt (1 - t * t) + 1) + b))"

section \<open>Elastic\<close>

text \<open>The shift \<open>s\<close>, with \<open>a = c\<close>; for \<open>c = 0\<close> the quotient \<open>c / a\<close> is \<open>NaN\<close>.\<close>

definition elastic_shift :: "real \<Rightarrow> real \<Rightarrow> real option" where
  "elastic_shift c p = (if c < \<bar>c\<bar> then Some (p / 4) else if c = 0 then None else Some (p / (2 * pi) * arcsin (c / c)))"

definition easeInElastic :: "real \<Rightarrow> real \<Rightarrow> real \<Rightarrow> real \<Rightarrow> real option" where
  "easeInElastic t b c d =
     (if t = 0 then Some b
      else (let t = t / d in
        if t = 1 then Some (b + c)
        else (let p = d * 3 / 10; t = t - 1 in
          map_option (\<lambda>s. - (c * 2 powr (10 * t) * sin ((t * d - s) * (2 * pi) / p)) + b) (elastic_shift c p))))"

definition easeOutElastic :: "real \<Rightarrow> real \<Rightarrow> real \<Rightarrow> real \<Rightarrow> real option" where
  "easeOutElastic t b c d =
     (if t = 0 then Some b
      else (let t = t / d in
        if t = 1 then Some (b + c)
        else (let p = d * 3 / 10 in
          map_option (\<lambda>s. c * 2 powr (- 10 * t) * sin ((t * d - s) * (2 * pi) / p) + c + b) (elastic_shift c p))))"

definition easeInOutElastic :: "real \<Rightarrow> real \<Rightarrow> real \<Rightarrow> real \<Rightarrow> real option" where
  "easeInOutElastic t b c d =
     (if t = 0 then Some b
      else (let t = t / (d / 2) in
        if t = 2 then Some (b + c)
        else (let p = d * (3 / 10 * (3 / 2)) in
          map_option (\<lambda>s.
            let t' = t - 1 in
            if t < 1 then - (1 / 2) * (c * 2 powr (10 * t') * sin ((t' * d - s) * (2 * pi) / p)) + b
            else c * 2 powr (- 10 * t') * sin ((t' * d - s) * (2 * pi) / p) * (1 / 2) + c + b) (elastic_shift c p))))"

section \<open>Back and bounce\<close>

text \<open>The argument \<open>s\<close> is not given by jQuery and has its default, 1.70158.\<close>

definition back_s :: real where "back_s = 170158 / 100000"

definition easeInBack :: curve where
  "easeInBack t b c d = (let t = t / d; s = back_s in c * t * t * ((s + 1) * t - s) + b)"

definition easeOutBack :: curve where
  "easeOutBack t b c d = (let t = t / d - 1; s = back_s in c * (t * t * ((s + 1) * t + s) + 1) + b)"

definition easeInOutBack :: curve where
  "easeInOutBack t b c d =
     (let t = t / (d / 2); s = back_s * (1525 / 1000) in
      if t < 1 then c / 2 * (t * t * ((s + 1) * t - s)) + b
      else (let t = t - 2 in c / 2 * (t * t * ((s + 1) * t + s) + 2) + b))"

definition easeOutBounce :: curve where
  "easeOutBounce t b c d =
     (let t = t / d in
      if t < 1 / (11 / 4) then c * (121 / 16 * t * t) + b
      else if t < 2 / (11 / 4) then (let t = t - (3 / 2) / (11 / 4) in c * (121 / 16 * t * t + 3 / 4) + b)
      else if t < (5 / 2) / (11 / 4) then (let t = t - (9 / 4) / (11 / 4) in c * (121 / 16 * t * t + 15 / 16) + b)
      else (let t = t - (21 / 8) / (11 / 4) in c * (121 / 16 * t * t + 63 / 64) + b))"

definition easeInBounce :: curve where "easeInBounce t b c d = c - easeOutBounce (d - t) 0 c d + b"

definition easeInOutBounce :: curve where
  "easeInOutBounce t b c d =
     (if t < d / 2 then easeInBounce (t * 2) 0 c d * (1 / 2) + b else easeOutBounce (t * 2 - d) 0 c d * (1 / 2) + c * (1 / 2) + b)"

text \<open>\<open>swing\<close> is the curve named by \<open>def\<close>.\<close>

definition swing :: curve where "swing = easeOutQuad"

section \<open>First and last value\<close>

definition total :: "curve \<Rightarrow> real \<Rightarrow> real \<Rightarrow> real \<Rightarrow> real \<Rightarrow> real option" where
  "total f t b c d = Some (f t b c d)"

definition tame_curves :: "(string \<times> curve) list" where
  "tame_curves =
     [(''swing'', swing), (''easeInQuad'', easeInQuad), (''easeOutQuad'', easeOutQuad), (''easeInOutQuad'', easeInOutQuad),
      (''easeInCubic'', easeInCubic), (''easeOutCubic'', easeOutCubic), (''easeInOutCubic'', easeInOutCubic),
      (''easeInQuart'', easeInQuart), (''easeOutQuart'', easeOutQuart), (''easeInOutQuart'', easeInOutQuart),
      (''easeInQuint'', easeInQuint), (''easeOutQuint'', easeOutQuint), (''easeInOutQuint'', easeInOutQuint),
      (''easeInSine'', easeInSine), (''easeOutSine'', easeOutSine), (''easeInOutSine'', easeInOutSine),
      (''easeInExpo'', easeInExpo), (''easeOutExpo'', easeOutExpo), (''easeInOutExpo'', easeInOutExpo),
      (''easeInCirc'', easeInCirc), (''easeOutCirc'', easeOutCirc), (''easeInOutCirc'', easeInOutCirc),
      (''easeInBounce'', easeInBounce), (''easeOutBounce'', easeOutBounce), (''easeInOutBounce'', easeInOutBounce)]"

definition easings :: "(string \<times> (real \<Rightarrow> real \<Rightarrow> real \<Rightarrow> real \<Rightarrow> real option)) list" where
  "easings = map (\<lambda>(n, f). (n, total f)) (tame_curves @ [(''easeInBack'', easeInBack), (''easeOutBack'', easeOutBack), (''easeInOutBack'', easeInOutBack)])
     @ [(''easeInElastic'', easeInElastic), (''easeOutElastic'', easeOutElastic), (''easeInOutElastic'', easeInOutElastic)]"

text \<open>What an animation relies on: the curve starts at the first value and ends at the last one.\<close>

locale easing =
  fixes f :: curve
  assumes start: "0 < d \<Longrightarrow> f 0 b c d = b"
    and finish: "0 < d \<Longrightarrow> f d b c d = b + c"
begin

lemma ends: "0 < d \<Longrightarrow> total f 0 b c d = Some b \<and> total f d b c d = Some (b + c)"
  by (simp add: total_def start finish)

end

text \<open>A curve that stays between the two values.\<close>

locale tame_easing = easing +
  assumes within: "0 < d \<Longrightarrow> 0 \<le> t \<Longrightarrow> t \<le> d \<Longrightarrow> 0 \<le> c \<Longrightarrow> b \<le> f t b c d \<and> f t b c d \<le> b + c"

text \<open>The profile of a curve: its value for the change 1 as a function of the share of the time.\<close>

definition profile :: "(real \<Rightarrow> real) \<Rightarrow> bool" where
  "profile g = (g 0 = 0 \<and> g 1 = 1 \<and> (\<forall>x. 0 \<le> x \<longrightarrow> x \<le> 1 \<longrightarrow> 0 \<le> g x \<and> g x \<le> 1))"

lemma profileI: "g 0 = 0 \<Longrightarrow> g 1 = 1 \<Longrightarrow> (\<And>x. 0 \<le> x \<Longrightarrow> x \<le> 1 \<Longrightarrow> 0 \<le> g x \<and> g x \<le> 1) \<Longrightarrow> profile g"
  by (simp add: profile_def)

lemma profileD: "profile g \<Longrightarrow> 0 \<le> x \<Longrightarrow> x \<le> 1 \<Longrightarrow> 0 \<le> g x \<and> g x \<le> 1"
  by (simp add: profile_def)

lemma tame_profile:
  assumes "profile g" "\<And>t b c d. 0 < d \<Longrightarrow> f t b c d = c * g (t / d) + b"
  shows "tame_easing f"
proof
  fix t b c d :: real
  assume d: "0 < d"
  show "f 0 b c d = b" "f d b c d = b + c" using assms d by (simp_all add: profile_def)
  assume "0 \<le> t" "t \<le> d" "0 \<le> c"
  then have "0 \<le> g (t / d)" "g (t / d) \<le> 1" using profileD [OF assms(1), of "t / d"] d by simp_all
  then show "b \<le> f t b c d \<and> f t b c d \<le> b + c" using \<open>0 \<le> c\<close> assms(2) [OF d] by (simp add: mult_left_le)
qed

text \<open>A profile backwards, and a profile followed by itself backwards.\<close>

definition mirror :: "(real \<Rightarrow> real) \<Rightarrow> real \<Rightarrow> real" where
  "mirror g x = 1 - g (1 - x)"

definition both :: "(real \<Rightarrow> real) \<Rightarrow> real \<Rightarrow> real" where
  "both g x = (if 2 * x < 1 then g (2 * x) / 2 else 1 - g (2 - 2 * x) / 2)"

lemma profile_mirror: "profile g \<Longrightarrow> profile (mirror g)"
  by (rule profileI) (auto simp: profile_def mirror_def)

lemma profile_both:
  assumes "profile g"
  shows "profile (both g)"
proof (rule profileI)
  fix x :: real
  assume x: "0 \<le> x" "x \<le> 1"
  show "0 \<le> both g x \<and> both g x \<le> 1"
  proof (cases "2 * x < 1")
    case True
    then show ?thesis using profileD [OF assms, of "2 * x"] x by (simp add: both_def)
  next
    case False
    then show ?thesis using profileD [OF assms, of "2 - 2 * x"] x by (auto simp: both_def)
  qed
qed (use assms in \<open>simp_all add: both_def profile_def\<close>)

lemma profile_power: "0 < n \<Longrightarrow> profile (\<lambda>x. x ^ n)"
  by (rule profileI) (auto simp: power_le_one)

section \<open>Tame curves\<close>

text \<open>A curve of \<open>t / d\<close> is tame if its value for the change \<open>c\<close> is that of a profile.\<close>

lemma tame_by:
  assumes "profile g" "\<And>t b c d. 0 < d \<Longrightarrow> f t b c d = f (t / d) b c 1" "\<And>x b c. f x b c 1 = c * g x + b"
  shows "tame_easing f"
  using assms(1) by (rule tame_profile) (metis assms(2, 3))

lemma tame_in_powers:
  "tame_easing easeInQuad" "tame_easing easeInCubic" "tame_easing easeInQuart" "tame_easing easeInQuint"
proof -
  show "tame_easing easeInQuad"
    by (rule tame_by [OF profile_power [of 2]]) (simp_all add: easeInQuad_def power2_eq_square)
  show "tame_easing easeInCubic"
    by (rule tame_by [OF profile_power [of 3]]) (simp_all add: easeInCubic_def power3_eq_cube)
  show "tame_easing easeInQuart"
    by (rule tame_by [OF profile_power [of 4]]) (simp_all add: easeInQuart_def power4_eq_xxxx)
  show "tame_easing easeInQuint"
    by (rule tame_by [OF profile_power [of 5]]) (simp_all add: easeInQuint_def eval_nat_numeral)
qed

lemma tame_out_powers:
  "tame_easing easeOutQuad" "tame_easing easeOutCubic" "tame_easing easeOutQuart" "tame_easing easeOutQuint"
proof -
  have out: "profile (mirror (\<lambda>x. x ^ n))" if "0 < n" for n using profile_power [OF that] by (rule profile_mirror)
  have "easeOutQuad x b c 1 = c * mirror (\<lambda>x. x ^ 2) x + b" for x b c by (simp add: easeOutQuad_def mirror_def power2_eq_square algebra_simps)
  then show "tame_easing easeOutQuad" by (intro tame_by [OF out [of 2]]) (simp_all add: easeOutQuad_def)
  have "easeOutCubic x b c 1 = c * mirror (\<lambda>x. x ^ 3) x + b" for x b c by (simp add: easeOutCubic_def Let_def mirror_def power3_eq_cube algebra_simps)
  then show "tame_easing easeOutCubic" by (intro tame_by [OF out [of 3]]) (simp_all add: easeOutCubic_def)
  have "easeOutQuart x b c 1 = c * mirror (\<lambda>x. x ^ 4) x + b" for x b c by (simp add: easeOutQuart_def Let_def mirror_def power4_eq_xxxx algebra_simps)
  then show "tame_easing easeOutQuart" by (intro tame_by [OF out [of 4]]) (simp_all add: easeOutQuart_def)
  have "easeOutQuint x b c 1 = c * mirror (\<lambda>x. x ^ 5) x + b" for x b c by (simp add: easeOutQuint_def Let_def mirror_def eval_nat_numeral algebra_simps)
  then show "tame_easing easeOutQuint" by (intro tame_by [OF out [of 5]]) (simp_all add: easeOutQuint_def)
qed

lemma tame_both_powers:
  "tame_easing easeInOutQuad" "tame_easing easeInOutCubic" "tame_easing easeInOutQuart" "tame_easing easeInOutQuint"
proof -
  have inout: "profile (both (\<lambda>x. x ^ n))" if "0 < n" for n using profile_power [OF that] by (rule profile_both)
  have "easeInOutQuad x b c 1 = c * both (\<lambda>x. x ^ 2) x + b" for x b c by (simp add: easeInOutQuad_def Let_def both_def power2_eq_square field_simps)
  then show "tame_easing easeInOutQuad" by (intro tame_by [OF inout [of 2]]) (simp_all add: easeInOutQuad_def)
  have "easeInOutCubic x b c 1 = c * both (\<lambda>x. x ^ 3) x + b" for x b c by (simp add: easeInOutCubic_def Let_def both_def power3_eq_cube field_simps)
  then show "tame_easing easeInOutCubic" by (intro tame_by [OF inout [of 3]]) (simp_all add: easeInOutCubic_def)
  have "easeInOutQuart x b c 1 = c * both (\<lambda>x. x ^ 4) x + b" for x b c by (simp add: easeInOutQuart_def Let_def both_def power4_eq_xxxx field_simps)
  then show "tame_easing easeInOutQuart" by (intro tame_by [OF inout [of 4]]) (simp_all add: easeInOutQuart_def)
  have "easeInOutQuint x b c 1 = c * both (\<lambda>x. x ^ 5) x + b" for x b c by (simp add: easeInOutQuint_def Let_def both_def eval_nat_numeral field_simps)
  then show "tame_easing easeInOutQuint" by (intro tame_by [OF inout [of 5]]) (simp_all add: easeInOutQuint_def)
qed
text \<open>Sine.\<close>

lemma quarter: "0 \<le> x \<Longrightarrow> x \<le> 1 \<Longrightarrow> 0 \<le> x * (pi / 2) \<and> x * (pi / 2) \<le> pi / 2"
  by (simp add: mult_left_le_one_le)

lemma tame_sines: "tame_easing easeInSine" "tame_easing easeOutSine" "tame_easing easeInOutSine"
proof -
  have "profile (\<lambda>x. 1 - cos (x * (pi / 2)))"
  proof (rule profileI)
    fix x :: real
    assume "0 \<le> x" "x \<le> 1"
    then have "0 \<le> x * (pi / 2)" "x * (pi / 2) \<le> pi / 2" using quarter [of x] by simp_all
    then have "0 \<le> cos (x * (pi / 2))" by (intro cos_ge_zero) linarith+
    then show "0 \<le> 1 - cos (x * (pi / 2)) \<and> 1 - cos (x * (pi / 2)) \<le> 1" by simp
  qed simp_all
  then show "tame_easing easeInSine" by (rule tame_by) (simp_all add: easeInSine_def algebra_simps)
  have "profile (\<lambda>x. sin (x * (pi / 2)))"
  proof (rule profileI)
    fix x :: real
    assume "0 \<le> x" "x \<le> 1"
    then have "0 \<le> x * (pi / 2)" "x * (pi / 2) \<le> pi" using quarter [of x] by simp_all
    then show "0 \<le> sin (x * (pi / 2)) \<and> sin (x * (pi / 2)) \<le> 1" by (simp add: sin_ge_zero)
  qed simp_all
  then show "tame_easing easeOutSine" by (rule tame_by) (simp_all add: easeOutSine_def)
  have "0 \<le> (1 - cos y) / 2 \<and> (1 - cos y) / 2 \<le> 1" for y :: real using cos_ge_minus_one [of y] cos_le_one [of y] by auto
  then have "profile (\<lambda>x. (1 - cos (pi * x)) / 2)" by (intro profileI) simp_all
  then show "tame_easing easeInOutSine" by (rule tame_by) (simp_all add: easeInOutSine_def field_simps)
qed

text \<open>Powers of 2.\<close>

lemma two_powr: "x \<le> 0 \<Longrightarrow> 0 \<le> 2 powr x \<and> 2 powr x \<le> (1 :: real)"
  using powr_mono [of x 0 2] by simp

lemma tame_expos: "tame_easing easeInExpo" "tame_easing easeOutExpo" "tame_easing easeInOutExpo"
proof -
  have "profile (\<lambda>x. if x = 0 then 0 else 2 powr (10 * (x - 1)))" using two_powr by (intro profileI) auto
  then show "tame_easing easeInExpo" by (rule tame_by) (simp_all add: easeInExpo_def)
  have "profile (\<lambda>x. if x = 1 then 1 else 1 - 2 powr (- 10 * x))" using two_powr by (intro profileI) auto
  then show "tame_easing easeOutExpo" by (rule tame_by) (simp_all add: easeOutExpo_def algebra_simps)
  have "profile (\<lambda>x. if x = 0 then 0 else if x = 1 then 1 else if 2 * x < 1 then 2 powr (10 * (2 * x - 1)) / 2
      else (2 - 2 powr (- 10 * (2 * x - 1))) / 2)" (is "profile ?g")
  proof (rule profileI)
    fix x :: real
    have "2 powr (10 * (2 * x - 1)) \<le> (1 :: real)" if "2 * x < 1" using that two_powr [of "10 * (2 * x - 1)"] by simp
    moreover have "2 powr (- 10 * (2 * x - 1)) \<le> (1 :: real)" if "\<not> 2 * x < 1" using that two_powr [of "- 10 * (2 * x - 1)"] by simp
    ultimately show "0 \<le> ?g x \<and> ?g x \<le> 1" by (auto simp: field_simps)
  qed simp_all
  then show "tame_easing easeInOutExpo" by (rule tame_by) (simp_all add: easeInOutExpo_def Let_def field_simps)
qed

text \<open>The circle.\<close>

definition arc :: "real \<Rightarrow> real" where "arc x = 1 - sqrt (1 - x * x)"

lemma profile_arc: "profile arc"
  by (rule profileI) (auto simp: arc_def mult_le_one)

lemma tame_circles: "tame_easing easeInCirc" "tame_easing easeOutCirc" "tame_easing easeInOutCirc"
proof -
  show "tame_easing easeInCirc"
    by (rule tame_by [OF profile_arc]) (simp_all add: easeInCirc_def Let_def arc_def algebra_simps)
  have sq: "(1 - x) * (1 - x) = (x - 1) * (x - 1)" "(2 - 2 * x) * (2 - 2 * x) = (2 * x - 2) * (2 * x - 2)" for x :: real
    by (simp_all add: algebra_simps)
  show "tame_easing easeOutCirc"
    by (rule tame_by [OF profile_mirror [OF profile_arc]]) (simp_all add: easeOutCirc_def Let_def mirror_def arc_def sq)
  have "easeInOutCirc x b c 1 = c * both arc x + b" for x b c
    unfolding easeInOutCirc_def both_def arc_def Let_def sq by (simp add: field_simps)
  then show "tame_easing easeInOutCirc" by (intro tame_by [OF profile_both [OF profile_arc]]) (simp_all add: easeInOutCirc_def)
qed

text \<open>Bouncing.\<close>

definition bounce :: "real \<Rightarrow> real" where "bounce x = easeOutBounce x 0 1 1"

lemma bounce_arc: "x \<le> h \<Longrightarrow> - h \<le> x \<Longrightarrow> 121 / 16 * (h * h) \<le> 1 - k \<Longrightarrow> 0 \<le> k \<Longrightarrow> 0 \<le> 121 / 16 * x * x + k \<and> 121 / 16 * x * x + k \<le> (1 :: real)"
proof -
  assume "x \<le> h" "- h \<le> x" and h: "121 / 16 * (h * h) \<le> 1 - k" and k: "0 \<le> k"
  then have "x * x \<le> h * h" using abs_le_square_iff [of x h] by (simp add: power2_eq_square abs_le_iff)
  moreover have "0 \<le> x * x" by simp
  ultimately show ?thesis using h k by linarith
qed

lemma profile_bounce: "profile bounce"
proof (rule profileI)
  fix x :: real
  assume x: "0 \<le> x" "x \<le> 1"
  consider "x < 4 / 11" | "4 / 11 \<le> x" "x < 8 / 11" | "8 / 11 \<le> x" "x < 10 / 11" | "10 / 11 \<le> x" by linarith
  then show "0 \<le> bounce x \<and> bounce x \<le> 1"
  proof cases
    case 1
    then show ?thesis using x bounce_arc [of x "4 / 11" 0] by (simp add: bounce_def easeOutBounce_def)
  next
    case 2
    then show ?thesis using bounce_arc [of "x - 6 / 11" "2 / 11" "3 / 4"] by (simp add: bounce_def easeOutBounce_def)
  next
    case 3
    then show ?thesis using bounce_arc [of "x - 9 / 11" "1 / 11" "15 / 16"] by (simp add: bounce_def easeOutBounce_def)
  next
    case 4
    then show ?thesis using x bounce_arc [of "x - 21 / 22" "1 / 22" "63 / 64"] by (simp add: bounce_def easeOutBounce_def)
  qed
qed (simp_all add: bounce_def easeOutBounce_def)

lemma bounce_scaled: "0 < d \<Longrightarrow> easeOutBounce t b c d = c * bounce (t / d) + b"
  by (simp add: bounce_def easeOutBounce_def Let_def)

lemma tame_bounces: "tame_easing easeInBounce" "tame_easing easeOutBounce" "tame_easing easeInOutBounce"
proof -
  show "tame_easing easeOutBounce" by (rule tame_profile [OF profile_bounce bounce_scaled])
  have sc: "easeInBounce t b c d = c * mirror bounce (t / d) + b" if "0 < d" for t b c d
    using that by (simp add: easeInBounce_def bounce_scaled mirror_def diff_divide_distrib algebra_simps)
  then show "tame_easing easeInBounce" by (rule tame_profile [OF profile_mirror [OF profile_bounce]])
  have "easeInOutBounce t b c d = c * both (mirror bounce) (t / d) + b" if "0 < d" for t b c d
  proof -
    have time: "(t * 2 - d) / d = 1 - (2 - 2 * (t / d))" "(t < d / 2) = (2 * (t / d) < 1)" "t * 2 / d = 2 * (t / d)" using that by (simp_all add: field_simps)
    have "c * m * (1 / 2) + b = c * (m / 2) + b" "(c * m + 0) * (1 / 2) + c * (1 / 2) + b = c * (1 - (1 - m) / 2) + b" for m by (simp_all add: field_simps)
    then show ?thesis unfolding easeInOutBounce_def sc [OF that] bounce_scaled [OF that] both_def mirror_def time by simp
  qed
  then show "tame_easing easeInOutBounce" by (rule tame_profile [OF profile_both [OF profile_mirror [OF profile_bounce]]])
qed

lemmas tame_all = tame_in_powers tame_out_powers tame_both_powers tame_sines tame_expos tame_circles tame_bounces
lemma tame_swing: "tame_easing swing"
  unfolding swing_def by (rule tame_all)

interpretation swing_curve: tame_easing swing
  by (rule tame_swing)

interpretation in_back: easing easeInBack
  by unfold_locales (simp_all add: easeInBack_def Let_def)

interpretation out_back: easing easeOutBack
  by unfold_locales (simp_all add: easeOutBack_def Let_def)

interpretation in_out_back: easing easeInOutBack
  by unfold_locales (simp_all add: easeInOutBack_def Let_def field_simps)

lemma tame_list: "(n, f) \<in> set tame_curves \<Longrightarrow> tame_easing f"
  by (auto simp: tame_curves_def intro: tame_all tame_swing)

lemma elastic_ends:
  assumes "0 < d"
  shows "easeInElastic 0 b c d = Some b \<and> easeInElastic d b c d = Some (b + c)"
    and "easeOutElastic 0 b c d = Some b \<and> easeOutElastic d b c d = Some (b + c)"
    and "easeInOutElastic 0 b c d = Some b \<and> easeInOutElastic d b c d = Some (b + c)"
  using assms by (simp_all add: easeInElastic_def easeOutElastic_def easeInOutElastic_def)

text \<open>
  Every curve, the elastic and the overshooting ones too, is at the first value at time 0 and at the last value when
  the duration is over.
\<close>

theorem easing_ends:
  assumes "(n, f) \<in> set easings" "0 < d"
  shows "f 0 b c d = Some b \<and> f d b c d = Some (b + c)"
proof -
  consider g where "(n, g) \<in> set tame_curves" "f = total g"
    | "f = total easeInBack \<or> f = total easeOutBack \<or> f = total easeInOutBack"
    | "f = easeInElastic \<or> f = easeOutElastic \<or> f = easeInOutElastic"
    using assms(1) by (auto simp: easings_def)
  then show ?thesis
  proof cases
    case 1
    then have "easing g" using tame_list [of n g] by (simp add: tame_easing_def)
    then show ?thesis using easing.ends [OF _ assms(2)] 1(2) by blast
  next
    case 2
    then show ?thesis using in_back.ends out_back.ends in_out_back.ends assms(2) by blast
  next
    case 3
    then show ?thesis using elastic_ends [OF assms(2)] by blast
  qed
qed

text \<open>
  The curves other than the elastic ones and those of \<open>Back\<close> stay between the first and the last value while
  the time runs.
\<close>

theorem tame_within:
  assumes "(n, f) \<in> set tame_curves" "0 < d" "0 \<le> t" "t \<le> d" "0 \<le> c"
  shows "b \<le> f t b c d \<and> f t b c d \<le> b + c"
  using tame_easing.within [OF tame_list [OF assms(1)] assms(2-5)] .

text \<open>The overshooting curves do leave the range.\<close>

lemma back_leaves: "easeInBack 1 0 1 4 < 0"
  by (simp add: easeInBack_def back_s_def)

theorem easing_ends_witness: "easeOutElastic 0 5 10 400 = Some 5 \<and> easeOutElastic 400 5 10 400 = Some 15"
proof -
  have "(''easeOutElastic'', easeOutElastic) \<in> set easings" by (simp add: easings_def)
  from easing_ends [OF this, of 400 5 10] show ?thesis by simp
qed

theorem tame_within_witness: "5 \<le> easeOutBounce 100 5 10 400 \<and> easeOutBounce 100 5 10 400 \<le> 15"
proof -
  have "(''easeOutBounce'', easeOutBounce) \<in> set tame_curves" by (simp add: tame_curves_def)
  from tame_within [OF this, of 400 100 10 5] show ?thesis by simp
qed

end
