(* ===== verification/File_Saver.thy ===== *)
theory File_Saver
  imports Js_Regex
begin

text \<open>
  \<open>src/html/resource/js/FileSaver.js\<close>, with which the plugin page saves files: the choice of the implementation
  of \<open>saveAs\<close>, the three implementations, and the callbacks they leave behind (timers, requests, readers). The
  browser is a record of what the code asks it; what the code makes it do is the state \<open>saver\<close>.
\<close>

section \<open>Files, anchors, timers\<close>

record blob =
  blob_name :: "jstr option"
  blob_type :: jstr
  blob_text :: jstr

datatype source = Link jstr | Data blob

text \<open>The third argument of \<open>saveAs\<close>; of an object the truth of \<open>autoBom\<close>, of other values their truth.\<close>

datatype save_opts = Opts_undefined | Opts_null | Opts_object bool | Opts_other bool

text \<open>The object URL number \<open>u\<close> is the one made by call \<open>u\<close> of \<open>createObjectURL\<close>.\<close>

datatype href = Plain jstr | ObjUrl nat

record anchor =
  a_href :: href
  a_download :: "jstr option"
  a_blank :: bool

datatype task = Press anchor | Revoke nat

datatype shown = Downloading | At href

text \<open>
  \<open>made\<close> are the blobs of the object URLs and \<open>revoked\<close> the URLs revoked. \<open>pressed\<close> are the anchors clicked, each
  with the blob its object URL gave. \<open>gets\<close> are the requests and \<open>reads\<close> the readers that have not called back; \<open>None\<close>
  is one that has. \<open>windows\<close> are the popups.
\<close>

record saver =
  clock :: nat
  timers :: "(nat \<times> task) list"
  made :: "blob list"
  revoked :: "nat list"
  pressed :: "(anchor \<times> blob option) list"
  gets :: "(jstr \<times> jstr option \<times> save_opts) option list"
  reads :: "(blob \<times> nat option) option list"
  windows :: "shown list"
  located :: "href option"
  ms_saved :: "(blob \<times> jstr) list"
  console :: "jstr list"

text \<open>
  \<open>href_of\<close> and \<open>origin_of\<close> are the URL and the origin an anchor has after its \<open>href\<close> is set, \<open>head_status\<close> the status of a
  synchronous \<open>HEAD\<close>, 0 if it fails. \<open>existing\<close> is a \<open>saveAs\<close> the page had before.
\<close>

record browser =
  existing :: "(source \<Rightarrow> jstr option \<Rightarrow> save_opts \<Rightarrow> nat option \<Rightarrow> saver \<Rightarrow> saver) option"
  in_window :: bool
  anchor_download :: bool
  ms_save :: bool
  href_of :: "jstr \<Rightarrow> jstr"
  origin_of :: "jstr \<Rightarrow> jstr"
  page_origin :: jstr
  head_status :: "jstr \<Rightarrow> nat"
  popup_allowed :: bool
  safari :: bool
  chrome_ios :: bool
  file_reader :: bool

section \<open>The byte order mark\<close>

text \<open>\<open>.\<close>: everything but line ends; \<open>\s*\<close> and \<open>\S*\<close>.\<close>

definition rx_dot :: rx where
  "rx_dot = RCls (\<lambda>c. c \<notin> {10, 13, 0x2028, 0x2029})"

definition rx_space :: rx where "rx_space = RStar (RCls js_ws)"
definition rx_black :: rx where "rx_black = RStar (RCls (\<lambda>c. \<not> js_ws c))"

definition utf8_type :: rx where
  "utf8_type = rx_seq
     [rx_space,
      rx_alt
        [RSeq (rx_lit (js ''text/'')) rx_black,
         rx_lit (js ''application/xml''),
         rx_seq [rx_black, rx_lit (js ''/''), rx_black, rx_lit (js ''+xml'')]],
      rx_space, rx_lit (js '';''), RStar rx_dot, rx_lit (js ''charset''), rx_space, rx_lit (js ''=''), rx_space, rx_lit (js ''utf-8''),
      RStar (RCls (\<lambda>_. True))]"

text \<open>\<open>opts.autoBom\<close>; of \<open>null\<close> it raises an exception.\<close>

definition auto_bom :: "save_opts \<Rightarrow> bool option" where
  "auto_bom opts =
     (case opts of
        Opts_undefined \<Rightarrow> Some False
      | Opts_null \<Rightarrow> None
      | Opts_object b \<Rightarrow> Some b
      | Opts_other truth \<Rightarrow> Some (\<not> truth))"

definition bom :: "blob \<Rightarrow> save_opts \<Rightarrow> blob option" where
  "bom blob opts =
     map_option (\<lambda>auto.
       if auto \<and> rx_test utf8_type (blob_type blob)
       then \<lparr>blob_name = None, blob_type = blob_type blob, blob_text = 0xFEFF # blob_text blob\<rparr>
       else blob) (auto_bom opts)"

definition bom_warning :: "save_opts \<Rightarrow> jstr list" where
  "bom_warning opts = (case opts of Opts_other _ \<Rightarrow> [js ''Deprecated: Expected third argument to be a object''] | _ \<Rightarrow> [])"

section \<open>Helpers\<close>

definition download :: "jstr \<Rightarrow> jstr option \<Rightarrow> save_opts \<Rightarrow> saver \<Rightarrow> saver" where
  "download url name opts p = p\<lparr>gets := gets p @ [Some (url, name, opts)]\<rparr>"

definition corsEnabled :: "browser \<Rightarrow> jstr \<Rightarrow> bool" where
  "corsEnabled br url = (200 \<le> head_status br url \<and> head_status br url \<le> 299)"

definition fetched :: "saver \<Rightarrow> href \<Rightarrow> blob option" where
  "fetched p h = (case h of Plain _ \<Rightarrow> None | ObjUrl u \<Rightarrow> if u < length (made p) \<and> u \<notin> set (revoked p) then Some (made p ! u) else None)"

definition press :: "anchor \<Rightarrow> saver \<Rightarrow> saver" where
  "press a p = p\<lparr>pressed := pressed p @ [(a, fetched p (a_href a))]\<rparr>"

text \<open>\<open>setTimeout\<close>: timers run in the order of their times, those of the same time in the order they were set.\<close>

definition add_timer :: "nat \<Rightarrow> task \<Rightarrow> (nat \<times> task) list \<Rightarrow> (nat \<times> task) list" where
  "add_timer due t ts = takeWhile (\<lambda>x. fst x \<le> due) ts @ (due, t) # dropWhile (\<lambda>x. fst x \<le> due) ts"

definition saver_timeout :: "task \<Rightarrow> nat \<Rightarrow> saver \<Rightarrow> saver" where
  "saver_timeout t delay p = p\<lparr>timers := add_timer (clock p + delay) t (timers p)\<rparr>"

definition createObjectURL :: "blob \<Rightarrow> saver \<Rightarrow> saver" where
  "createObjectURL blob p = p\<lparr>made := made p @ [blob]\<rparr>"

definition or_name :: "jstr option \<Rightarrow> jstr \<Rightarrow> jstr" where
  "or_name n d = (case n of None \<Rightarrow> d | Some s \<Rightarrow> if s = [] then d else s)"

text \<open>\<open>name || blob.name || 'download'\<close>.\<close>

definition save_name :: "jstr option \<Rightarrow> source \<Rightarrow> jstr" where
  "save_name name src = or_name name (or_name (case src of Link _ \<Rightarrow> None | Data b \<Rightarrow> blob_name b) (js ''download''))"

section \<open>saveAs\<close>

definition saveAs_anchor :: "browser \<Rightarrow> source \<Rightarrow> jstr option \<Rightarrow> save_opts \<Rightarrow> saver \<Rightarrow> saver" where
  "saveAs_anchor br src name opts p =
     (let nm = save_name name src in
      case src of
        Link url \<Rightarrow>
          (let a = \<lparr>a_href = Plain (href_of br url), a_download = Some nm, a_blank = False\<rparr> in
           if origin_of br url \<noteq> page_origin br then
             if corsEnabled br (href_of br url) then download url (Some nm) opts p else press (a\<lparr>a_blank := True\<rparr>) p
           else press a p)
      | Data b \<Rightarrow>
          (let u = length (made p);
               a = \<lparr>a_href = ObjUrl u, a_download = Some nm, a_blank = False\<rparr>
           in saver_timeout (Press a) 0 (saver_timeout (Revoke u) 40000 (createObjectURL b p))))"

definition saveAs_ms :: "browser \<Rightarrow> source \<Rightarrow> jstr option \<Rightarrow> save_opts \<Rightarrow> saver \<Rightarrow> saver" where
  "saveAs_ms br src name opts p =
     (let nm = save_name name src in
      case src of
        Link url \<Rightarrow>
          if corsEnabled br url then download url (Some nm) opts p
          else saver_timeout (Press \<lparr>a_href = Plain (href_of br url), a_download = None, a_blank = True\<rparr>) 0 p
      | Data b \<Rightarrow>
          (let p = p\<lparr>console := console p @ bom_warning opts\<rparr> in
           case bom b opts of None \<Rightarrow> p | Some b' \<Rightarrow> p\<lparr>ms_saved := ms_saved p @ [(b', nm)]\<rparr>))"

text \<open>\<open>popup || open('', '_blank')\<close>.\<close>

definition open_popup :: "browser \<Rightarrow> nat option \<Rightarrow> saver \<Rightarrow> nat option \<times> saver" where
  "open_popup br popup p =
     (case popup of
        Some w \<Rightarrow> (Some w, p\<lparr>windows := (windows p)[w := Downloading]\<rparr>)
      | None \<Rightarrow> if popup_allowed br then (Some (length (windows p)), p\<lparr>windows := windows p @ [Downloading]\<rparr>) else (None, p))"

definition go :: "nat option \<Rightarrow> href \<Rightarrow> saver \<Rightarrow> saver" where
  "go popup h p = (case popup of Some w \<Rightarrow> p\<lparr>windows := (windows p)[w := At h]\<rparr> | None \<Rightarrow> p\<lparr>located := Some h\<rparr>)"

definition saveAs_popup :: "browser \<Rightarrow> source \<Rightarrow> jstr option \<Rightarrow> save_opts \<Rightarrow> nat option \<Rightarrow> saver \<Rightarrow> saver" where
  "saveAs_popup br src name opts popup p =
     (let (popup, p) = open_popup br popup p in
      case src of
        Link url \<Rightarrow> download url name opts p
      | Data b \<Rightarrow>
          (let force = blob_type b = js ''application/octet-stream'' in
           if (chrome_ios br \<or> force \<and> safari br) \<and> file_reader br then p\<lparr>reads := reads p @ [Some (b, popup)]\<rparr>
           else (let u = length (made p) in saver_timeout (Revoke u) 40000 (go popup (ObjUrl u) (createObjectURL b p)))))"

definition saveAs :: "browser \<Rightarrow> source \<Rightarrow> jstr option \<Rightarrow> save_opts \<Rightarrow> nat option \<Rightarrow> saver \<Rightarrow> saver" where
  "saveAs br src name opts popup p =
     (case existing br of
        Some f \<Rightarrow> f src name opts popup p
      | None \<Rightarrow>
          if \<not> in_window br then p
          else if anchor_download br then saveAs_anchor br src name opts p
          else if ms_save br then saveAs_ms br src name opts p
          else saveAs_popup br src name opts popup p)"

section \<open>Callbacks\<close>

text \<open>\<open>xhr.onload\<close> and \<open>xhr.onerror\<close> of request \<open>i\<close>.\<close>

definition loaded :: "browser \<Rightarrow> nat \<Rightarrow> blob \<Rightarrow> saver \<Rightarrow> saver" where
  "loaded br i response p =
     (if i < length (gets p) then
        (case gets p ! i of
           None \<Rightarrow> p
         | Some (url, name, opts) \<Rightarrow> saveAs br (Data response) name opts None (p\<lparr>gets := (gets p)[i := None]\<rparr>))
      else p)"

definition failed :: "nat \<Rightarrow> saver \<Rightarrow> saver" where
  "failed i p =
     (if i < length (gets p) \<and> gets p ! i \<noteq> None then
        p\<lparr>gets := (gets p)[i := None], console := console p @ [js ''could not download file'']\<rparr>
      else p)"

text \<open>\<open>url.replace(/^data:[^;]*;/, 'data:attachment/file;')\<close>.\<close>

definition attachment_url :: "jstr \<Rightarrow> jstr" where
  "attachment_url url =
     (if starts_with (js ''data:'') url \<and> 59 \<in> set (drop 5 url)
      then js ''data:attachment/file'' @ dropWhile (\<lambda>c. c \<noteq> 59) (drop 5 url) else url)"

text \<open>
  \<open>reader.onloadend\<close> of reader \<open>i\<close> with its result, \<open>None\<close> for \<open>null\<close>, which a failed reader has: \<open>replace\<close> of it raises an
  exception.
\<close>

definition read_end :: "browser \<Rightarrow> nat \<Rightarrow> jstr option \<Rightarrow> saver \<Rightarrow> saver" where
  "read_end br i result p =
     (if i < length (reads p) then
        (case reads p ! i of
           None \<Rightarrow> p
         | Some (b, popup) \<Rightarrow>
             (let p = p\<lparr>reads := (reads p)[i := None]\<rparr> in
              case result of
                None \<Rightarrow> if chrome_ios br then go popup (Plain (js ''null'')) p else p
              | Some url \<Rightarrow> go popup (Plain (if chrome_ios br then url else attachment_url url)) p))
      else p)"

definition run_task :: "task \<Rightarrow> saver \<Rightarrow> saver" where
  "run_task t p = (case t of Press a \<Rightarrow> press a p | Revoke u \<Rightarrow> p\<lparr>revoked := revoked p @ [u]\<rparr>)"

text \<open>The first timer runs, at its time or later.\<close>

definition run_timer :: "saver \<Rightarrow> saver" where
  "run_timer p =
     (case timers p of
        [] \<Rightarrow> p
      | (due, t) # ts \<Rightarrow> run_task t (p\<lparr>timers := ts, clock := max (clock p) due\<rparr>))"

datatype save_event =
    Save source "jstr option" save_opts "nat option"
  | Loaded nat blob
  | Failed nat
  | Read_end nat "jstr option"
  | Timer
  | Wait nat

definition save_step :: "browser \<Rightarrow> save_event \<Rightarrow> saver \<Rightarrow> saver" where
  "save_step br e p =
     (case e of
        Save src name opts popup \<Rightarrow> saveAs br src name opts popup p
      | Loaded i b \<Rightarrow> loaded br i b p
      | Failed i \<Rightarrow> failed i p
      | Read_end i r \<Rightarrow> read_end br i r p
      | Timer \<Rightarrow> run_timer p
      | Wait n \<Rightarrow> p\<lparr>clock := clock p + n\<rparr>)"

definition fresh_saver :: saver where
  "fresh_saver = \<lparr>clock = 0, timers = [], made = [], revoked = [], pressed = [], gets = [], reads = [], windows = [], located = None, ms_saved = [], console = []\<rparr>"

inductive saves :: "browser \<Rightarrow> saver \<Rightarrow> bool" for br where
  start: "saves br fresh_saver"
| step: "saves br p \<Longrightarrow> saves br (save_step br e p)"
section \<open>Object URLs\<close>

text \<open>
  Every object URL is revoked once, now or by a timer; a click that waits for its turn finds its URL, as the timers
  before it do not revoke it.
\<close>

fun safe_queue :: "nat \<Rightarrow> (nat \<times> task) list \<Rightarrow> nat set \<Rightarrow> bool" where
  "safe_queue n [] dead = True"
| "safe_queue n ((due, Press a) # ts) dead =
     ((case a_href a of Plain _ \<Rightarrow> True | ObjUrl u \<Rightarrow> u < n \<and> u \<notin> dead) \<and> safe_queue n ts dead)"
| "safe_queue n ((due, Revoke u) # ts) dead = safe_queue n ts (insert u dead)"

definition revokes :: "nat \<Rightarrow> saver \<Rightarrow> nat" where
  "revokes u p = length (filter (\<lambda>x. snd x = Revoke u) (timers p)) + count_list (revoked p) u"

definition found_in :: "blob list \<Rightarrow> anchor \<times> blob option \<Rightarrow> bool" where
  "found_in bs x = (case a_href (fst x) of Plain _ \<Rightarrow> True | ObjUrl u \<Rightarrow> u < length bs \<and> snd x = Some (bs ! u))"

definition found_all :: "saver \<Rightarrow> bool" where
  "found_all p = list_all (found_in (made p)) (pressed p)"

definition saver_ok :: "saver \<Rightarrow> bool" where
  "saver_ok p =
     (safe_queue (length (made p)) (timers p) (set (revoked p)) \<and> (\<forall>u. revokes u p = (if u < length (made p) then 1 else 0)) \<and> found_all p)"

lemma safe_queue_mono: "safe_queue n ts dead \<Longrightarrow> n \<le> m \<Longrightarrow> safe_queue m ts dead"
  by (induction n ts dead rule: safe_queue.induct) (auto split: href.splits)

lemma safe_queue_dead: "safe_queue n ts dead \<Longrightarrow> n \<le> u \<Longrightarrow> safe_queue n ts (insert u dead)"
  by (induction n ts dead rule: safe_queue.induct) (auto split: href.splits simp: insert_commute)

lemma safe_queue_revoke: "safe_queue n (xs @ ys) dead \<Longrightarrow> n \<le> u \<Longrightarrow> safe_queue n (xs @ (due, Revoke u) # ys) dead"
  by (induction n xs dead rule: safe_queue.induct) (auto intro: safe_queue_dead)

lemma safe_queue_press:
  "safe_queue n (xs @ ys) dead \<Longrightarrow> (\<And>u. a_href a = ObjUrl u \<Longrightarrow> u < n \<and> u \<notin> dead \<and> Revoke u \<notin> snd ` set xs)
    \<Longrightarrow> safe_queue n (xs @ (due, Press a) # ys) dead"
  by (induction n xs dead rule: safe_queue.induct) (auto split: href.splits)

lemma add_timer_split: "\<exists>xs ys. ts = xs @ ys \<and> add_timer due t ts = xs @ (due, t) # ys \<and> (\<forall>x \<in> set xs. fst x \<le> due)"
  by (rule exI [of _ "takeWhile (\<lambda>x. fst x \<le> due) ts"]) (auto simp: add_timer_def dest: set_takeWhileD)

lemma add_revoke:
  assumes "safe_queue n ts dead" "n \<le> u"
  shows "safe_queue n (add_timer due (Revoke u) ts) dead"
  using assms add_timer_split [of ts due "Revoke u"] safe_queue_revoke by metis

lemma add_press:
  assumes "safe_queue n ts dead" "\<And>u. a_href a = ObjUrl u \<Longrightarrow> u < n \<and> u \<notin> dead \<and> (\<forall>d. (d, Revoke u) \<in> set ts \<longrightarrow> due < d)"
  shows "safe_queue n (add_timer due (Press a) ts) dead"
proof -
  obtain xs ys where ts: "ts = xs @ ys" "add_timer due (Press a) ts = xs @ (due, Press a) # ys" "\<forall>x \<in> set xs. fst x \<le> due"
    using add_timer_split by blast
  have "u < n \<and> u \<notin> dead \<and> Revoke u \<notin> snd ` set xs" if "a_href a = ObjUrl u" for u
    using assms(2) [OF that] ts by fastforce
  then show ?thesis using assms(1) ts safe_queue_press by metis
qed

lemma filter_add_timer: "length (filter P (add_timer due t ts)) = length (filter P ts) + (if P (due, t) then 1 else 0)"
proof -
  have "length (filter P (xs @ z # ys)) = length (filter P (xs @ ys)) + (if P z then 1 else 0)" for xs ys z by simp
  then show ?thesis using add_timer_split [of ts due t] by metis
qed

lemma set_add_timer: "set (add_timer due t ts) = insert (due, t) (set ts)"
  using add_timer_split [of ts due t] by auto

lemma saver_ok_fresh: "saver_ok p \<Longrightarrow> length (made p) \<le> u \<Longrightarrow> (d, Revoke u) \<notin> set (timers p) \<and> u \<notin> set (revoked p)"
proof -
  assume ok: "saver_ok p" "length (made p) \<le> u"
  then have "revokes u p = 0" by (simp add: saver_ok_def)
  then show ?thesis by (auto simp: revokes_def filter_empty_conv count_list_0_iff)
qed

text \<open>What the operations do to the timers and the URLs: nothing, one click on a link, or a new URL with its timers.\<close>

definition same_urls :: "saver \<Rightarrow> saver \<Rightarrow> bool" where
  "same_urls p q = (timers p = timers q \<and> made p = made q \<and> revoked p = revoked q \<and> pressed p = pressed q)"

lemma saver_ok_same: "saver_ok p \<Longrightarrow> same_urls p q \<Longrightarrow> saver_ok q"
  by (simp add: saver_ok_def same_urls_def revokes_def found_all_def)

lemma saver_ok_press:
  assumes "saver_ok p" "\<And>u. a_href a = ObjUrl u \<Longrightarrow> u < length (made p) \<and> u \<notin> set (revoked p)"
  shows "saver_ok (press a p)"
  using assms by (auto simp: saver_ok_def press_def revokes_def found_all_def fetched_def found_in_def split: href.splits)

lemma saver_ok_link_timer: "saver_ok p \<Longrightarrow> a_href a = Plain url \<Longrightarrow> saver_ok (saver_timeout (Press a) n p)"
  by (auto simp: saver_ok_def saver_timeout_def revokes_def found_all_def filter_add_timer intro: add_press)

lemma saver_ok_url:
  assumes "saver_ok p"
  shows "saver_ok (saver_timeout (Revoke (length (made p))) n (createObjectURL b p))"
proof -
  let ?u = "length (made p)"
  have q: "safe_queue ?u (timers p) (set (revoked p))" "found_all p" "\<And>u. revokes u p = (if u < ?u then 1 else 0)" using assms by (simp_all add: saver_ok_def)
  have "safe_queue (Suc ?u) (add_timer (clock p + n) (Revoke ?u) (timers p)) (set (revoked p))"
    using add_revoke [OF q(1), of ?u] by (rule safe_queue_mono) simp_all
  moreover have "found_all (saver_timeout (Revoke ?u) n (createObjectURL b p))"
    using q(2) by (auto simp: found_all_def found_in_def saver_timeout_def createObjectURL_def nth_append list_all_iff split: href.splits)
  ultimately show ?thesis
    using q(3) by (auto simp: saver_ok_def saver_timeout_def createObjectURL_def revokes_def filter_add_timer)
qed

lemma saver_ok_save_url:
  assumes "saver_ok p" "a_href a = ObjUrl (length (made p))"
  shows "saver_ok (saver_timeout (Press a) 0 (saver_timeout (Revoke (length (made p))) 40000 (createObjectURL b p)))"
proof -
  let ?q = "saver_timeout (Revoke (length (made p))) 40000 (createObjectURL b p)"
  have ok: "saver_ok ?q" by (rule saver_ok_url [OF assms(1)])
  have "length (made p) < length (made ?q)" "length (made p) \<notin> set (revoked ?q)" "\<And>d. (d, Revoke (length (made p))) \<in> set (timers ?q) \<Longrightarrow> clock ?q + 0 < d"
    using saver_ok_fresh [OF assms(1)] by (auto simp: saver_timeout_def createObjectURL_def set_add_timer)
  then have "safe_queue (length (made ?q)) (add_timer (clock ?q + 0) (Press a) (timers ?q)) (set (revoked ?q))"
    using ok assms(2) by (intro add_press) (auto simp: saver_ok_def)
  then show ?thesis using ok by (simp add: saver_ok_def saver_timeout_def [of "Press a"] revokes_def found_all_def filter_add_timer)
qed

lemma same_urls_simps [simp]:
  "same_urls p p" "same_urls p (download url name opts q) = same_urls p q" "same_urls p (go w h q) = same_urls p q"
  "same_urls p (snd (open_popup br w q)) = same_urls p q" "same_urls p (q\<lparr>reads := rs\<rparr>) = same_urls p q"
  "same_urls p (q\<lparr>gets := gs\<rparr>) = same_urls p q" "same_urls p (q\<lparr>console := cs\<rparr>) = same_urls p q"
  "same_urls p (q\<lparr>ms_saved := ms\<rparr>) = same_urls p q" "same_urls p (q\<lparr>clock := c\<rparr>) = same_urls p q"
  by (simp_all add: same_urls_def download_def go_def open_popup_def split: option.splits)

lemma made_popup: "made (snd (open_popup br w p)) = made p"
  by (simp add: open_popup_def split: option.splits)

lemma saver_ok_anchor: "saver_ok p \<Longrightarrow> saver_ok (saveAs_anchor br src name opts p)"
  by (cases src) (auto simp: saveAs_anchor_def Let_def intro: saver_ok_save_url saver_ok_press saver_ok_same)

lemma saver_ok_ms: "saver_ok p \<Longrightarrow> saver_ok (saveAs_ms br src name opts p)"
  by (cases src) (auto simp: saveAs_ms_def Let_def intro: saver_ok_link_timer saver_ok_same split: option.splits)

lemma url_go: "saver_timeout t n (go w h (createObjectURL b p)) = go w h (saver_timeout t n (createObjectURL b p))"
  by (simp add: saver_timeout_def go_def createObjectURL_def split: option.splits)

lemma saver_ok_popup: "saver_ok p \<Longrightarrow> saver_ok (saveAs_popup br src name opts w p)"
proof -
  assume p: "saver_ok p"
  obtain w' q where q: "open_popup br w p = (w', q)" by fastforce
  then have ok: "saver_ok q" using saver_ok_same [OF p, of q] same_urls_simps(1, 4) [of p] by (metis snd_conv)
  then have "saver_ok (go w' h (saver_timeout (Revoke (length (made q))) 40000 (createObjectURL b q)))" for h b
    using saver_ok_url saver_ok_same same_urls_simps(1, 3) by metis
  then show ?thesis using ok q by (cases src) (auto simp: saveAs_popup_def Let_def url_go intro: saver_ok_same)
qed

lemma saver_ok_saveAs: "saver_ok p \<Longrightarrow> existing br = None \<Longrightarrow> saver_ok (saveAs br src name opts w p)"
  by (simp add: saveAs_def saver_ok_anchor saver_ok_ms saver_ok_popup)

lemma saver_ok_timer: "saver_ok p \<Longrightarrow> saver_ok (run_timer p)"
proof -
  assume ok: "saver_ok p"
  show ?thesis
  proof (cases "timers p")
    case (Cons x ts)
    obtain due t where x: "x = (due, t)" by fastforce
    let ?q = "p\<lparr>timers := ts, clock := max (clock p) due\<rparr>"
    show ?thesis
    proof (cases t)
      case (Press a)
      then have "saver_ok ?q" "\<And>u. a_href a = ObjUrl u \<Longrightarrow> u < length (made ?q) \<and> u \<notin> set (revoked ?q)"
        using ok Cons x by (auto simp: saver_ok_def revokes_def found_all_def)
      then show ?thesis using saver_ok_press Cons x Press by (simp add: run_timer_def run_task_def)
    next
      case (Revoke u)
      then show ?thesis using ok Cons x by (auto simp: run_timer_def run_task_def saver_ok_def revokes_def found_all_def split: if_splits)
    qed
  qed (use ok in \<open>simp add: run_timer_def\<close>)
qed

lemma saver_ok_loaded: "saver_ok p \<Longrightarrow> existing br = None \<Longrightarrow> saver_ok (loaded br i b p)"
  using saver_ok_same [of p "p\<lparr>gets := (gets p)[i := None]\<rparr>"]
  by (auto simp: loaded_def intro: saver_ok_saveAs split: option.splits)

lemma saver_ok_step: "saver_ok p \<Longrightarrow> existing br = None \<Longrightarrow> saver_ok (save_step br e p)"
  by (cases e)
    (auto simp: save_step_def failed_def read_end_def Let_def
      intro: saver_ok_saveAs saver_ok_loaded saver_ok_timer saver_ok_same split: option.splits)

lemma saves_ok: "saves br p \<Longrightarrow> existing br = None \<Longrightarrow> saver_ok p"
proof (induction rule: saves.induct)
  case start
  then show ?case by (simp add: saver_ok_def fresh_saver_def revokes_def found_all_def)
qed (rule saver_ok_step)
text \<open>
  C35: a click finds its file. Whatever files are saved and however requests, readers and timers call back, every anchor
  clicked for a blob is clicked while its object URL still gives that blob.
\<close>

theorem click_finds_blob:
  assumes "saves br p" "existing br = None" "(a, c) \<in> set (pressed p)" "a_href a = ObjUrl u"
  shows "u < length (made p) \<and> c = Some (made p ! u)"
proof -
  have "found_in (made p) (a, c)" using saves_ok [OF assms(1, 2)] assms(3) by (auto simp: saver_ok_def found_all_def list_all_iff)
  then show ?thesis using assms(4) by (simp add: found_in_def)
qed

lemma run_timer_simps: "timers (run_timer p) = tl (timers p)" "made (run_timer p) = made p"
  by (auto simp: run_timer_def run_task_def press_def split: list.splits task.splits)

lemma timers_done: "timers ((run_timer ^^ n) p) = drop n (timers p)"
  by (induction n) (simp_all add: run_timer_simps tl_drop drop_Suc)

lemma made_timers: "made ((run_timer ^^ n) p) = made p"
  by (induction n) (simp_all add: run_timer_simps)

lemma saver_ok_timers: "saver_ok p \<Longrightarrow> saver_ok ((run_timer ^^ n) p)"
  by (induction n) (simp_all add: saver_ok_timer)

definition presses :: "(nat \<times> task) list \<Rightarrow> anchor list" where
  "presses ts = List.map_filter (\<lambda>x. case snd x of Press a \<Rightarrow> Some a | Revoke _ \<Rightarrow> None) ts"

lemma presses_Cons: "presses (x # ts) = (case snd x of Press a \<Rightarrow> a # presses ts | Revoke _ \<Rightarrow> presses ts)"
  by (simp add: presses_def List.map_filter_simps split: task.splits)

lemma pressed_timers: "n = length (timers p) \<Longrightarrow> map fst (pressed ((run_timer ^^ n) p)) = map fst (pressed p) @ presses (timers p)"
proof (induction n arbitrary: p)
  case 0
  then show ?case by (simp add: presses_def List.map_filter_simps)
next
  case (Suc n)
  then obtain x ts where ts: "timers p = x # ts" by (cases "timers p") auto
  have "map fst (pressed (run_timer p)) @ presses ts = map fst (pressed p) @ presses (timers p)"
    using ts by (cases x) (auto simp: run_timer_def run_task_def press_def presses_Cons split: task.splits)
  moreover have "n = length (timers (run_timer p))" using Suc.prems ts by (simp add: run_timer_simps)
  ultimately show ?case using Suc.IH [of "run_timer p"] ts by (simp add: funpow_Suc_right run_timer_simps del: funpow.simps)
qed

text \<open>
  C36: nothing is left behind. From every state the pending timers run out; then each pending click has been made, in order,
  and every object URL ever made has been revoked, once.
\<close>

theorem timers_run_out:
  assumes "saves br p" "existing br = None"
  defines "q \<equiv> (run_timer ^^ length (timers p)) p"
  shows "timers q = [] \<and> map fst (pressed q) = map fst (pressed p) @ presses (timers p) \<and> (\<forall>u < length (made p). count_list (revoked q) u = 1)"
proof -
  have "saver_ok q" unfolding q_def by (rule saver_ok_timers [OF saves_ok [OF assms(1, 2)]])
  then have "revokes u q = (if u < length (made p) then 1 else 0)" for u by (simp add: saver_ok_def made_timers q_def)
  moreover have "timers q = []" by (simp add: q_def timers_done)
  ultimately have "\<forall>u < length (made p). count_list (revoked q) u = 1" by (simp add: revokes_def)
  then show ?thesis using \<open>timers q = []\<close> pressed_timers [of _ p] by (simp add: q_def)
qed

text \<open>
  A file of another server is saved under its name. If that server answers the test, the link is requested, and when the
  file has arrived the next timer clicks an anchor with the given name and the file.
\<close>

theorem link_saved:
  assumes "saves br p" "existing br = None" "in_window br" "anchor_download br" "timers p = []" "name \<noteq> []"
    and "origin_of br url \<noteq> page_origin br" "corsEnabled br (href_of br url)"
  shows "pressed (run_timer (loaded br (length (gets p)) b (saveAs br (Link url) (Some name) opts w p))) =
    pressed p @ [(\<lparr>a_href = ObjUrl (length (made p)), a_download = Some name, a_blank = False\<rparr>, Some b)]"
proof -
  have "length (made p) \<notin> set (revoked p)" using saver_ok_fresh [OF saves_ok [OF assms(1, 2)]] by blast
  then show ?thesis
    using assms(2-) by (simp add: saveAs_def saveAs_anchor_def loaded_def download_def save_name_def or_name_def Let_def
      saver_timeout_def createObjectURL_def add_timer_def run_timer_def run_task_def press_def fetched_def)
qed

text \<open>Without \<open>download\<close> on anchors the link is loaded too, but its popup is not passed on.\<close>

definition abandoned :: "nat \<Rightarrow> saver \<Rightarrow> bool" where
  "abandoned w p = (w < length (windows p) \<and> windows p ! w = Downloading \<and> (\<forall>b. Some (b, Some w) \<notin> set (reads p)))"

definition not_given :: "nat \<Rightarrow> save_event \<Rightarrow> bool" where
  "not_given w e = (case e of Save _ _ _ popup \<Rightarrow> popup \<noteq> Some w | _ \<Rightarrow> True)"

lemma abandoned_simps [simp]:
  "abandoned w (p\<lparr>gets := gs\<rparr>) = abandoned w p" "abandoned w (p\<lparr>console := cs\<rparr>) = abandoned w p"
  "abandoned w (p\<lparr>clock := c\<rparr>) = abandoned w p" "abandoned w (saver_timeout t n p) = abandoned w p"
  "abandoned w (createObjectURL b p) = abandoned w p" "abandoned w (download url name opts p) = abandoned w p"
  "abandoned w (run_timer p) = abandoned w p"
  by (simp_all add: abandoned_def saver_timeout_def createObjectURL_def download_def run_timer_def run_task_def press_def split: list.splits task.splits)

lemma abandoned_go: "abandoned w p \<Longrightarrow> v \<noteq> Some w \<Longrightarrow> abandoned w (go v h p)"
  by (cases v) (simp_all add: abandoned_def go_def)

lemma abandoned_popup:
  assumes "abandoned w p" "v \<noteq> Some w"
  shows "abandoned w (saveAs_popup br src name opts v p)"
proof -
  obtain v' q where q: "open_popup br v p = (v', q)" by fastforce
  then have "abandoned w q" "v' \<noteq> Some w"
    using assms by (auto simp: open_popup_def abandoned_def nth_append nth_list_update split: option.splits if_splits)
  moreover have "abandoned w (q\<lparr>reads := reads q @ [Some (b, v')]\<rparr>)" for b using calculation by (auto simp: abandoned_def)
  ultimately show ?thesis using q by (cases src) (auto simp: saveAs_popup_def Let_def abandoned_go)
qed

lemma abandoned_reads: "abandoned w p \<Longrightarrow> abandoned w (p\<lparr>reads := (reads p)[i := None]\<rparr>)"
  using set_update_subset_insert [of "reads p" i None] by (auto simp: abandoned_def)

lemma abandoned_read_end: "abandoned w p \<Longrightarrow> abandoned w (read_end br i r p)"
proof (cases "i < length (reads p) \<and> reads p ! i \<noteq> None")
  case True
  assume w: "abandoned w p"
  from True obtain b v where v: "reads p ! i = Some (b, v)" by auto
  then have "v \<noteq> Some w" using w True by (metis abandoned_def nth_mem)
  then show ?thesis using abandoned_go [OF abandoned_reads [OF w]] abandoned_reads [OF w] True v by (simp add: read_end_def Let_def split: option.splits)
qed (auto simp: read_end_def split: option.splits)

lemma abandoned_step:
  assumes "existing br = None" "\<not> anchor_download br" "\<not> ms_save br"
  shows "abandoned w p \<Longrightarrow> not_given w e \<Longrightarrow> abandoned w (save_step br e p)"
  using assms abandoned_popup [of w "p\<lparr>gets := _\<rparr>" None] 
  by (cases e) (auto simp: save_step_def saveAs_def loaded_def failed_def not_given_def abandoned_read_end abandoned_popup split: option.splits)

text \<open>
  C40: in a browser without both ways to save, the popup opened for a link says that it is downloading for ever: when the file
  arrives a second popup is opened for it, and nothing changes the first one.
\<close>

theorem popup_abandoned:
  assumes "existing br = None" "in_window br" "\<not> anchor_download br" "\<not> ms_save br" "popup_allowed br"
    and "list_all (not_given (length (windows p))) es" "\<forall>b. Some (b, Some (length (windows p))) \<notin> set (reads p)"
  shows "windows (fold (save_step br) es (saveAs br (Link url) name opts None p)) ! length (windows p) = Downloading"
proof -
  let ?w = "length (windows p)"
  have "abandoned ?w (saveAs br (Link url) name opts None p)"
    using assms by (simp add: saveAs_def saveAs_popup_def open_popup_def abandoned_def download_def)
  then have "abandoned ?w (fold (save_step br) es q)" if "abandoned ?w q" for q
    using assms(6) that by (induction es arbitrary: q) (auto intro: abandoned_step [OF assms(1, 3, 4)])
  then show ?thesis using \<open>abandoned ?w (saveAs br (Link url) name opts None p)\<close> by (simp add: abandoned_def)
qed

text \<open>The mark is put before the text of a blob of a UTF-8 text type, and only if it is asked for.\<close>

lemma bom_text: "bom b (Opts_object True) = Some b' \<Longrightarrow> blob_text b' = (if rx_test utf8_type (blob_type b) then [0xFEFF] else []) @ blob_text b"
  by (auto simp: bom_def auto_bom_def)

section \<open>An example\<close>

definition chrome :: browser where
  "chrome = \<lparr>existing = None, in_window = True, anchor_download = True, ms_save = False, href_of = (\<lambda>u. u), origin_of = take 9,
     page_origin = js ''http://a/'', head_status = (\<lambda>_. 200), popup_allowed = True, safari = False, chrome_ios = False, file_reader = True\<rparr>"

definition zip_file :: blob where
  "zip_file = \<lparr>blob_name = None, blob_type = js ''application/zip'', blob_text = js ''PK''\<rparr>"

definition after_zip :: saver where
  "after_zip = run_timer (saveAs chrome (Data zip_file) (Some (js ''p.zip'')) Opts_undefined None fresh_saver)"

lemma saves_after_zip: "saves chrome after_zip"
proof -
  have "saves chrome (save_step chrome Timer (save_step chrome (Save (Data zip_file) (Some (js ''p.zip'')) Opts_undefined None) fresh_saver))"
    by (intro saves.intros)
  then show ?thesis by (simp add: save_step_def after_zip_def)
qed

lemma after_zip: "pressed after_zip = [(\<lparr>a_href = ObjUrl 0, a_download = Some (js ''p.zip''), a_blank = False\<rparr>, Some zip_file)]"
    "timers after_zip = [(40000, Revoke 0)]" "made after_zip = [zip_file]" "existing chrome = None"
  by (simp_all add: after_zip_def chrome_def fresh_saver_def saveAs_def saveAs_anchor_def Let_def save_name_def or_name_def js_def
      saver_timeout_def createObjectURL_def add_timer_def run_timer_def run_task_def press_def fetched_def)

theorem click_finds_blob_witness: "0 < length (made after_zip) \<and> Some zip_file = Some (made after_zip ! 0)"
proof -
  have "(\<lparr>a_href = ObjUrl 0, a_download = Some (js ''p.zip''), a_blank = False\<rparr>, Some zip_file) \<in> set (pressed after_zip)" by (simp add: after_zip)
  from click_finds_blob [OF saves_after_zip after_zip(4) this] show ?thesis by simp
qed

theorem timers_run_out_witness: "timers (run_timer after_zip) = [] \<and> count_list (revoked (run_timer after_zip)) 0 = 1"
  using timers_run_out [OF saves_after_zip after_zip(4)] by (simp add: after_zip)

theorem link_saved_witness:
  "pressed (run_timer (loaded chrome 0 zip_file (saveAs chrome (Link (js ''http://b/p'')) (Some (js ''p'')) Opts_undefined None fresh_saver))) =
    [(\<lparr>a_href = ObjUrl 0, a_download = Some (js ''p''), a_blank = False\<rparr>, Some zip_file)]"
proof -
  have "existing chrome = None" "in_window chrome" "anchor_download chrome" "timers fresh_saver = []" "js ''p'' \<noteq> []"
    "origin_of chrome (js ''http://b/p'') \<noteq> page_origin chrome" "corsEnabled chrome (href_of chrome (js ''http://b/p''))"
    by (simp_all add: chrome_def fresh_saver_def js_def corsEnabled_def)
  from link_saved [OF saves.start this] show ?thesis by (simp add: fresh_saver_def)
qed

definition old_safari :: browser where
  "old_safari = chrome\<lparr>anchor_download := False\<rparr>"

theorem popup_abandoned_witness:
  "windows (fold (save_step old_safari) [Loaded 0 zip_file] (saveAs old_safari (Link (js ''http://b/p'')) None Opts_undefined None fresh_saver)) ! 0 = Downloading"
  using popup_abandoned [of old_safari fresh_saver "[Loaded 0 zip_file]" "js ''http://b/p''" None Opts_undefined]
  by (simp add: old_safari_def chrome_def fresh_saver_def not_given_def)

end
