(* ===== verification/Spec2Isabelle.thy ===== *)
theory Spec2Isabelle
  imports Xrk_Props Md5 Comm_Machine Cookies Jq_Json Validate_Labels Highlight Ie_Hack Easing File_Saver
begin

text \<open>
  Verification of the JavaScript of the xrkmonitor monitoring system.

  \<^bold>\<open>The program.\<close> Two bodies of JavaScript are the program's own:

  \<^item> the \<^emph>\<open>reporter\<close>, \<open>src/language/javascript/dmt_xrkmonitor.js\<close>, which a monitored web page loads. Page
  and plugins report attribute values, strings and logs to the object \<open>xrk\<close>; it queues them and sends
  them to a server, one request in flight at a time and a few per period. \<open>dmt_json2.js\<close> beside it
  is the JSON support of browsers that have none;
  \<^item> the \<^emph>\<open>console\<close>, \<open>src/html/resource/js/dmt.comm.js\<close> and \<open>dmt.addplugin.js\<close>: formatting, attribute lists
  and curves, the charts of a view and their redrawing, warnings, plugin dialogs. It uses cookies
  (its own functions and \<open>jquery.cookie.js\<close>), base 64 (\<open>base64.js\<close>), MD5 (\<open>jquery.md5.js\<close>) and JSON
  (\<open>jquery.json-2.3.js\<close>), its dialogs are validated by \<open>jquery.validate.js\<close>, plugins are saved with \<open>FileSaver.js\<close>,
  and its pages load \<open>jquery.highlight-3.js\<close>, \<open>jquery.easing.1.3.js\<close> and, in old browsers, \<open>iehack.js\<close>.

  \<^bold>\<open>The theories.\<close>

  \<^item> \<open>Js_Prelude\<close>, \<open>Js_Int\<close>, \<open>Js_Num\<close>, \<open>Js_Date\<close>, \<open>Js_Uri\<close>: the language and its library as far as the
  sources use them. Strings are lists of 16-bit words, numbers are exact rationals with the two
  infinities and \<open>NaN\<close>, bitwise operators reduce to 32 bits, dates follow the calendar of ECMAScript,
  \<open>encodeURIComponent\<close> and its inverse work on surrogate pairs. The lemma collection \<open>js_ops\<close> and the
  interfaces \<open>codec\<close> and \<open>codec_chain\<close> (an encoder, its decoder, and two of them in sequence) are here.
  \<^item> \<open>Json2\<close>: \<open>quote\<close>, \<open>str\<close> and \<open>JSON.stringify\<close> of \<open>dmt_json2.js\<close>. \<open>str\<close> takes fuel, since a replacer may
  make up new values; \<open>stringify_roundtrip\<close> shows that without a replacer the depth of the value is
  enough, and that an independent reader gets the value back. The interface \<open>escaping\<close> is a table of
  escapes and what it promises; the table of \<open>dmt_json2.js\<close> and that of the jQuery plugin are instances.
  \<^item> \<open>Json_Parse\<close>: the rest of \<open>dmt_json2.js\<close>. The four regular expressions of \<open>JSON.parse\<close> are scanners for
  maximal pieces of a text; \<open>parse_evaluates_json\<close> shows that what passes them is a sequence of JSON tokens,
  whatever \<open>eval\<close> does, and \<open>parse_accepts_stringify\<close> that printed texts pass. \<open>filtered\<close> is the contract of
  such a filter. The reviver is a structural rebuild; dates print in a form that is read back.
  \<^item> \<open>Jq_Json\<close>: \<open>$.toJSON\<close>, \<open>$.quoteString\<close>, \<open>$.evalJSON\<close> and \<open>$.secureEvalJSON\<close> of \<open>jquery.json-2.3.js\<close>, instances of
  \<open>escaping\<close> and \<open>filtered\<close>.
  \<^item> \<open>Xrk_State\<close>, \<open>Xrk_Report\<close>, \<open>Xrk_Init\<close>: the object \<open>xrk\<close> with clock, timers, requests and loading scripts
  as the record \<open>sys\<close>, and one definition per function of \<open>dmt_xrkmonitor.js\<close> (a leading underscore is
  written \<open>u_\<close>).
  \<^item> \<open>Xrk_Machine\<close>, \<open>Xrk_Safety\<close>, \<open>Xrk_Props\<close>: events of the reporter, \<open>step\<close>, \<open>reachable\<close>; the contracts
  \<open>reporter_frame\<close> and \<open>reporter_invariant\<close> say which elementary updates an invariant has to survive,
  and each invariant (\<open>seq_inv\<close>, \<open>data_inv\<close>, \<open>timer_inv\<close>, \<open>freq_inv\<close>, \<open>holds_total\<close>) is an
  interpretation. \<open>transport\<close> is what \<open>_report_to_server\<close> relies on of \<open>_to_server\<close>. The properties: no value
  is lost before it is handed to \<open>XMLHttpRequest\<close> and none is sent twice, a report takes all attributes and strings and
  one batch of logs (\<open>log_batch\<close>: the page's, or those of the first plugin with logs) or nothing, requests are numbered, the
  frequency limit, recovery after a lost response, and the situation in which it does not recover.
  \<^item> \<open>Base64\<close>: \<open>encode\<close> and \<open>decode\<close>, with UTF-8 and base 64 as two codecs in a chain.
  \<^item> \<open>Md5\<close>: the plugin with its arithmetic on signed 32-bit numbers, and the algorithm of RFC 1321 on
  words as the reference it is proved equal to.
  \<^item> \<open>Comm_Format\<close>, \<open>Comm_Data\<close>: durations, sizes, dates, escaping; type trees, attribute lists, time
  axes, curves and the daily growth of a counter.
  \<^item> \<open>Comm_Page\<close>, \<open>Comm_Warn\<close>, \<open>Comm_Charts\<close>, \<open>Comm_Misc\<close>: the globals of the console and the part of the
  document it reads as the record \<open>page\<close>; calls to other scripts (messages, dialogs, requests) are
  recorded in order as effects, a chart records the options it was given, \<open>pg_ids\<close> and \<open>pg_width\<close> are the containers
  of the charts and their inline widths, a callback of \<open>setTimeout\<close> waits on \<open>pg_timers\<close>. Chart sizes, redrawing, tabs, tool boxes, warning requests and
  their responses, construction of all charts, full screen, export, plugin dialogs.
  \<^item> \<open>Comm_Machine\<close>: these functions as the step relation \<open>page_step\<close>; in every reachable page the charts
  are consistent with each other and with their containers, so that the response to a warning request changes the chart it was made for.
  \<^item> \<open>Cookies\<close>: the browser's jar, the readers and writers of cookies. \<open>cookie_reader\<close> is the contract of
  a reader, interpreted for the console's function and for the plugin; reading refines a lookup in the
  jar, and written cookies are read back or removed as asked.
  \<^item> \<open>Js_Regex\<close>: regular expressions with a matcher by derivatives, and the languages they denote.
  \<^item> \<open>Validate_Methods\<close>, \<open>Validate_Rules\<close>, \<open>Validate_Form\<close>: \<open>jquery.validate.js\<close>. A form is a list of \<open>field\<close>
  records; the methods of the plugin answer true, false, mismatch, pending or an exception; rules come from
  classes, attributes, data and settings. The record \<open>validator\<close> is the object of the same name; the objects that
  elements and requests share are in a store, \<open>v_objects\<close>. Properties of methods: a wrong digit of a
  card number is found, the pattern of an address accepts exactly the numbers up to 255.
  \<^item> \<open>Validate_Safety\<close>, \<open>Validate_Machine\<close>: the events of a form as the step relation \<open>vstep\<close>. The invariant \<open>vinv\<close>
  counts the requests and links them to objects and answers; checking is proved equal to a verdict without
  side effects, and a form that is sent satisfies its rules, with the server's consent where a rule asks for it.
  \<^item> \<open>Validate_Labels\<close>: the labels of a form. \<open>labels_exact\<close>: after a check the visible labels are those of the elements with an
  error, with their messages, and at most those of elements whose request is pending besides.
  \<^item> \<open>File_Saver\<close>: \<open>saveAs\<close> with its three implementations, and the requests, readers and timers it leaves behind, as the
  step function \<open>save_step\<close>. In every state reached by \<open>saves\<close> an object URL waits for exactly one revocation or has had
  it, and a click comes before the revocation of its URL; the popup of a link is left behind.
  \<^item> \<open>Highlight\<close>: marking a text in a document, with the loop as a \<open>partial_function\<close>, and removing the marks, in the order
  in which the nodes are normalised. On texts where \<open>toUpperCase\<close> works unit by unit (\<open>unit_wise\<close>), marks are
  exactly the matches and removing gives the document back; an empty pattern is a loop that does not end.
  \<^item> \<open>Ie_Hack\<close>: \<open>Array.prototype.indexOf\<close>, equal to the first position at or behind the start, and the start for which it
  does not end.
  \<^item> \<open>Easing\<close>: the curves of the animations. \<open>easing\<close> and \<open>tame_easing\<close> are the contracts of a curve (its ends, and
  staying between them); the curves are instances, by profiles that are mirrored or run both ways.

  \<^bold>\<open>Parameters.\<close> What is not in the repository, or third-party, is an argument of the definitions that
  use it: the scripts of the plugins (\<open>plugin_env\<close>), the title echarts reports for a chart (\<open>getSubtext\<close>),
  the message table of the page framework (\<open>msg_of\<close>), the JSON functions in the configuration of the
  cookie plugin, \<open>eval\<close>, the time zone, whether the browser has \<open>JSON\<close> and \<open>Math.trunc\<close>, and what a selector finds
  on the page (\<open>venv\<close>), \<open>toUpperCase\<close> in \<open>Highlight\<close>, and what the browser offers and how servers answer in \<open>File_Saver\<close>
  (\<open>browser\<close>). Methods added to the validator are functions of value, element and parameter; the properties
  assume that they answer at once (\<open>quiet\<close>).

  \<^bold>\<open>Bounds.\<close> Loops are structural recursion or have a termination proof. Fuel is used by \<open>str\<close> and \<open>toJSON\<close>;
  the size of the value is enough without replacer functions and \<open>toJSON\<close> methods (\<open>stringify_returns\<close>), and for data of
  integers, texts, booleans, null, arrays and objects in the plugin (\<open>jq_json_roundtrip\<close>); values are finite trees, so cyclic
  objects, on which the code recurses for ever, are outside the model. Two loops that may not end,
  \<open>innerHighlight\<close> and \<open>array_scan\<close>, have the value \<open>None\<close> then; it is proved when they return and when they do not.
  Numbers do not round; the values of the console and the reporter are counts and times far below
  the precision of a double (\<open>num_str\<close> is \<open>String\<close> of such numbers: it has no exponent form, which
  JavaScript uses from a magnitude of 1e21 on and below 1e-6), and MD5 and base 64 work on 32-bit integers, which are exact. The curves of \<open>Easing\<close> are on real numbers.
  Timers run in the order of the times they are set for.

  \<^bold>\<open>Not modelled.\<close> Third-party code: jQuery, ECharts and its map, TweenMax, the DWZ framework, the markup
  \<open>jquery.bgiframe.js\<close> writes for Internet Explorer 6, the canvas and WebGL scenes of the login and start pages, which
  only draw. The C++ servers behind the console. Console output of the reporter. The text of functions handed to echarts
  (the functions themselves are modelled where they compute something). Of the validation plugin, the settings
  \<open>submitHandler\<close>, \<open>success\<close>, \<open>wrapper\<close>, \<open>errorPlacement\<close>, \<open>showErrors\<close>, \<open>invalidHandler\<close> and error containers, which are
  unset by default, and fields named like members of \<open>Object.prototype\<close>, except for the tests with \<open>in\<close>.
\<close>

end
